(* ===== verification/Rust_Prelude.thy ===== *)
theory Rust_Prelude
  imports Main "HOL-Library.Word"
begin

text \<open>
  Shared vocabulary of the development: the Rust integer types as words of their width,
  byte strings, the little- and big-endian conversions of the standard library, the
  result-and-state combinators every fallible component uses, and the lemma collections
  the component theories feed.

  Integers are words of their width, so \<open>+\<close>, \<open>-\<close> and \<open>*\<close> wrap: the workspace is shipped
  with the release profile (Dockerfile, \<open>[profile.release]\<close> in Cargo.toml), which does not
  enable overflow checks. \<open>usize\<close> values that are lengths or indices of collections in
  memory are natural numbers.
\<close>

section \<open>Machine integers and byte strings\<close>

type_synonym u8 = "8 word"
type_synonym u16 = "16 word"
type_synonym u32 = "32 word"
type_synonym u64 = "64 word"
type_synonym u128 = "128 word"
type_synonym usize = nat
type_synonym bytes = "u8 list"

text \<open>\<open>u64::MAX\<close>\<close>

definition U64_MAX :: u64 where
  "U64_MAX = 18446744073709551615"

lemma unat_U64_MAX [simp]: "unat U64_MAX = 18446744073709551615"
  by (simp add: U64_MAX_def)

named_theorems store_simps \<open>equations of the storage operations over a faultless store\<close>
named_theorems frame_simps \<open>fields an operation leaves unchanged\<close>
named_theorems length_simps \<open>lengths of encodings\<close>

text \<open>ASCII byte-string literals, \<open>b"..."\<close> in the source.\<close>

definition ascii :: "string \<Rightarrow> bytes" where
  "ascii s = map (\<lambda>c. word_of_nat (of_char c)) s"

lemma length_ascii [simp, length_simps]: "length (ascii s) = length s"
  by (simp add: ascii_def)

section \<open>Little-endian encodings\<close>

primrec nat_to_le :: "nat \<Rightarrow> nat \<Rightarrow> bytes" where
  "nat_to_le 0 n = []"
| "nat_to_le (Suc k) n = word_of_nat (n mod 256) # nat_to_le k (n div 256)"

primrec le_to_nat :: "bytes \<Rightarrow> nat" where
  "le_to_nat [] = 0"
| "le_to_nat (b # bs) = unat b + 256 * le_to_nat bs"

lemma length_nat_to_le [simp, length_simps]: "length (nat_to_le k n) = k"
  by (induction k arbitrary: n) simp_all

lemma unat_byte_mod: "unat (word_of_nat (n mod 256) :: u8) = n mod 256"
  by (simp add: unat_of_nat)

lemma le_to_nat_nat_to_le: "le_to_nat (nat_to_le k n) = n mod 256 ^ k"
proof (induction k arbitrary: n)
  case 0
  show ?case by simp
next
  case (Suc k)
  have "n mod (256 * 256 ^ k) = 256 * (n div 256 mod 256 ^ k) + n mod 256"
    by (rule mod_mult2_eq)
  then show ?case by (simp add: Suc.IH unat_byte_mod)
qed

lemma le_to_nat_less: "le_to_nat bs < 256 ^ length bs"
proof (induction bs)
  case (Cons b bs)
  have "unat b < 256"
    using unsigned_less [of b] by simp
  with Cons show ?case by simp
qed simp

lemma nat_to_le_le_to_nat: "length bs = k \<Longrightarrow> nat_to_le k (le_to_nat bs) = bs"
proof (induction bs arbitrary: k)
  case (Cons b bs)
  have b: "unat b < 256"
    using unsigned_less [of b] by simp
  have "(unat b + 256 * le_to_nat bs) mod 256 = unat b"
    and "(unat b + 256 * le_to_nat bs) div 256 = le_to_nat bs"
    using b by simp_all
  with Cons show ?case by auto
qed simp

definition u64_to_le :: "u64 \<Rightarrow> bytes" where
  "u64_to_le w = nat_to_le 8 (unat w)"

definition u64_to_be :: "u64 \<Rightarrow> bytes" where
  "u64_to_be w = rev (u64_to_le w)"

definition u32_to_le :: "u32 \<Rightarrow> bytes" where
  "u32_to_le w = nat_to_le 4 (unat w)"

definition u64_from_le :: "bytes \<Rightarrow> u64" where
  "u64_from_le bs = word_of_nat (le_to_nat bs)"

definition u32_from_le :: "bytes \<Rightarrow> u32" where
  "u32_from_le bs = word_of_nat (le_to_nat bs)"

definition u128_from_le :: "bytes \<Rightarrow> u128" where
  "u128_from_le bs = word_of_nat (le_to_nat bs)"

text \<open>\<open>u64::from_le_bytes(b.try_into().unwrap_or([0; 8]))\<close>: a slice of another length reads as 0.\<close>

definition u64_from_slice :: "bytes \<Rightarrow> u64" where
  "u64_from_slice bs = (if length bs = 8 then u64_from_le bs else 0)"

lemma length_u64_to_le [simp, length_simps]: "length (u64_to_le w) = 8"
  by (simp add: u64_to_le_def)

lemma length_u64_to_be [simp, length_simps]: "length (u64_to_be w) = 8"
  by (simp add: u64_to_be_def)

lemma length_u32_to_le [simp, length_simps]: "length (u32_to_le w) = 4"
  by (simp add: u32_to_le_def)

lemma u64_le_roundtrip [simp]: "u64_from_le (u64_to_le w) = w"
proof -
  have "unat w < 256 ^ 8"
    using unsigned_less [of w] by simp
  then show ?thesis
    by (simp add: u64_from_le_def u64_to_le_def le_to_nat_nat_to_le)
qed

lemma u64_from_slice_to_le [simp]: "u64_from_slice (u64_to_le w) = w"
  by (simp add: u64_from_slice_def)

lemma u64_to_le_inject [simp]: "u64_to_le v = u64_to_le w \<longleftrightarrow> v = w"
  by (metis u64_le_roundtrip)

lemma u64_to_be_inject [simp]: "u64_to_be v = u64_to_be w \<longleftrightarrow> v = w"
  by (simp add: u64_to_be_def)

section \<open>Fallible, state-changing operations\<close>

text \<open>
  A Rust method that mutates its receiver and returns \<open>Result<T, E>\<close> is a function from the
  state to the result and the state afterwards. The state is returned on the error branch
  too: what was written before the error stays written.
\<close>

type_synonym ('s, 'e, 'a) fallible = "'s \<Rightarrow> ('e + 'a) \<times> 's"

definition ok :: "'a \<Rightarrow> ('s, 'e, 'a) fallible" where
  "ok a s = (Inr a, s)"

definition err :: "'e \<Rightarrow> ('s, 'e, 'a) fallible" where
  "err e s = (Inl e, s)"

definition andThen ::
  "('s, 'e, 'a) fallible \<Rightarrow> ('a \<Rightarrow> ('s, 'e, 'b) fallible) \<Rightarrow> ('s, 'e, 'b) fallible" where
  "andThen m f s = (case m s of (Inl e, s') \<Rightarrow> (Inl e, s') | (Inr a, s') \<Rightarrow> f a s')"

text \<open>\<open>for x in xs { body(x)?; }\<close>\<close>

fun forEach :: "('a \<Rightarrow> ('s, 'e, unit) fallible) \<Rightarrow> 'a list \<Rightarrow> ('s, 'e, unit) fallible" where
  "forEach f [] = ok ()"
| "forEach f (x # xs) = andThen (f x) (\<lambda>_. forEach f xs)"

lemma ok_apply [simp]: "ok a s = (Inr a, s)"
  by (simp add: ok_def)

lemma err_apply [simp]: "err e s = (Inl e, s)"
  by (simp add: err_def)

lemma andThen_ok: "m s = (Inr a, s') \<Longrightarrow> andThen m f s = f a s'"
  by (simp add: andThen_def)

lemma andThen_err: "m s = (Inl e, s') \<Longrightarrow> andThen m f s = (Inl e, s')"
  by (simp add: andThen_def)

lemma andThen_Inr: "fst (m s) = Inr a \<Longrightarrow> andThen m f s = f a (snd (m s))"
  by (simp add: andThen_def split_beta)

lemma andThen_Inl: "fst (m s) = Inl e \<Longrightarrow> andThen m f s = (Inl e, snd (m s))"
  by (simp add: andThen_def split_beta)

text \<open>At \<open>bool\<close>, where the simplifier reads the premise above as a plain condition.\<close>

lemma andThen_bool:
  "fst (m s) = Inr True \<Longrightarrow> andThen m f s = f True (snd (m s))"
  "fst (m s) = Inr False \<Longrightarrow> andThen m f s = f False (snd (m s))"
  by (simp_all add: andThen_Inr)

lemma forEach_map: "forEach f (map g xs) = forEach (\<lambda>x. f (g x)) xs"
  by (induction xs) simp_all

lemma andThen_eq_Inr:
  "andThen m f s = (Inr b, s2) \<longleftrightarrow> (\<exists>a s1. m s = (Inr a, s1) \<and> f a s1 = (Inr b, s2))"
  by (auto simp: andThen_def split: prod.splits sum.splits)

lemma andThen_eq_Inl:
  "andThen m f s = (Inl e, s2) \<longleftrightarrow>
     m s = (Inl e, s2) \<or> (\<exists>a s1. m s = (Inr a, s1) \<and> f a s1 = (Inl e, s2))"
  by (auto simp: andThen_def split: prod.splits sum.splits)

text \<open>\<open>r.unwrap_or(d)\<close> on a \<open>Result\<close>.\<close>

definition unwrap_or :: "'e + 'a \<Rightarrow> 'a \<Rightarrow> 'a" where
  "unwrap_or r d = (case r of Inl _ \<Rightarrow> d | Inr a \<Rightarrow> a)"

lemma unwrap_or_simps [simp]: "unwrap_or (Inl e) d = d" "unwrap_or (Inr a) d = a"
  by (simp_all add: unwrap_or_def)

section \<open>Lists and sums of words\<close>

lemma word_of_nat_inject_64:
  "i < 2 ^ 64 \<Longrightarrow> j < 2 ^ 64 \<Longrightarrow> (word_of_nat i :: u64) = word_of_nat j \<longleftrightarrow> i = j"
  by (simp add: word_of_nat_eq_iff take_bit_nat_eq_self)

lemma unat_add_no_wrap:
  fixes a b :: "'a::len word"
  assumes "unat a + unat b < 2 ^ LENGTH('a)"
  shows "unat (a + b) = unat a + unat b"
  using assms by (simp add: unat_word_ariths)

lemma unat_sum_list_no_wrap:
  fixes ws :: "'a::len word list"
  assumes "sum_list (map unat ws) < 2 ^ LENGTH('a)"
  shows "unat (sum_list ws) = sum_list (map unat ws)"
  using assms
proof (induction ws)
  case (Cons w ws)
  then have "unat (sum_list ws) = sum_list (map unat ws)" by simp
  with Cons.prems show ?case
    by (simp add: unat_add_no_wrap)
qed simp

end
