(* ===== verification/Chain_Constants.thy ===== *)
theory Chain_Constants
  imports Rust_Prelude
begin

text \<open>
  The protocol constants of crates/noirnet-types/src/constants.rs, at their source widths.
\<close>

definition DEVNET_CHAIN_ID :: u32 where "DEVNET_CHAIN_ID = 42"
definition MAINNET_CHAIN_ID :: u32 where "MAINNET_CHAIN_ID = 1"
definition MIN_VALIDATOR_STAKE :: u128 where "MIN_VALIDATOR_STAKE = 10000000000000"
definition EPOCH_BLOCKS :: u64 where "EPOCH_BLOCKS = 100"
definition MAX_BLOCK_GAS :: u64 where "MAX_BLOCK_GAS = 100000000"
definition MAX_TX_GAS :: u64 where "MAX_TX_GAS = 10000000"
definition BASE_TX_GAS :: u64 where "BASE_TX_GAS = 10000"
definition MIN_FEE :: u64 where "MIN_FEE = 10000"
definition MAX_MEMPOOL_SIZE :: usize where "MAX_MEMPOOL_SIZE = 10000"
definition HALVING_INTERVAL :: u64 where "HALVING_INTERVAL = 40320000"
definition INITIAL_BLOCK_REWARD :: u128 where "INITIAL_BLOCK_REWARD = 40000000000"
definition TAIL_EMISSION :: u128 where "TAIL_EMISSION = 10000000"
definition MAX_SUPPLY :: u128 where "MAX_SUPPLY = 21000000000000000"
definition FEE_TIERS :: "u64 list" where "FEE_TIERS = [10000, 100000, 1000000]"
definition MAX_P2P_MESSAGE_SIZE :: u64 where "MAX_P2P_MESSAGE_SIZE = 10485760"
definition MAX_CONTRACT_SIZE :: usize where "MAX_CONTRACT_SIZE = 1048576"
definition MAX_MEMO_SIZE :: usize where "MAX_MEMO_SIZE = 512"
definition MAX_SPENDS_PER_TX :: usize where "MAX_SPENDS_PER_TX = 16"
definition MAX_OUTPUTS_PER_TX :: usize where "MAX_OUTPUTS_PER_TX = 16"
definition NOTE_COMMITMENT_TREE_DEPTH :: usize where "NOTE_COMMITMENT_TREE_DEPTH = 32"
definition ANCHOR_EXPIRY_BLOCKS :: u64 where "ANCHOR_EXPIRY_BLOCKS = 100"

text \<open>The gas and fee limits as natural numbers, for the arithmetic of the proofs.\<close>

lemmas gas_constants = MAX_BLOCK_GAS_def MAX_TX_GAS_def BASE_TX_GAS_def MIN_FEE_def

lemma unat_MAX_TX_GAS: "unat MAX_TX_GAS = 10000000"
  by (simp add: MAX_TX_GAS_def)

lemma unat_MAX_BLOCK_GAS: "unat MAX_BLOCK_GAS = 100000000"
  by (simp add: MAX_BLOCK_GAS_def)

end
