(* ===== verification/Chain_Types.thy ===== *)
theory Chain_Types
  imports Chain_Constants
begin

text \<open>
  The data of crates/noirnet-types: notes, transactions, blocks, sync messages, votes and
  validators. A struct is a record with the source's fields (prefixed, since Isabelle's
  field names are global), an enum a datatype with the source's constructors. Byte arrays
  \<open>[u8; N]\<close> and \<open>Vec<u8>\<close> are byte lists; where a length matters the well-formedness
  predicate at the end states it. A \<open>Hash32\<close> is its 32 bytes, compared bytewise.
\<close>

section \<open>Hashes\<close>

type_synonym hash32 = bytes
type_synonym tx_id = hash32
type_synonym block_hash = hash32

definition Hash32_ZERO :: hash32 where
  "Hash32_ZERO = replicate 32 0"

section \<open>Notes\<close>

record shielded_note =
  note_value :: u64
  note_rcm :: bytes
  note_rho :: bytes
  note_pk_d :: bytes
  note_diversifier :: bytes

record output_description =
  od_note_commitment :: hash32
  od_ephemeral_key :: bytes
  od_enc_ciphertext :: bytes
  od_out_ciphertext :: bytes
  od_cv :: bytes

record spend_description =
  sd_anchor :: hash32
  sd_nullifier :: hash32
  sd_rk :: bytes
  sd_cv :: bytes
  sd_spend_auth_sig :: bytes

datatype encrypted_memo = EncryptedMemo bytes

text \<open>\<open>EncryptedMemo::new\<close>\<close>

definition encrypted_memo_new :: "bytes \<Rightarrow> encrypted_memo option" where
  "encrypted_memo_new data =
     (if length data > MAX_MEMO_SIZE then None else Some (EncryptedMemo data))"

section \<open>Transactions\<close>

text \<open>A method name is a Rust \<open>String\<close>; the code only takes its UTF-8 bytes.\<close>

record contract_call =
  cc_contract_id :: hash32
  cc_method :: bytes
  cc_args :: bytes
  cc_gas_limit :: u64
  cc_caller_commitment :: bytes

record transaction =
  tx_version :: u8
  tx_chain_id :: u32
  tx_spends :: "spend_description list"
  tx_outputs :: "output_description list"
  tx_fee :: u64
  tx_gas_limit :: u64
  tx_memo :: "encrypted_memo option"
  tx_contract_call :: "contract_call option"
  tx_deploy_contract :: "bytes option"
  tx_binding_sig :: bytes
  tx_timestamp :: u64
  tx_aggregate_spend_proof :: bytes

record pruned_tx_index =
  pti_tx_hash :: bytes
  pti_block_height :: u64
  pti_num_spends :: u32
  pti_num_outputs :: u32
  pti_commitments_blake3 :: bytes

datatype tx_format_error =
    UnsupportedVersion u8
  | NoInputs
  | NoOutputs
  | FeeTooLow
  | GasLimitTooHigh
  | TooLarge
  | ContractTooLarge
  | InvalidNullifier
  | DuplicateNullifier
  | InvalidTimestamp
  | TooManySpends
  | TooManyOutputs
  | InvalidFeeTier

section \<open>Blocks and synchronisation messages\<close>

record block_header =
  bh_height :: u64
  bh_parent_hash :: hash32
  bh_state_root :: hash32
  bh_tx_root :: hash32
  bh_nullifier_root :: hash32
  bh_timestamp :: u64
  bh_epoch :: u64
  bh_vrf_output :: bytes
  bh_proposer :: bytes
  bh_chain_id :: u32
  bh_gas_used :: u64
  bh_gas_limit :: u64

record block =
  blk_header :: block_header
  blk_transactions :: "transaction list"
  blk_aggregate_proof :: bytes
  blk_bls_aggregate_sig :: bytes
  blk_validator_bitfield :: u64

record compact_output =
  co_ephemeral_key :: bytes
  co_enc_ciphertext_prefix :: bytes
  co_note_commitment :: hash32
  co_leaf_index :: u64

record compact_block =
  cb_height :: u64
  cb_hash :: hash32
  cb_compact_outputs :: "compact_output list"
  cb_nullifiers :: "hash32 list"

record sync_request =
  sreq_start_height :: u64
  sreq_limit :: u32

record sync_response =
  sres_blocks :: "block list"

section \<open>Votes and validators\<close>

datatype vote_type = Prevote | Precommit

record vote =
  vote_height :: u64
  vote_round :: u32
  vote_block_hash :: hash32
  vote_kind :: vote_type
  vote_validator_id :: bytes
  vote_signature :: bytes

datatype validator_status = Active | Waiting | Jailed u64 | Tombstoned

type_synonym validator_id = bytes

record validator_registration =
  vr_bls_pubkey :: bytes
  vr_network_pubkey :: bytes
  vr_stake :: u128
  vr_commission_bps :: u16
  vr_epoch :: u64
  vr_signature :: bytes

text \<open>\<open>ValidatorRegistration::validator_id\<close>\<close>

definition vr_validator_id :: "validator_registration \<Rightarrow> validator_id" where
  "vr_validator_id r = vr_bls_pubkey r"

record validator_state =
  vs_registration :: validator_registration
  vs_status :: validator_status
  vs_own_stake :: u128
  vs_delegated_stake :: u128
  vs_consecutive_misses :: u32
  vs_last_signed_height :: u64
  vs_pending_rewards :: u128
  vs_total_slashed :: u128

definition vs_total_stake :: "validator_state \<Rightarrow> u128" where
  "vs_total_stake v = vs_own_stake v + vs_delegated_stake v"

definition vs_is_active :: "validator_state \<Rightarrow> bool" where
  "vs_is_active v \<longleftrightarrow> vs_status v = Active"

record double_sign_evidence =
  dse_validator_id :: validator_id
  dse_height :: u64
  dse_block_hash_1 :: hash32
  dse_block_hash_2 :: hash32
  dse_sig_1 :: bytes
  dse_sig_2 :: bytes

record delegation =
  dlg_delegator :: bytes
  dlg_validator_id :: validator_id
  dlg_amount :: u128
  dlg_epoch_start :: u64
  dlg_unbonding_epoch :: "u64 option"

record slash_params =
  sp_double_sign_bps :: u64
  sp_downtime_bps :: u64
  sp_invalid_proof_bps :: u64

text \<open>\<open>SlashParams::default\<close>\<close>

definition slash_params_default :: slash_params where
  "slash_params_default =
     \<lparr>sp_double_sign_bps = 500, sp_downtime_bps = 50, sp_invalid_proof_bps = 200\<rparr>"

record stake_entry =
  se_bls_pubkey :: bytes
  se_network_pubkey :: bytes
  se_total_stake :: u128
  se_status :: validator_status
  se_epoch_joined :: u64

section \<open>Array lengths\<close>

text \<open>
  The lengths the source's array types fix, where a proof relies on them: nullifiers,
  commitments and value commitments are 32 bytes.
\<close>

definition wf_tx :: "transaction \<Rightarrow> bool" where
  "wf_tx tx \<longleftrightarrow>
     (\<forall>s \<in> set (tx_spends tx). length (sd_nullifier s) = 32 \<and> length (sd_cv s) = 32) \<and>
     (\<forall>d \<in> set (tx_outputs tx). length (od_note_commitment d) = 32 \<and> length (od_cv d) = 32)"

text \<open>The nullifiers a transaction, and a block, spend: in the order the code visits them.\<close>

definition tx_nullifiers :: "transaction \<Rightarrow> hash32 list" where
  "tx_nullifiers tx = map sd_nullifier (tx_spends tx)"

definition tx_commitments :: "transaction \<Rightarrow> hash32 list" where
  "tx_commitments tx = map od_note_commitment (tx_outputs tx)"

definition block_nullifiers :: "block \<Rightarrow> hash32 list" where
  "block_nullifiers b = concat (map tx_nullifiers (blk_transactions b))"

definition block_commitments :: "block \<Rightarrow> hash32 list" where
  "block_commitments b = concat (map tx_commitments (blk_transactions b))"

end
