(* ===== verification/Externals.thy ===== *)
theory Externals
  imports Chain_Types "HOL-Library.AList"
begin

text \<open>
  The code the repository calls and does not contain, as parameters of the model: the BLAKE3
  hash, bincode's encoders and decoders for the repository's types, and the sled database.
  Nothing is fixed about them here. What a property relies on is a hypothesis of its own
  statement, or the locale \<open>sled_db\<close> below, which states sled's documented behaviour when
  no operation fails.
\<close>

section \<open>Hashing and serialisation\<close>

text \<open>
  \<open>blake3 X\<close> is \<open>blake3::hash\<close>; a \<open>Hasher\<close> fed by several \<open>update\<close> calls hashes their
  concatenation. \<open>bincode_t X\<close> is \<open>bincode::serialize\<close> at the type t (total: encoding these
  owned values into a \<open>Vec\<close> has no failing case), \<open>bincode_t_de X\<close> is
  \<open>bincode::deserialize\<close>, \<open>None\<close> being its error.
\<close>

record ext =
  blake3 :: "bytes \<Rightarrow> bytes"
  bincode_tx :: "transaction \<Rightarrow> bytes"
  bincode_tx_de :: "bytes \<Rightarrow> transaction option"
  bincode_tx_size :: "transaction \<Rightarrow> u64 option"
  bincode_header :: "block_header \<Rightarrow> bytes"
  bincode_block :: "block \<Rightarrow> bytes"
  bincode_block_de :: "bytes \<Rightarrow> block option"
  bincode_frontier :: "bytes option list \<Rightarrow> bytes"
  bincode_frontier_de :: "bytes \<Rightarrow> bytes option list option"
  bincode_validator_de :: "bytes \<Rightarrow> validator_state option"
  bincode_vote :: "vote \<Rightarrow> bytes"
  bincode_vote_de :: "bytes \<Rightarrow> vote option"

section \<open>The sled database\<close>

text \<open>
  A database value is the logical content of all trees. Reads do not change it; \<open>insert\<close> and
  \<open>remove\<close> return the new content next to their result, so a failed write may leave any
  content behind. \<open>sled_scan_prefix\<close> yields one result per entry, as the iterator does.
\<close>

type_synonym sled_error = string

record 'db sled =
  sled_open :: "'db \<Rightarrow> string \<Rightarrow> sled_error + unit"
  sled_get :: "'db \<Rightarrow> string \<Rightarrow> bytes \<Rightarrow> sled_error + bytes option"
  sled_insert :: "'db \<Rightarrow> string \<Rightarrow> bytes \<Rightarrow> bytes \<Rightarrow> (sled_error + unit) \<times> 'db"
  sled_remove :: "'db \<Rightarrow> string \<Rightarrow> bytes \<Rightarrow> (sled_error + bytes option) \<times> 'db"
  sled_scan_prefix :: "'db \<Rightarrow> string \<Rightarrow> bytes \<Rightarrow> (sled_error + bytes \<times> bytes) list"

text \<open>What a reader sees under a key of a tree.\<close>

definition db_view :: "'db sled \<Rightarrow> 'db \<Rightarrow> string \<Rightarrow> bytes \<rightharpoonup> bytes" where
  "db_view S db t k = (case sled_get S db t k of Inl _ \<Rightarrow> None | Inr v \<Rightarrow> v)"

definition has_prefix :: "bytes \<Rightarrow> bytes \<Rightarrow> bool" where
  "has_prefix p k \<longleftrightarrow> take (length p) k = p"

text \<open>Sled as documented, while no operation returns an I/O error.\<close>

locale sled_db =
  fixes S :: "'db sled"
  assumes open_ok: "sled_open S db t = Inr ()"
    and get_ok: "sled_get S db t k = Inr (db_view S db t k)"
    and insert_ok: "fst (sled_insert S db t k v) = Inr ()"
    and insert_view: "db_view S (snd (sled_insert S db t k v)) =
          (db_view S db)(t := (db_view S db t)(k \<mapsto> v))"
    and remove_ok: "fst (sled_remove S db t k) = Inr (db_view S db t k)"
    and remove_view: "db_view S (snd (sled_remove S db t k)) =
          (db_view S db)(t := (db_view S db t)(k := None))"
    and scan_ok: "\<exists>kvs. sled_scan_prefix S db t p = map Inr kvs \<and> distinct (map fst kvs) \<and>
          map_of kvs = (\<lambda>k. if has_prefix p k then db_view S db t k else None)"

section \<open>Hash maps as association lists\<close>

text \<open>Inserting a new key appends it, and removing a key keeps the other entries.\<close>

lemma update_new: "k \<notin> fst ` set kvs \<Longrightarrow> AList.update k v kvs = kvs @ [(k, v)]"
  by (induction kvs) auto

lemma mem_delete: "(k, v) \<in> set (AList.delete k' kvs) \<longleftrightarrow> (k, v) \<in> set kvs \<and> k \<noteq> k'"
  by (auto simp: AList.delete_eq)

section \<open>An in-memory store with sled's interface\<close>

text \<open>
  An association list per tree: the ordered map sled documents itself to be, held in memory.
  It shows that the laws of \<open>sled_db\<close> can hold together, and it is the store the witnesses
  run on.
\<close>

type_synonym mem_db = "string \<Rightarrow> (bytes \<times> bytes) list"

definition mem_empty :: mem_db where
  "mem_empty = (\<lambda>_. [])"

definition mem_sled :: "mem_db sled" where
  "mem_sled = \<lparr>
     sled_open = (\<lambda>db t. Inr ()),
     sled_get = (\<lambda>db t k. Inr (map_of (db t) k)),
     sled_insert = (\<lambda>db t k v. (Inr (), db(t := AList.update k v (db t)))),
     sled_remove = (\<lambda>db t k. (Inr (map_of (db t) k), db(t := AList.delete k (db t)))),
     sled_scan_prefix = (\<lambda>db t p. map Inr (filter (\<lambda>(k, v). has_prefix p k) (AList.clearjunk (db t))))\<rparr>"

lemma map_of_filter_key:
  "map_of (filter (\<lambda>(k, v). P k) kvs) = (\<lambda>k. if P k then map_of kvs k else None)"
  by (induction kvs) (auto simp: fun_eq_iff)

lemma db_view_mem [simp]: "db_view mem_sled db t = map_of (db t)"
  by (simp add: db_view_def mem_sled_def fun_eq_iff)

lemma mem_sled_simps [simp]:
  "sled_open mem_sled db t = Inr ()"
  "sled_get mem_sled db t k = Inr (map_of (db t) k)"
  "sled_insert mem_sled db t k v = (Inr (), db(t := AList.update k v (db t)))"
  "sled_remove mem_sled db t k = (Inr (map_of (db t) k), db(t := AList.delete k (db t)))"
  "sled_scan_prefix mem_sled db t p =
     map Inr (filter (\<lambda>(k, v). has_prefix p k) (AList.clearjunk (db t)))"
  by (simp_all add: mem_sled_def)

interpretation mem: sled_db mem_sled
proof (unfold_locales, goal_cases)
  case (7 db t p)
  show ?case
    by (rule exI [where x = "filter (\<lambda>(k, v). has_prefix p k) (AList.clearjunk (db t))"])
       (auto simp: map_of_filter_key map_of_clearjunk distinct_map_filter
          distinct_clearjunk intro!: ext)
qed (auto simp: fun_eq_iff update_conv' delete_conv')

end
