(* ===== verification/Tx_Format.thy ===== *)
theory Tx_Format
  imports Externals
begin

text \<open>
  The operations of crates/noirnet-types/src/transaction.rs and block.rs: transaction
  identifiers, the format check every entry point runs, the bytes that are signed, the
  pruned index, block hashes, the transaction root and the block reward.
\<close>

section \<open>Transactions\<close>

text \<open>\<open>Transaction::now_obfuscated\<close>, the clock reading being the argument.\<close>

definition now_obfuscated :: "u64 \<Rightarrow> u64" where
  "now_obfuscated now = (now div 900) * 900"

definition tx_id_of :: "ext \<Rightarrow> transaction \<Rightarrow> tx_id" where
  "tx_id_of X tx = blake3 X (bincode_tx X tx)"

text \<open>\<open>Transaction::validate_format\<close>: the checks in the source's order, the first that fails decides.\<close>

definition validate_format :: "ext \<Rightarrow> transaction \<Rightarrow> tx_format_error + unit" where
  "validate_format X tx =
     (if tx_version tx \<noteq> 1 then Inl (UnsupportedVersion (tx_version tx))
      else if tx_spends tx = [] \<and> tx_contract_call tx = None \<and> tx_deploy_contract tx = None
        then Inl NoInputs
      else if tx_outputs tx = [] \<and> tx_contract_call tx = None \<and> tx_deploy_contract tx = None
        then Inl NoOutputs
      else if length (tx_spends tx) > MAX_SPENDS_PER_TX then Inl TooManySpends
      else if length (tx_outputs tx) > MAX_OUTPUTS_PER_TX then Inl TooManyOutputs
      else if tx_fee tx \<notin> set FEE_TIERS then Inl InvalidFeeTier
      else if tx_gas_limit tx > MAX_TX_GAS then Inl GasLimitTooHigh
      else if tx_timestamp tx mod 900 \<noteq> 0 then Inl InvalidTimestamp
      else if (case tx_deploy_contract tx of None \<Rightarrow> False
               | Some code \<Rightarrow> length code > MAX_CONTRACT_SIZE) then Inl ContractTooLarge
      else if (case bincode_tx_size X tx of None \<Rightarrow> U64_MAX | Some n \<Rightarrow> n) > MAX_P2P_MESSAGE_SIZE
        then Inl TooLarge
      else Inr ())"

text \<open>\<open>Transaction::signing_bytes\<close>\<close>

definition spend_signing_bytes :: "spend_description \<Rightarrow> bytes" where
  "spend_signing_bytes s = sd_nullifier s @ sd_cv s"

definition output_signing_bytes :: "output_description \<Rightarrow> bytes" where
  "output_signing_bytes d = od_note_commitment d @ od_cv d"

definition signing_bytes :: "transaction \<Rightarrow> bytes" where
  "signing_bytes tx =
     [tx_version tx] @ u32_to_le (tx_chain_id tx) @ u64_to_le (tx_fee tx) @ u64_to_le (tx_timestamp tx) @
     concat (map spend_signing_bytes (tx_spends tx)) @
     concat (map output_signing_bytes (tx_outputs tx)) @
     (case tx_contract_call tx of None \<Rightarrow> []
      | Some call \<Rightarrow> cc_contract_id call @ cc_method call @ cc_args call) @
     (case tx_deploy_contract tx of None \<Rightarrow> [] | Some code \<Rightarrow> code)"

text \<open>\<open>Transaction::to_pruned_index\<close>\<close>

definition to_pruned_index :: "ext \<Rightarrow> transaction \<Rightarrow> u64 \<Rightarrow> pruned_tx_index" where
  "to_pruned_index X tx block_height =
     \<lparr>pti_tx_hash = tx_id_of X tx,
      pti_block_height = block_height,
      pti_num_spends = word_of_nat (length (tx_spends tx)),
      pti_num_outputs = word_of_nat (length (tx_outputs tx)),
      pti_commitments_blake3 =
        blake3 X (ascii ''NoirNet_PrunedTx_v2'' @ concat (tx_commitments tx))\<rparr>"

text \<open>\<open>Transaction::tx_id_from_raw\<close>\<close>

definition tx_id_from_raw :: "ext \<Rightarrow> bytes \<Rightarrow> hash32" where
  "tx_id_from_raw X data =
     (if length data > unat MAX_P2P_MESSAGE_SIZE then Hash32_ZERO else blake3 X data)"

section \<open>Blocks\<close>

definition header_hash :: "ext \<Rightarrow> block_header \<Rightarrow> hash32" where
  "header_hash X h = blake3 X (bincode_header X h)"

definition block_hash_of :: "ext \<Rightarrow> block \<Rightarrow> block_hash" where
  "block_hash_of X b = header_hash X (blk_header b)"

definition compute_tx_root :: "ext \<Rightarrow> transaction list \<Rightarrow> hash32" where
  "compute_tx_root X txs =
     (if txs = [] then Hash32_ZERO else blake3 X (concat (map (tx_id_of X) txs)))"

definition compute_block_reward :: "u64 \<Rightarrow> u128" where
  "compute_block_reward height =
     (if height = 0 then 0
      else let halvings = height div HALVING_INTERVAL
           in if halvings \<ge> 64 then TAIL_EMISSION
              else max (drop_bit (unat halvings) INITIAL_BLOCK_REWARD) TAIL_EMISSION)"

section \<open>The format check\<close>

text \<open>What a transaction that passes the format check satisfies, as one predicate.\<close>

definition well_formatted :: "ext \<Rightarrow> transaction \<Rightarrow> bool" where
  "well_formatted X tx \<longleftrightarrow>
     tx_version tx = 1 \<and>
     (tx_contract_call tx = None \<and> tx_deploy_contract tx = None \<longrightarrow>
        tx_spends tx \<noteq> [] \<and> tx_outputs tx \<noteq> []) \<and>
     length (tx_spends tx) \<le> 16 \<and> length (tx_outputs tx) \<le> 16 \<and>
     tx_fee tx \<in> {10000, 100000, 1000000} \<and>
     unat (tx_gas_limit tx) \<le> 10000000 \<and>
     unat (tx_timestamp tx) mod 900 = 0 \<and>
     (\<forall>code. tx_deploy_contract tx = Some code \<longrightarrow> length code \<le> 1048576) \<and>
     (\<exists>n. bincode_tx_size X tx = Some n \<and> unat n \<le> 10485760)"

lemma word_mod_900: "(w :: u64) mod 900 = 0 \<longleftrightarrow> unat w mod 900 = 0"
  by (simp add: word_arith_nat_mod unat_eq_0 [symmetric] unat_of_nat)

lemma size_check_iff:
  "\<not> (case s of None \<Rightarrow> U64_MAX | Some n \<Rightarrow> n) > MAX_P2P_MESSAGE_SIZE \<longleftrightarrow>
     (\<exists>n. s = Some n \<and> unat n \<le> 10485760)"
  by (cases s) (simp_all add: MAX_P2P_MESSAGE_SIZE_def word_less_nat_alt not_less)

lemma validate_format_Inr:
  "validate_format X tx = Inr u \<longleftrightarrow> well_formatted X tx"
  unfolding validate_format_def well_formatted_def size_check_iff [symmetric]
  by (auto simp: FEE_TIERS_def MAX_SPENDS_PER_TX_def MAX_OUTPUTS_PER_TX_def MAX_TX_GAS_def
      MAX_CONTRACT_SIZE_def word_mod_900 word_less_nat_alt not_less split: option.splits)

text \<open>
  The format check accepts exactly the transactions with version 1, at least one spend and
  one output unless a contract is called or deployed, at most 16 of each, a fee from the three
  tiers, a gas limit up to 10,000,000, a timestamp on a 15-minute boundary, bytecode up to
  1 MiB and a bincode size up to 10 MiB.
\<close>

theorem validate_format_accepts_iff:
  "validate_format X tx = Inr () \<longleftrightarrow> well_formatted X tx"
  by (rule validate_format_Inr)

lemma validate_format_gas: "validate_format X tx = Inr u \<Longrightarrow> unat (tx_gas_limit tx) \<le> 10000000"
  by (simp add: validate_format_Inr well_formatted_def)

lemma validate_format_fee: "validate_format X tx = Inr u \<Longrightarrow> \<not> tx_fee tx < MIN_FEE"
  by (auto simp: validate_format_Inr well_formatted_def MIN_FEE_def)

lemma unat_now_obfuscated: "unat (now_obfuscated now) = unat now div 900 * 900"
proof -
  have "unat now div 900 * 900 \<le> unat now" by simp
  also have "unat now < 2 ^ 64" using unsigned_less [of now] by simp
  finally show ?thesis
    by (simp add: now_obfuscated_def unat_word_ariths unat_div)
qed

text \<open>
  An obfuscated clock reading passes the 15-minute check of the format validation and lies
  less than 15 minutes before the reading.
\<close>

theorem now_obfuscated_rounds_down:
  "now_obfuscated now mod 900 = 0 \<and>
   unat (now_obfuscated now) \<le> unat now \<and> unat now < unat (now_obfuscated now) + 900"
proof -
  have "unat now mod 900 < 900" by simp
  then show ?thesis
    using div_mult_mod_eq [of "unat now" 900]
    by (simp add: word_mod_900 unat_now_obfuscated)
qed

section \<open>What a signature covers\<close>

lemma concat_map_chunks_inject:
  assumes "concat (map f xs) = concat (map f ys)" "length xs = length ys"
    and "\<forall>x \<in> set xs. length (f x) = n" "\<forall>y \<in> set ys. length (f y) = n"
  shows "map f xs = map f ys"
  using assms(2,1,3,4) by (induction xs ys rule: list_induct2) auto

lemma map_eq_transfer:
  assumes "map f xs = map f ys"
    and "\<And>x y. x \<in> set xs \<Longrightarrow> y \<in> set ys \<Longrightarrow> f x = f y \<Longrightarrow> g x = g y"
  shows "map g xs = map g ys"
proof (rule nth_equalityI)
  show len: "length (map g xs) = length (map g ys)"
    using map_eq_imp_length_eq [OF assms(1)] by simp
  fix i
  assume i: "i < length (map g xs)"
  then have "f (xs ! i) = f (ys ! i)"
    using arg_cong [OF assms(1), where f = "\<lambda>zs. zs ! i"] len by simp
  with i len show "map g xs ! i = map g ys ! i"
    using assms(2) by simp
qed

lemma length_concat_chunks:
  "\<forall>x \<in> set xs. length (f x) = n \<Longrightarrow> length (concat (map f xs)) = length xs * n"
  by (induction xs) auto

lemma u32_to_le_inject [simp]: "u32_to_le v = u32_to_le w \<longleftrightarrow> v = w"
proof
  assume "u32_to_le v = u32_to_le w"
  then have "unat v mod 256 ^ 4 = unat w mod 256 ^ 4"
    by (metis le_to_nat_nat_to_le u32_to_le_def)
  then show "v = w"
    using unsigned_less [of v, where ?'a = nat] unsigned_less [of w, where ?'a = nat]
    by (simp add: word_unat_eq_iff)
qed simp

lemma spend_chunk_inject:
  "length (sd_nullifier s) = 32 \<Longrightarrow> length (sd_nullifier s') = 32 \<Longrightarrow>
   spend_signing_bytes s = spend_signing_bytes s' \<longleftrightarrow> sd_nullifier s = sd_nullifier s' \<and> sd_cv s = sd_cv s'"
  by (simp add: spend_signing_bytes_def)

lemma output_chunk_inject:
  "length (od_note_commitment s) = 32 \<Longrightarrow> length (od_note_commitment s') = 32 \<Longrightarrow>
   output_signing_bytes s = output_signing_bytes s' \<longleftrightarrow>
     od_note_commitment s = od_note_commitment s' \<and> od_cv s = od_cv s'"
  by (simp add: output_signing_bytes_def)

text \<open>
  For two transfers (no contract part) with as many spends and as many outputs, equal signed
  bytes mean equal version, chain, fee, timestamp, nullifiers, commitments and value
  commitments: a signature fixes all of these.
\<close>

theorem signing_bytes_binds_transfers:
  assumes same: "signing_bytes tx = signing_bytes tx'"
    and wf: "wf_tx tx" "wf_tx tx'"
    and counts: "length (tx_spends tx) = length (tx_spends tx')"
      "length (tx_outputs tx) = length (tx_outputs tx')"
    and plain: "tx_contract_call tx = None" "tx_deploy_contract tx = None"
      "tx_contract_call tx' = None" "tx_deploy_contract tx' = None"
  shows "tx_version tx = tx_version tx' \<and> tx_chain_id tx = tx_chain_id tx' \<and>
    tx_fee tx = tx_fee tx' \<and> tx_timestamp tx = tx_timestamp tx' \<and>
    tx_nullifiers tx = tx_nullifiers tx' \<and> map sd_cv (tx_spends tx) = map sd_cv (tx_spends tx') \<and>
    tx_commitments tx = tx_commitments tx' \<and> map od_cv (tx_outputs tx) = map od_cv (tx_outputs tx')"
proof -
  have sp: "\<forall>s \<in> set (tx_spends t). length (spend_signing_bytes s) = 64" if "wf_tx t" for t
    using that by (auto simp: wf_tx_def spend_signing_bytes_def)
  have out: "\<forall>d \<in> set (tx_outputs t). length (output_signing_bytes d) = 64" if "wf_tx t" for t
    using that by (auto simp: wf_tx_def output_signing_bytes_def)
  have lens: "length (concat (map spend_signing_bytes (tx_spends tx))) =
      length (concat (map spend_signing_bytes (tx_spends tx')))"
    using counts sp wf by (simp add: length_concat_chunks [where n = 64])
  from same have fixed: "tx_version tx = tx_version tx'" "tx_chain_id tx = tx_chain_id tx'"
      "tx_fee tx = tx_fee tx'" "tx_timestamp tx = tx_timestamp tx'"
    and spends: "concat (map spend_signing_bytes (tx_spends tx)) =
      concat (map spend_signing_bytes (tx_spends tx'))"
    and outputs: "concat (map output_signing_bytes (tx_outputs tx)) =
      concat (map output_signing_bytes (tx_outputs tx'))"
    using lens plain by (simp_all add: signing_bytes_def)
  note maps = concat_map_chunks_inject [OF spends counts(1) sp [OF wf(1)] sp [OF wf(2)]]
    concat_map_chunks_inject [OF outputs counts(2) out [OF wf(1)] out [OF wf(2)]]
  have "map sd_nullifier (tx_spends tx) = map sd_nullifier (tx_spends tx')"
    and "map sd_cv (tx_spends tx) = map sd_cv (tx_spends tx')"
    by (rule map_eq_transfer [OF maps(1)]; insert wf; simp add: wf_tx_def spend_chunk_inject)+
  moreover have "map od_note_commitment (tx_outputs tx) = map od_note_commitment (tx_outputs tx')"
    and "map od_cv (tx_outputs tx) = map od_cv (tx_outputs tx')"
    by (rule map_eq_transfer [OF maps(2)]; insert wf; simp add: wf_tx_def output_chunk_inject)+
  ultimately show ?thesis
    using fixed by (simp add: tx_nullifiers_def tx_commitments_def)
qed

text \<open>
  The signed bytes do not say where the spends end. Turning the last spend into a first
  output with the nullifier as its commitment, with any ciphertexts, leaves them unchanged, and
  so does any change of gas limit, memo or proof.
\<close>

theorem signing_bytes_boundary_free:
  "signing_bytes (tx\<lparr>tx_spends := ss @ [s], tx_outputs := outs\<rparr>) =
     signing_bytes (tx\<lparr>tx_spends := ss,
       tx_outputs := \<lparr>od_note_commitment = sd_nullifier s, od_ephemeral_key = ek,
         od_enc_ciphertext = ec, od_out_ciphertext = oc, od_cv = sd_cv s\<rparr> # outs,
       tx_gas_limit := g, tx_memo := m, tx_aggregate_spend_proof := p\<rparr>)"
  by (simp add: signing_bytes_def spend_signing_bytes_def output_signing_bytes_def)

section \<open>The block reward\<close>

lemma unat_max_word: "unat (max a b) = max (unat a) (unat b)" for a b :: "'a::len word"
  by (simp add: max_def word_le_nat_alt)

text \<open>
  The reward at height h > 0 is 40 NOIR halved once per 40,320,000 blocks, never below the
  tail emission.
\<close>

theorem compute_block_reward_schedule:
  assumes "height \<noteq> 0"
  shows "unat (compute_block_reward height) =
    max (40000000000 div 2 ^ (unat height div 40320000)) 10000000"
proof -
  define k where "k = unat height div 40320000"
  have k: "unat (height div HALVING_INTERVAL) = k"
    by (simp add: k_def HALVING_INTERVAL_def unat_div)
  have shifted: "unat (drop_bit k INITIAL_BLOCK_REWARD) = 40000000000 div 2 ^ k"
  proof -
    have "unat (drop_bit k INITIAL_BLOCK_REWARD) = drop_bit k (unat INITIAL_BLOCK_REWARD)"
      by (rule unat_drop_bit_eq)
    then show ?thesis
      by (simp only: drop_bit_eq_div INITIAL_BLOCK_REWARD_def) simp
  qed
  have tail: "unat TAIL_EMISSION = 10000000"
    by (simp add: TAIL_EMISSION_def)
  show ?thesis
  proof (cases "k < 64")
    case True
    then have "\<not> height div HALVING_INTERVAL \<ge> 64"
      using k by (simp add: word_le_nat_alt)
    with assms show ?thesis
      by (simp only: compute_block_reward_def Let_def if_False unat_max_word k shifted tail
          k_def [symmetric])
  next
    case False
    then have "(2::nat) ^ 64 \<le> 2 ^ k"
      by (intro power_increasing) auto
    then have "(40000000000::nat) div 2 ^ k = 0"
      by (simp add: div_eq_0_iff)
    moreover have "height div HALVING_INTERVAL \<ge> 64"
      using False k by (simp add: word_le_nat_alt)
    ultimately show ?thesis
      using assms tail by (simp add: compute_block_reward_def Let_def k_def)
  qed
qed

theorem compute_block_reward_schedule_witness:
  "unat (compute_block_reward 40320000) = 20000000000"
  using compute_block_reward_schedule [of 40320000] by simp

text \<open>The reward never grows with the height.\<close>

lemma compute_block_reward_antitone:
  assumes "0 < h" "h \<le> h'"
  shows "compute_block_reward h' \<le> compute_block_reward h"
proof -
  have "(2::nat) ^ (unat h div 40320000) \<le> 2 ^ (unat h' div 40320000)"
    using assms by (intro power_increasing div_le_mono) (simp_all add: word_le_nat_alt)
  then have "(40000000000::nat) div 2 ^ (unat h' div 40320000) \<le> 40000000000 div 2 ^ (unat h div 40320000)"
    by (rule div_le_mono2 [rotated]) simp
  moreover have "h \<noteq> 0" "h' \<noteq> 0"
    using assms by (auto simp: word_le_nat_alt word_less_nat_alt)
  ultimately show ?thesis
    by (simp add: word_le_nat_alt compute_block_reward_schedule)
qed

lemma reward_first_era:
  assumes "0 < h" "h < 40320000"
  shows "unat (compute_block_reward (word_of_nat h)) = 40000000000"
proof -
  have "unat (word_of_nat h :: u64) = h"
    using assms by (simp add: unat_of_nat)
  moreover from this have "(word_of_nat h :: u64) \<noteq> 0"
    using assms(1) by (metis unat_0 less_irrefl)
  ultimately show ?thesis
    using assms by (simp add: compute_block_reward_schedule)
qed

lemma reward_sum_first_era:
  "n < 40320000 \<Longrightarrow> (\<Sum>h = 1..n. unat (compute_block_reward (word_of_nat h))) = n * 40000000000"
  by (simp add: reward_first_era)

text \<open>
  The rewards of the first 525,000 blocks add up to exactly MAX_SUPPLY, and block 525,001,
  far inside the first reward era, takes the emission above it: the schedule does not respect
  the supply cap the constants document.
\<close>

theorem reward_schedule_passes_max_supply:
  "(\<Sum>h = 1..525000. unat (compute_block_reward (word_of_nat h))) = unat MAX_SUPPLY \<and>
   (\<Sum>h = 1..525001. unat (compute_block_reward (word_of_nat h))) > unat MAX_SUPPLY \<and>
   525001 < unat HALVING_INTERVAL"
  by (simp only: reward_sum_first_era) (simp add: MAX_SUPPLY_def HALVING_INTERVAL_def)

section \<open>Sample data\<close>

text \<open>
  The transaction the unit tests of transaction.rs start from (fixture \<open>make_valid_tx\<close>), and an
  interpretation of the external functions that is constant except for a length-preserving
  tagging hash. The witnesses of several theories use them.
\<close>

definition sample_spend :: "u8 \<Rightarrow> spend_description" where
  "sample_spend n = \<lparr>sd_anchor = Hash32_ZERO, sd_nullifier = replicate 32 n, sd_rk = replicate 32 0,
     sd_cv = replicate 32 0, sd_spend_auth_sig = replicate 64 0\<rparr>"

definition sample_output :: "u8 \<Rightarrow> output_description" where
  "sample_output n = \<lparr>od_note_commitment = replicate 32 n, od_ephemeral_key = replicate 32 0,
     od_enc_ciphertext = replicate 580 0, od_out_ciphertext = replicate 80 0, od_cv = replicate 32 0\<rparr>"

definition sample_tx :: "u8 \<Rightarrow> transaction" where
  "sample_tx n = \<lparr>tx_version = 1, tx_chain_id = 1, tx_spends = [sample_spend n],
     tx_outputs = [sample_output (n + 1)], tx_fee = 10000, tx_gas_limit = 21000, tx_memo = None,
     tx_contract_call = None, tx_deploy_contract = None, tx_binding_sig = replicate 64 0,
     tx_timestamp = 1700000100, tx_aggregate_spend_proof = []\<rparr>"

text \<open>A stand-in hash: the first 32 bytes of its input, padded with zeros.\<close>

definition sample_hash :: "bytes \<Rightarrow> bytes" where
  "sample_hash bs = take 32 (bs @ replicate 32 0)"

definition sample_ext :: ext where
  "sample_ext = \<lparr>blake3 = sample_hash,
     bincode_tx = (\<lambda>tx. concat (tx_nullifiers tx)), bincode_tx_de = (\<lambda>_. None), bincode_tx_size = (\<lambda>_. Some 1000),
     bincode_header = (\<lambda>h. u64_to_le (bh_height h)), bincode_block = (\<lambda>b. u64_to_le (bh_height (blk_header b))),
     bincode_block_de = (\<lambda>_. None),
     bincode_frontier = (\<lambda>_. []), bincode_frontier_de = (\<lambda>_. None), bincode_validator_de = (\<lambda>_. None),
     bincode_vote = (\<lambda>_. []), bincode_vote_de = (\<lambda>_. None)\<rparr>"

lemma length_sample_hash [simp]: "length (sample_hash bs) = 32"
  by (simp add: sample_hash_def)

lemma wf_sample_tx: "wf_tx (sample_tx n)"
  by (simp add: wf_tx_def sample_tx_def sample_spend_def sample_output_def)

lemma well_formatted_sample_tx: "well_formatted sample_ext (sample_tx n)"
  by (simp add: well_formatted_def sample_tx_def sample_ext_def)

lemma sample_tx_simps [simp]:
  "tx_nullifiers (sample_tx n) = [replicate 32 n]"
  "tx_commitments (sample_tx n) = [replicate 32 (n + 1)]"
  "tx_fee (sample_tx n) = 10000"
  "tx_gas_limit (sample_tx n) = 21000"
  by (simp_all add: tx_nullifiers_def tx_commitments_def sample_tx_def sample_spend_def sample_output_def)

lemma validate_format_sample: "validate_format sample_ext (sample_tx n) = Inr ()"
  by (simp add: validate_format_Inr well_formatted_sample_tx)

theorem signing_bytes_binds_transfers_witness:
  "tx_nullifiers (sample_tx 1) = tx_nullifiers ((sample_tx 1)\<lparr>tx_gas_limit := 7\<rparr>)"
proof -
  have "signing_bytes (sample_tx 1) = signing_bytes ((sample_tx 1)\<lparr>tx_gas_limit := 7\<rparr>)"
    by (simp add: signing_bytes_def)
  moreover have "wf_tx ((sample_tx 1)\<lparr>tx_gas_limit := 7\<rparr>)"
    using wf_sample_tx [of 1] by (simp add: wf_tx_def)
  ultimately show ?thesis
    using signing_bytes_binds_transfers [of "sample_tx 1" "(sample_tx 1)\<lparr>tx_gas_limit := 7\<rparr>"]
      wf_sample_tx [of 1]
    by (simp add: sample_tx_def)
qed

end
