(* ===== verification/Db.thy ===== *)
theory Db
  imports Tx_Format
begin

text \<open>
  crates/noirnet-storage: the helpers of db.rs over sled trees, the nullifier store
  (nullifier_store.rs) and the block store (block_store.rs). Reads return a result, writes a
  result and the new database. The interface \<open>nullifier_set\<close> is what the mempool and the
  state manager rely on; every faultless sled database provides it.
\<close>

section \<open>Trees and errors\<close>

definition CF_BLOCKS :: string where "CF_BLOCKS = ''blocks''"
definition CF_TXS :: string where "CF_TXS = ''txs''"
definition CF_NULLIFIERS :: string where "CF_NULLIFIERS = ''nullifiers''"
definition CF_COMMITMENTS :: string where "CF_COMMITMENTS = ''commitments''"
definition CF_TREE :: string where "CF_TREE = ''tree''"
definition CF_VALIDATORS :: string where "CF_VALIDATORS = ''validators''"
definition CF_CONTRACTS :: string where "CF_CONTRACTS = ''contracts''"
definition CF_CONTRACT_STATE :: string where "CF_CONTRACT_STATE = ''contract_state''"
definition CF_STAKES :: string where "CF_STAKES = ''stakes''"
definition CF_ANCHORS :: string where "CF_ANCHORS = ''anchors''"
definition CF_META :: string where "CF_META = ''meta''"

lemmas cf_names = CF_BLOCKS_def CF_TXS_def CF_NULLIFIERS_def CF_COMMITMENTS_def CF_TREE_def
  CF_VALIDATORS_def CF_CONTRACTS_def CF_CONTRACT_STATE_def CF_STAKES_def CF_ANCHORS_def CF_META_def

lemma cf_distinct:
  "distinct [CF_BLOCKS, CF_TXS, CF_NULLIFIERS, CF_COMMITMENTS, CF_TREE, CF_VALIDATORS,
     CF_CONTRACTS, CF_CONTRACT_STATE, CF_STAKES, CF_ANCHORS, CF_META]"
  "distinct [CF_META, CF_ANCHORS, CF_STAKES, CF_CONTRACT_STATE, CF_CONTRACTS, CF_VALIDATORS,
     CF_TREE, CF_COMMITMENTS, CF_NULLIFIERS, CF_TXS, CF_BLOCKS]"
  by (simp_all add: cf_names)

lemmas cf_neq [simp] = cf_distinct [simplified]

text \<open>
  \<open>StorageError\<close>. The text bincode's error carries is not modelled, and the message of an
  invalid transition is its two numbers: expected and actual height. \<open>StoragePanic\<close> is no value of
  the Rust type: it marks the two places where \<open>copy_from_slice\<close> panics on a stored hash of
  the wrong length.
\<close>

datatype storage_error =
    Sled sled_error
  | Serialization
  | NotFound string
  | StorageDoubleSpend
  | InvalidTransition u64 u64
  | StoragePanic

type_synonym ('s, 'a) storage_op = "('s, storage_error, 'a) fallible"

text \<open>\<open>r?\<close> on a sled result.\<close>

definition sled_result :: "sled_error + 'a \<Rightarrow> storage_error + 'a" where
  "sled_result r = (case r of Inl e \<Rightarrow> Inl (Sled e) | Inr a \<Rightarrow> Inr a)"

definition cf_get :: "'db sled \<Rightarrow> string \<Rightarrow> bytes \<Rightarrow> 'db \<Rightarrow> storage_error + bytes option" where
  "cf_get S cf key db =
     (case sled_open S db cf of Inl e \<Rightarrow> Inl (Sled e) | Inr _ \<Rightarrow> sled_result (sled_get S db cf key))"

text \<open>\<open>tree.insert(k, v)?\<close> and \<open>tree.remove(k)?\<close> on a tree opened before.\<close>

definition tree_insert :: "'db sled \<Rightarrow> string \<Rightarrow> bytes \<Rightarrow> bytes \<Rightarrow> ('db, unit) storage_op" where
  "tree_insert S cf key v db =
     (case sled_insert S db cf key v of (r, db') \<Rightarrow> (sled_result r, db'))"

definition tree_remove :: "'db sled \<Rightarrow> string \<Rightarrow> bytes \<Rightarrow> ('db, bytes option) storage_op" where
  "tree_remove S cf key db =
     (case sled_remove S db cf key of (r, db') \<Rightarrow> (sled_result r, db'))"

definition open_tree :: "'db sled \<Rightarrow> string \<Rightarrow> ('db, unit) storage_op" where
  "open_tree S cf db = (sled_result (sled_open S db cf), db)"

definition cf_put :: "'db sled \<Rightarrow> string \<Rightarrow> bytes \<Rightarrow> bytes \<Rightarrow> ('db, unit) storage_op" where
  "cf_put S cf key v = andThen (open_tree S cf) (\<lambda>_. tree_insert S cf key v)"

text \<open>A read inside an operation: \<open>let a = read?;\<close>.\<close>

definition reading :: "('s \<Rightarrow> storage_error + 'a) \<Rightarrow> ('s, 'a) storage_op" where
  "reading g s = (g s, s)"

lemma reading_apply [simp]: "reading g s = (g s, s)"
  by (simp add: reading_def)

section \<open>Nullifier store\<close>

definition nullifier_contains :: "'db sled \<Rightarrow> hash32 \<Rightarrow> 'db \<Rightarrow> storage_error + bool" where
  "nullifier_contains S nf db =
     (case cf_get S CF_NULLIFIERS nf db of Inl e \<Rightarrow> Inl e | Inr opt \<Rightarrow> Inr (opt \<noteq> None))"

definition nullifier_insert :: "'db sled \<Rightarrow> hash32 \<Rightarrow> u64 \<Rightarrow> ('db, unit) storage_op" where
  "nullifier_insert S nf block_height =
     andThen (reading (nullifier_contains S nf))
       (\<lambda>present. if present then err StorageDoubleSpend
                  else cf_put S CF_NULLIFIERS nf (u64_to_le block_height))"

section \<open>Block store\<close>

definition put_block :: "ext \<Rightarrow> 'db sled \<Rightarrow> block \<Rightarrow> ('db, unit) storage_op" where
  "put_block X S b =
     andThen (cf_put S CF_BLOCKS (block_hash_of X b) (bincode_block X b))
       (\<lambda>_. forEach (\<lambda>tx. cf_put S CF_TXS (tx_id_of X tx) (bincode_tx X tx)) (blk_transactions b))"

definition get_block :: "ext \<Rightarrow> 'db sled \<Rightarrow> block_hash \<Rightarrow> 'db \<Rightarrow> storage_error + block option" where
  "get_block X S h db =
     (case cf_get S CF_BLOCKS h db of
        Inl e \<Rightarrow> Inl e
      | Inr None \<Rightarrow> Inr None
      | Inr (Some bs) \<Rightarrow>
          (case bincode_block_de X bs of None \<Rightarrow> Inl Serialization | Some b \<Rightarrow> Inr (Some b)))"

definition get_transaction :: "ext \<Rightarrow> 'db sled \<Rightarrow> tx_id \<Rightarrow> 'db \<Rightarrow> storage_error + transaction option" where
  "get_transaction X S txid db =
     (case cf_get S CF_TXS txid db of
        Inl e \<Rightarrow> Inl e
      | Inr None \<Rightarrow> Inr None
      | Inr (Some bs) \<Rightarrow>
          (case bincode_tx_de X bs of None \<Rightarrow> Inl Serialization | Some tx \<Rightarrow> Inr (Some tx)))"

definition delete_block :: "ext \<Rightarrow> 'db sled \<Rightarrow> block_hash \<Rightarrow> ('db, unit) storage_op" where
  "delete_block X S h =
     andThen (reading (get_block X S h))
       (\<lambda>found. case found of
          None \<Rightarrow> ok ()
        | Some b \<Rightarrow>
            andThen (open_tree S CF_TXS) (\<lambda>_.
            andThen (forEach (\<lambda>tx. andThen (tree_remove S CF_TXS (tx_id_of X tx)) (\<lambda>_. ok ()))
                       (blk_transactions b)) (\<lambda>_.
            andThen (open_tree S CF_BLOCKS) (\<lambda>_.
            andThen (tree_remove S CF_BLOCKS h) (\<lambda>_. ok ())))))"

section \<open>The operations over a faultless database\<close>

text \<open>
  Inside \<open>sled_db\<close> every helper succeeds, and a write is one update of the view. The update
  equations go into the collection \<open>store_simps\<close>.
\<close>

definition after_insert :: "'db sled \<Rightarrow> string \<Rightarrow> bytes \<Rightarrow> bytes \<Rightarrow> 'db \<Rightarrow> 'db" where
  "after_insert S cf key v db = snd (sled_insert S db cf key v)"

definition after_remove :: "'db sled \<Rightarrow> string \<Rightarrow> bytes \<Rightarrow> 'db \<Rightarrow> 'db" where
  "after_remove S cf key db = snd (sled_remove S db cf key)"

context sled_db
begin

lemma cf_get_eq [store_simps]: "cf_get S cf key db = Inr (db_view S db cf key)"
  by (simp add: cf_get_def open_ok get_ok sled_result_def)

lemma tree_insert_eq [store_simps]: "tree_insert S cf key v db = (Inr (), after_insert S cf key v db)"
  by (simp add: tree_insert_def after_insert_def insert_ok sled_result_def split_beta)

lemma tree_remove_eq [store_simps]:
  "tree_remove S cf key db = (Inr (db_view S db cf key), after_remove S cf key db)"
  by (simp add: tree_remove_def after_remove_def remove_ok sled_result_def split_beta)

lemma open_tree_eq [store_simps]: "open_tree S cf db = (Inr (), db)"
  by (simp add: open_tree_def open_ok sled_result_def)

lemma cf_put_eq [store_simps]: "cf_put S cf key v db = (Inr (), after_insert S cf key v db)"
  by (simp add: cf_put_def andThen_def open_tree_eq tree_insert_eq)

lemma after_insert_view [store_simps]:
  "db_view S (after_insert S cf key v db) =
     (db_view S db)(cf := (db_view S db cf)(key \<mapsto> v))"
  by (simp add: after_insert_def insert_view)

lemma after_remove_view [store_simps]:
  "db_view S (after_remove S cf key db) =
     (db_view S db)(cf := (db_view S db cf)(key := None))"
  by (simp add: after_remove_def remove_view)

lemma nullifier_contains_eq [store_simps]:
  "nullifier_contains S nf db = Inr (db_view S db CF_NULLIFIERS nf \<noteq> None)"
  by (simp add: nullifier_contains_def cf_get_eq)

lemma get_block_eq:
  "get_block X S h db =
     (case db_view S db CF_BLOCKS h of None \<Rightarrow> Inr None
      | Some bs \<Rightarrow> (case bincode_block_de X bs of None \<Rightarrow> Inl Serialization | Some b \<Rightarrow> Inr (Some b)))"
  by (simp add: get_block_def cf_get_eq split: option.splits)

end

section \<open>The interface of a set of spent nullifiers\<close>

text \<open>
  What the clients of a nullifier store rely on: asking for membership and marking. \<open>spend_all\<close>
  is the client loop of block application: check, then mark, one nullifier after the other.
\<close>

locale nullifier_set =
  fixes spent :: "'s \<Rightarrow> hash32 set"
    and has_nf :: "hash32 \<Rightarrow> 's \<Rightarrow> storage_error + bool"
    and mark_nf :: "hash32 \<Rightarrow> ('s, unit) storage_op"
  assumes has_nf_eq: "has_nf nf s = Inr (nf \<in> spent s)"
    and mark_nf_ok: "fst (mark_nf nf s) = Inr ()"
    and mark_nf_spent: "spent (snd (mark_nf nf s)) = insert nf (spent s)"
begin

definition spend_all :: "hash32 list \<Rightarrow> ('s, unit) storage_op" where
  "spend_all = forEach (\<lambda>nf. andThen (reading (has_nf nf))
     (\<lambda>present. if present then err StorageDoubleSpend else mark_nf nf))"

lemma spend_all_simps:
  "spend_all [] s = (Inr (), s)"
  "spend_all (nf # nfs) s =
     (if nf \<in> spent s then (Inl StorageDoubleSpend, s) else spend_all nfs (snd (mark_nf nf s)))"
  by (simp_all add: spend_all_def andThen_def has_nf_eq mark_nf_ok split_beta)

lemma spend_all_result:
  "fst (spend_all nfs s) =
     (if distinct nfs \<and> set nfs \<inter> spent s = {} then Inr () else Inl StorageDoubleSpend)"
  by (induction nfs arbitrary: s) (auto simp: spend_all_simps mark_nf_spent)

lemma spend_all_spent:
  "fst (spend_all nfs s) = Inr () \<Longrightarrow> spent (snd (spend_all nfs s)) = spent s \<union> set nfs"
  by (induction nfs arbitrary: s) (auto simp: spend_all_simps mark_nf_spent split: if_splits)

lemma spend_all_spent_mono: "x \<in> spent s \<Longrightarrow> x \<in> spent (snd (spend_all nfs s))"
  by (induction nfs arbitrary: s) (auto simp: spend_all_simps mark_nf_spent)

text \<open>A rejected run leaves the nullifiers before the offending one marked.\<close>

lemma spend_all_partial:
  assumes "distinct nfs" "set nfs \<inter> spent s = {}" "nf \<in> spent s \<union> set nfs"
  shows "fst (spend_all (nfs @ nf # rest) s) = Inl StorageDoubleSpend \<and>
    spent (snd (spend_all (nfs @ nf # rest) s)) = spent s \<union> set nfs"
  using assms by (induction nfs arbitrary: s) (auto simp: spend_all_simps mark_nf_spent)

end

text \<open>The nullifier tree of a database, the set of its keys.\<close>

definition db_spent :: "'db sled \<Rightarrow> 'db \<Rightarrow> hash32 set" where
  "db_spent S db = dom (db_view S db CF_NULLIFIERS)"

sublocale sled_db \<subseteq> nf: nullifier_set "db_spent S" "nullifier_contains S" "\<lambda>nf. cf_put S CF_NULLIFIERS nf (u64_to_le h)"
  for h :: u64
  by unfold_locales (auto simp: store_simps db_spent_def dom_def)

end
