(* ===== verification/Incremental_Merkle.thy ===== *)
theory Incremental_Merkle
  imports Rust_Prelude
begin

text \<open>
  Incremental Merkle trees without any storage: the reference root of a list of leaves padded
  with empty leaves, the frontier of left siblings that an append-only tree keeps instead of
  the leaves, and the two facts that make the frontier enough: appending is a binary carry,
  and the root is a fold over the frontier. The tree of the node (theory Merkle) is the
  instance with the BLAKE3 pair hash and depth 32.
\<close>

section \<open>The reference root\<close>

text \<open>The root of a tree of depth d whose first leaves are \<open>xs\<close> and whose other leaves are \<open>e\<close>.\<close>

primrec merkle_root :: "('a \<Rightarrow> 'a \<Rightarrow> 'a) \<Rightarrow> 'a \<Rightarrow> nat \<Rightarrow> 'a list \<Rightarrow> 'a" where
  "merkle_root h e 0 xs = (case xs of [] \<Rightarrow> e | x # _ \<Rightarrow> x)"
| "merkle_root h e (Suc d) xs =
     h (merkle_root h e d (take (2 ^ d) xs)) (merkle_root h e d (drop (2 ^ d) xs))"

text \<open>One level up: the hashes of neighbours, an odd last node paired with \<open>e\<close>.\<close>

fun pair_up :: "('a \<Rightarrow> 'a \<Rightarrow> 'a) \<Rightarrow> 'a \<Rightarrow> 'a list \<Rightarrow> 'a list" where
  "pair_up h e [] = []"
| "pair_up h e [x] = [h x e]"
| "pair_up h e (x # y # zs) = h x y # pair_up h e zs"

lemma pair_up_take: "pair_up h e (take (2 * k) xs) = take k (pair_up h e xs)"
  by (induction h e xs arbitrary: k rule: pair_up.induct)
     (auto simp: take_Cons' numeral_2_eq_2 gr0_conv_Suc split: nat.splits)

lemma pair_up_drop: "pair_up h e (drop (2 * k) xs) = drop k (pair_up h e xs)"
proof (induction h e xs arbitrary: k rule: pair_up.induct)
  case (2 h e x)
  then show ?case by (cases k) auto
next
  case (3 h e x y zs)
  then show ?case by (cases k) auto
qed simp

lemma merkle_root_pair_up: "merkle_root h e (Suc d) xs = merkle_root h (h e e) d (pair_up h e xs)"
proof (induction d arbitrary: xs)
  case 0
  show ?case
    by (cases "(h, e, xs)" rule: pair_up.cases) simp_all
next
  case (Suc d)
  have "merkle_root h e (Suc (Suc d)) xs =
      h (merkle_root h e (Suc d) (take (2 * 2 ^ d) xs)) (merkle_root h e (Suc d) (drop (2 * 2 ^ d) xs))"
    by simp
  also have "\<dots> = h (merkle_root h (h e e) d (pair_up h e (take (2 * 2 ^ d) xs)))
      (merkle_root h (h e e) d (pair_up h e (drop (2 * 2 ^ d) xs)))"
    by (simp only: Suc.IH)
  also have "\<dots> = merkle_root h (h e e) (Suc d) (pair_up h e xs)"
    by (simp add: pair_up_take pair_up_drop)
  finally show ?case .
qed

lemma merkle_root_append_empty: "merkle_root h e d (xs @ [e]) = merkle_root h e d xs"
proof (induction d arbitrary: xs e)
  case 0
  show ?case by (cases xs) simp_all
next
  case (Suc d)
  have "pair_up h e (xs @ [e]) = pair_up h e xs \<or> pair_up h e (xs @ [e]) = pair_up h e xs @ [h e e]"
    by (induction h e xs rule: pair_up.induct) auto
  then show ?case
    by (auto simp: merkle_root_pair_up Suc.IH simp del: merkle_root.simps)
qed

lemma merkle_root_Nil: "merkle_root h e d [] = ((\<lambda>n. h n n) ^^ d) e"
  by (induction d) simp_all

section \<open>The frontier\<close>

text \<open>Complete pairs only: the nodes of the next level whose two children are present.\<close>

fun full_pairs :: "('a \<Rightarrow> 'a \<Rightarrow> 'a) \<Rightarrow> 'a list \<Rightarrow> 'a list" where
  "full_pairs h (x # y # zs) = h x y # full_pairs h zs"
| "full_pairs h _ = []"

lemma length_full_pairs [simp]: "length (full_pairs h xs) = length xs div 2"
  by (induction h xs rule: full_pairs.induct) simp_all

text \<open>At each level, the last node when it has no right sibling yet.\<close>

primrec frontier_of :: "('a \<Rightarrow> 'a \<Rightarrow> 'a) \<Rightarrow> nat \<Rightarrow> 'a list \<Rightarrow> 'a option list" where
  "frontier_of h 0 xs = []"
| "frontier_of h (Suc d) xs =
     (if odd (length xs) then Some (last xs) else None) # frontier_of h d (full_pairs h xs)"

lemma length_frontier_of [simp]: "length (frontier_of h d xs) = d"
  by (induction d arbitrary: xs) simp_all

lemma frontier_of_Nil: "frontier_of h d [] = replicate d None"
  by (induction d) simp_all

lemma frontier_of_full: "2 ^ d dvd length xs \<Longrightarrow> frontier_of h d xs = replicate d None"
proof (induction d arbitrary: xs)
  case (Suc d)
  then have "even (length xs)"
    by (metis dvd_trans dvd_triv_left power_Suc)
  moreover have "2 ^ d dvd length xs div 2"
    using Suc.prems \<open>even (length xs)\<close> by (auto elim!: dvdE)
  ultimately show ?case
    using Suc.IH by simp
qed simp

text \<open>Appending a node is adding one in binary: combine with every waiting left sibling.\<close>

fun carry :: "('a \<Rightarrow> 'a \<Rightarrow> 'a) \<Rightarrow> 'a \<Rightarrow> 'a option list \<Rightarrow> 'a option list" where
  "carry h c [] = []"
| "carry h c (None # fr) = Some c # fr"
| "carry h c (Some left # fr) = None # carry h (h left c) fr"

lemma full_pairs_snoc_even: "even (length xs) \<Longrightarrow> full_pairs h (xs @ [c]) = full_pairs h xs"
  by (induction h xs rule: full_pairs.induct) auto

lemma full_pairs_snoc_odd:
  "odd (length xs) \<Longrightarrow> full_pairs h (xs @ [c]) = full_pairs h xs @ [h (last xs) c]"
  by (induction h xs rule: full_pairs.induct) auto

lemma carry_frontier_of: "carry h c (frontier_of h d xs) = frontier_of h d (xs @ [c])"
  by (induction d arbitrary: xs c) (auto simp: full_pairs_snoc_even full_pairs_snoc_odd)

section \<open>The root of a frontier\<close>

text \<open>
  The fold of the source: at level i the running node is the subtree that contains the first
  free position; it is a right child when bit i of the size is set.
\<close>

fun frontier_root :: "('a \<Rightarrow> 'a \<Rightarrow> 'a) \<Rightarrow> 'a \<Rightarrow> nat \<Rightarrow> 'a option list \<Rightarrow> 'a \<Rightarrow> 'a" where
  "frontier_root h e n [] cur = cur"
| "frontier_root h e n (f # fr) cur =
     frontier_root h (h e e) (n div 2) fr
       (if odd n then h (case f of Some s \<Rightarrow> s | None \<Rightarrow> e) cur
        else h cur (case f of Some s \<Rightarrow> s | None \<Rightarrow> e))"

lemma pair_up_snoc_even: "even (length xs) \<Longrightarrow> pair_up h e (xs @ [c]) = full_pairs h xs @ [h c e]"
  by (induction h xs rule: full_pairs.induct) auto

lemma pair_up_snoc_odd:
  "odd (length xs) \<Longrightarrow> pair_up h e (xs @ [c]) = full_pairs h xs @ [h (last xs) c]"
  by (induction h xs rule: full_pairs.induct) auto

lemma frontier_root_eq:
  "length xs < 2 ^ d \<Longrightarrow>
   frontier_root h e (length xs) (frontier_of h d xs) cur = merkle_root h e d (xs @ [cur])"
proof (induction d arbitrary: xs e cur)
  case (Suc d)
  define cur' where "cur' = (if odd (length xs) then h (last xs) cur else h cur e)"
  have "frontier_root h e (length xs) (frontier_of h (Suc d) xs) cur =
      frontier_root h (h e e) (length (full_pairs h xs)) (frontier_of h d (full_pairs h xs)) cur'"
    by (simp add: cur'_def)
  also have "\<dots> = merkle_root h (h e e) d (full_pairs h xs @ [cur'])"
    using Suc.prems by (intro Suc.IH) auto
  also have "full_pairs h xs @ [cur'] = pair_up h e (xs @ [cur])"
    by (simp add: cur'_def pair_up_snoc_even pair_up_snoc_odd)
  finally show ?case
    by (simp only: merkle_root_pair_up)
qed simp

text \<open>The frontier computes the reference root, as long as the tree has a free leaf.\<close>

lemma frontier_root_reference:
  "length xs < 2 ^ d \<Longrightarrow>
   frontier_root h e (length xs) (frontier_of h d xs) e = merkle_root h e d xs"
  by (simp add: frontier_root_eq merkle_root_append_empty)

lemma frontier_root_empty:
  "2 ^ d dvd n \<Longrightarrow> frontier_root h e n (replicate d None) e = merkle_root h e d []"
proof (induction d arbitrary: n e)
  case (Suc d)
  then have "even n"
    by (metis dvd_trans dvd_triv_left power_Suc)
  moreover have "2 ^ d dvd n div 2"
    using Suc.prems \<open>even n\<close> by (auto elim!: dvdE)
  ultimately show ?case
    using Suc.IH funpow_swap1 [of "\<lambda>n. h n n" d e] by (simp add: merkle_root_Nil)
qed simp

end
