(* ===== verification/Merkle.thy ===== *)
theory Merkle
  imports Db Incremental_Merkle
begin

text \<open>
  The note commitment tree (crates/noirnet-storage/src/merkle.rs): a frontier of at most one
  waiting left sibling per level and the number of leaves, both written to the database at
  every append. The state manager shares one database between this tree and the other stores,
  so the operations work on the state record of state.rs: the database and the tree in memory.
  The last section proves the tree against the reference root of \<open>Incremental_Merkle\<close>.
\<close>

section \<open>State\<close>

record note_tree =
  nct_frontier :: "bytes option list"
  nct_size :: u64

record 'db state_store =
  ss_db :: 'db
  ss_tree :: note_tree

record merkle_path =
  mp_auth_path :: "(bytes \<times> bool) list"
  mp_position :: u64

text \<open>Operations on the database part, and in-memory updates of the tree part.\<close>

definition on_db :: "('db, 'a) storage_op \<Rightarrow> ('db state_store, 'a) storage_op" where
  "on_db f s = (case f (ss_db s) of (r, db') \<Rightarrow> (r, s\<lparr>ss_db := db'\<rparr>))"

definition set_tree :: "note_tree \<Rightarrow> ('db state_store, unit) storage_op" where
  "set_tree t s = (Inr (), s\<lparr>ss_tree := t\<rparr>)"

section \<open>Hashing\<close>

definition hash_pair :: "ext \<Rightarrow> bytes \<Rightarrow> bytes \<Rightarrow> bytes" where
  "hash_pair X left right = blake3 X (ascii ''NoirNet_tree_node_v1'' @ left @ right)"

text \<open>\<open>empty_root\<close>, the loop over the depth.\<close>

primrec empty_root :: "ext \<Rightarrow> usize \<Rightarrow> bytes" where
  "empty_root X 0 = Hash32_ZERO"
| "empty_root X (Suc depth) = (let node = empty_root X depth in hash_pair X node node)"

section \<open>Operations\<close>

text \<open>
  The loop of \<open>append\<close> over the levels \<open>i\<close>. The frontier always has
  \<open>NOTE_COMMITMENT_TREE_DEPTH\<close> entries (\<open>open\<close> creates it so, and no operation changes its
  length), so indexing it never panics.
\<close>

function append_loop :: "ext \<Rightarrow> usize \<Rightarrow> bytes \<Rightarrow> bytes option list \<Rightarrow> bytes option list" where
  "append_loop X i current fr =
     (if i < NOTE_COMMITMENT_TREE_DEPTH then
        (case fr ! i of
           Some left \<Rightarrow> append_loop X (i + 1) (hash_pair X left current) (fr[i := None])
         | None \<Rightarrow> fr[i := Some current])
      else fr)"
  by pat_completeness auto
termination
  by (relation "measure (\<lambda>(X, i, c, fr). NOTE_COMMITMENT_TREE_DEPTH - i)") auto

declare append_loop.simps [simp del]

definition tree_push :: "ext \<Rightarrow> bytes \<Rightarrow> note_tree \<Rightarrow> note_tree" where
  "tree_push X commitment t =
     t\<lparr>nct_frontier := append_loop X 0 commitment (nct_frontier t), nct_size := nct_size t + 1\<rparr>"

text \<open>\<open>NoteCommitmentTree::append\<close>\<close>

definition tree_append :: "ext \<Rightarrow> 'db sled \<Rightarrow> bytes \<Rightarrow> ('db state_store, u64) storage_op" where
  "tree_append X S commitment s =
     (let leaf_index = nct_size (ss_tree s);
          t = tree_push X commitment (ss_tree s)
      in andThen (on_db (cf_put S CF_COMMITMENTS (u64_to_be leaf_index) commitment)) (\<lambda>_.
         andThen (set_tree t) (\<lambda>_.
         andThen (on_db (cf_put S CF_TREE (ascii ''frontier'') (bincode_frontier X (nct_frontier t)))) (\<lambda>_.
         andThen (on_db (cf_put S CF_TREE (ascii ''size'') (u64_to_le (nct_size t)))) (\<lambda>_.
         ok leaf_index)))) s)"

text \<open>\<open>NoteCommitmentTree::root\<close>: the loop over the levels as a fold.\<close>

definition root_step :: "ext \<Rightarrow> note_tree \<Rightarrow> usize \<Rightarrow> bytes \<Rightarrow> bytes" where
  "root_step X t i current =
     (let sibling = (case nct_frontier t ! i of Some h \<Rightarrow> h | None \<Rightarrow> empty_root X i)
      in if Bit_Operations.and (drop_bit i (nct_size t)) 1 = 1
         then hash_pair X sibling current
         else hash_pair X current sibling)"

definition tree_root :: "ext \<Rightarrow> note_tree \<Rightarrow> hash32" where
  "tree_root X t = fold (root_step X t) [0..<NOTE_COMMITMENT_TREE_DEPTH] (empty_root X 0)"

text \<open>\<open>NoteCommitmentTree::get_commitment\<close>\<close>

definition get_commitment :: "'db sled \<Rightarrow> u64 \<Rightarrow> 'db \<Rightarrow> storage_error + hash32 option" where
  "get_commitment S leaf_index db =
     (case cf_get S CF_COMMITMENTS (u64_to_be leaf_index) db of
        Inl e \<Rightarrow> Inl e
      | Inr None \<Rightarrow> Inr None
      | Inr (Some bs) \<Rightarrow> Inr (Some (if length bs = 32 then bs else Hash32_ZERO)))"

definition empty_tree :: note_tree where
  "empty_tree = \<lparr>nct_frontier = replicate NOTE_COMMITMENT_TREE_DEPTH None, nct_size = 0\<rparr>"

text \<open>
  \<open>NoteCommitmentTree::open\<close>. A stored frontier that decodes to a list of another length than the
  depth, which no write of the program makes, would panic where it is indexed later; such a
  database is outside the model.
\<close>

definition tree_open :: "ext \<Rightarrow> 'db sled \<Rightarrow> 'db \<Rightarrow> storage_error + note_tree" where
  "tree_open X S db =
     (case cf_get S CF_TREE (ascii ''frontier'') db of
        Inl e \<Rightarrow> Inl e
      | Inr fbytes \<Rightarrow>
          (case (case fbytes of None \<Rightarrow> Some (replicate NOTE_COMMITMENT_TREE_DEPTH None)
                 | Some bs \<Rightarrow> bincode_frontier_de X bs) of
             None \<Rightarrow> Inl Serialization
           | Some fr \<Rightarrow>
               (case cf_get S CF_TREE (ascii ''size'') db of
                  Inl e \<Rightarrow> Inl e
                | Inr sbytes \<Rightarrow> Inr \<lparr>nct_frontier = fr,
                    nct_size = (case sbytes of None \<Rightarrow> 0 | Some bs \<Rightarrow> u64_from_slice bs)\<rparr>)))"

section \<open>The loops are the abstract carry and root\<close>

lemma empty_root_eq: "empty_root X d = ((\<lambda>n. hash_pair X n n) ^^ d) Hash32_ZERO"
  by (induction d) (simp_all add: Let_def)

lemma append_loop_carry:
  assumes "length fr = NOTE_COMMITMENT_TREE_DEPTH" "i \<le> NOTE_COMMITMENT_TREE_DEPTH"
  shows "append_loop X i c fr = take i fr @ carry (hash_pair X) c (drop i fr)"
  using assms
proof (induction X i c fr rule: append_loop.induct)
  case (1 X i c fr)
  show ?case
  proof (cases "i < NOTE_COMMITMENT_TREE_DEPTH")
    case True
    then have split: "drop i fr = fr ! i # drop (Suc i) fr"
      using "1.prems" by (simp add: Cons_nth_drop_Suc)
    show ?thesis
    proof (cases "fr ! i")
      case None
      with True split "1.prems" show ?thesis
        by (simp add: append_loop.simps upd_conv_take_nth_drop)
    next
      case (Some left)
      then have "append_loop X i c fr = append_loop X (i + 1) (hash_pair X left c) (fr[i := None])"
        using True by (simp add: append_loop.simps [of X i])
      also have "\<dots> = take (i + 1) (fr[i := None]) @
          carry (hash_pair X) (hash_pair X left c) (drop (i + 1) (fr[i := None]))"
        using True Some "1.prems" by (intro "1.IH") auto
      finally show ?thesis
        using True Some split "1.prems"
        by (simp add: take_Suc_conv_app_nth upd_conv_take_nth_drop)
    qed
  next
    case False
    with "1.prems" show ?thesis
      by (simp add: append_loop.simps)
  qed
qed

lemma tree_push_frontier:
  "length (nct_frontier t) = NOTE_COMMITMENT_TREE_DEPTH \<Longrightarrow>
   nct_frontier (tree_push X c t) = carry (hash_pair X) c (nct_frontier t)"
  by (simp add: tree_push_def append_loop_carry)

lemma size_bit: "Bit_Operations.and (drop_bit i w) 1 = 1 \<longleftrightarrow> odd (unat w div 2 ^ i)" for w :: u64
proof -
  have "Bit_Operations.and (drop_bit i w) 1 = 1 \<longleftrightarrow> bit w i"
    by (simp add: and_one_eq even_drop_bit_iff_not_bit flip: odd_iff_mod_2_eq_one)
  also have "\<dots> \<longleftrightarrow> bit (unat w) i"
    by (simp add: bit_unsigned_iff)
  finally show ?thesis
    by (simp add: bit_iff_odd)
qed

lemma root_fold_frontier_root:
  assumes "i \<le> length (nct_frontier t)"
  shows "fold (root_step X t) [i..<length (nct_frontier t)] cur =
    frontier_root (hash_pair X) (empty_root X i) (unat (nct_size t) div 2 ^ i)
      (drop i (nct_frontier t)) cur"
  using assms
proof (induction "length (nct_frontier t) - i" arbitrary: i cur)
  case 0
  then show ?case by simp
next
  case (Suc k)
  then have i: "i < length (nct_frontier t)" by simp
  have "unat (nct_size t) div 2 ^ i div 2 = unat (nct_size t) div 2 ^ Suc i"
    by (simp add: div_mult2_eq [symmetric] mult.commute)
  with i Suc.hyps(1) [of "Suc i"] Suc.hyps(2) show ?case
    by (simp add: upt_conv_Cons Cons_nth_drop_Suc [symmetric] root_step_def Let_def size_bit)
qed

section \<open>What a tree holds\<close>

text \<open>The abstraction: the tree in memory is the frontier of these leaves.\<close>

definition tree_holds :: "ext \<Rightarrow> note_tree \<Rightarrow> hash32 list \<Rightarrow> bool" where
  "tree_holds X t leaves \<longleftrightarrow>
     nct_frontier t = frontier_of (hash_pair X) NOTE_COMMITMENT_TREE_DEPTH leaves \<and>
     nct_size t = word_of_nat (length leaves)"

lemma tree_holds_empty: "tree_holds X empty_tree []"
  by (simp add: tree_holds_def empty_tree_def frontier_of_Nil)

lemma tree_holds_push: "tree_holds X t leaves \<Longrightarrow> tree_holds X (tree_push X c t) (leaves @ [c])"
  by (simp add: tree_holds_def tree_push_frontier carry_frontier_of) (simp add: tree_push_def)

lemma tree_holds_length: "tree_holds X t leaves \<Longrightarrow> length (nct_frontier t) = NOTE_COMMITMENT_TREE_DEPTH"
  by (simp add: tree_holds_def)

lemma tree_root_frontier_root:
  assumes "length (nct_frontier t) = NOTE_COMMITMENT_TREE_DEPTH"
  shows "tree_root X t =
    frontier_root (hash_pair X) Hash32_ZERO (unat (nct_size t)) (nct_frontier t) Hash32_ZERO"
  using root_fold_frontier_root [of 0 t X "empty_root X 0"] assms by (simp add: tree_root_def)

lemma tree_holds_root:
  assumes "tree_holds X t leaves" "length leaves < 2 ^ NOTE_COMMITMENT_TREE_DEPTH"
  shows "tree_root X t = merkle_root (hash_pair X) Hash32_ZERO NOTE_COMMITMENT_TREE_DEPTH leaves"
proof -
  have "unat (nct_size t) = length leaves"
    using assms by (simp add: tree_holds_def unat_of_nat NOTE_COMMITMENT_TREE_DEPTH_def)
  with assms show ?thesis
    by (simp add: tree_root_frontier_root tree_holds_length)
       (simp add: tree_holds_def frontier_root_reference)
qed

lemma tree_holds_root_full:
  assumes "tree_holds X t leaves" "length leaves = 2 ^ NOTE_COMMITMENT_TREE_DEPTH"
  shows "tree_root X t = tree_root X empty_tree"
proof -
  have "unat (nct_size t) = 2 ^ NOTE_COMMITMENT_TREE_DEPTH"
    using assms by (simp add: tree_holds_def unat_of_nat NOTE_COMMITMENT_TREE_DEPTH_def)
  moreover have "nct_frontier t = replicate NOTE_COMMITMENT_TREE_DEPTH None"
    using assms by (simp add: tree_holds_def frontier_of_full)
  ultimately show ?thesis
    by (simp add: tree_root_frontier_root empty_tree_def frontier_root_empty)
qed

section \<open>The interface of an append-only log\<close>

text \<open>
  What block application relies on: appending hands out consecutive indices and extends the
  list the state stands for, as long as there is room.
\<close>

locale append_log =
  fixes holds :: "'s \<Rightarrow> hash32 list \<Rightarrow> bool"
    and append_one :: "hash32 \<Rightarrow> ('s, u64) storage_op"
    and room :: nat
  assumes append_result: "holds s xs \<Longrightarrow> length xs < room \<Longrightarrow>
        fst (append_one c s) = Inr (word_of_nat (length xs))"
    and append_holds: "holds s xs \<Longrightarrow> length xs < room \<Longrightarrow>
        holds (snd (append_one c s)) (xs @ [c])"
begin

lemma append_run:
  assumes "holds s xs" "length xs + length cs \<le> room"
  shows "fst (forEach (\<lambda>c. andThen (append_one c) (\<lambda>_. ok ())) cs s) = Inr () \<and>
    holds (snd (forEach (\<lambda>c. andThen (append_one c) (\<lambda>_. ok ())) cs s)) (xs @ cs)"
  using assms
proof (induction cs arbitrary: s xs)
  case (Cons c cs)
  then have "fst (append_one c s) = Inr (word_of_nat (length xs))"
    and "holds (snd (append_one c s)) (xs @ [c])"
    by (auto intro!: append_result append_holds)
  with Cons.IH [of "snd (append_one c s)" "xs @ [c]"] Cons.prems show ?case
    by (simp add: andThen_Inr)
qed simp

end

section \<open>The stored tree\<close>

text \<open>
  A store holds these leaves when its tree in memory does, every leaf is in the commitments
  tree under its big-endian index, and what was saved is what is in memory.
\<close>

definition tree_saved :: "ext \<Rightarrow> 'db sled \<Rightarrow> 'db \<Rightarrow> note_tree \<Rightarrow> bool" where
  "tree_saved X S db t \<longleftrightarrow>
     (db_view S db CF_TREE (ascii ''frontier'') = Some (bincode_frontier X (nct_frontier t)) \<and>
      db_view S db CF_TREE (ascii ''size'') = Some (u64_to_le (nct_size t))) \<or>
     (t = empty_tree \<and> db_view S db CF_TREE (ascii ''frontier'') = None \<and>
      db_view S db CF_TREE (ascii ''size'') = None)"

definition store_holds :: "ext \<Rightarrow> 'db sled \<Rightarrow> 'db state_store \<Rightarrow> hash32 list \<Rightarrow> bool" where
  "store_holds X S s leaves \<longleftrightarrow>
     tree_holds X (ss_tree s) leaves \<and> tree_saved X S (ss_db s) (ss_tree s) \<and>
     (\<forall>i < length leaves.
        db_view S (ss_db s) CF_COMMITMENTS (u64_to_be (word_of_nat i)) = Some (leaves ! i))"

definition after_append :: "ext \<Rightarrow> 'db sled \<Rightarrow> bytes \<Rightarrow> 'db state_store \<Rightarrow> 'db state_store" where
  "after_append X S c s =
     (let t = tree_push X c (ss_tree s)
      in \<lparr>ss_db = after_insert S CF_TREE (ascii ''size'') (u64_to_le (nct_size t))
                  (after_insert S CF_TREE (ascii ''frontier'') (bincode_frontier X (nct_frontier t))
                    (after_insert S CF_COMMITMENTS (u64_to_be (nct_size (ss_tree s))) c (ss_db s))),
          ss_tree = t\<rparr>)"

lemma ss_tree_after_append [simp]: "ss_tree (after_append X S c s) = tree_push X c (ss_tree s)"
  by (simp add: after_append_def Let_def)

lemma ascii_frontier_size: "ascii ''frontier'' \<noteq> ascii ''size''"
  by (metis length_ascii length_Cons list.size(3) nat.inject Zero_not_Suc)

context sled_db
begin

lemma on_db_eq: "f (ss_db s) = (r, db') \<Longrightarrow> on_db f s = (r, s\<lparr>ss_db := db'\<rparr>)"
  by (simp add: on_db_def)

lemma tree_append_eq [store_simps]:
  "tree_append X S c s = (Inr (nct_size (ss_tree s)), after_append X S c s)"
  by (simp add: tree_append_def after_append_def Let_def andThen_def on_db_def set_tree_def cf_put_eq)

lemma after_append_view [store_simps]:
  "db_view S (ss_db (after_append X S c s)) =
     (db_view S (ss_db s))
       (CF_COMMITMENTS := (db_view S (ss_db s) CF_COMMITMENTS)(u64_to_be (nct_size (ss_tree s)) \<mapsto> c),
        CF_TREE := (db_view S (ss_db s) CF_TREE)
          (ascii ''frontier'' \<mapsto> bincode_frontier X (nct_frontier (tree_push X c (ss_tree s))),
           ascii ''size'' \<mapsto> u64_to_le (nct_size (tree_push X c (ss_tree s)))))"
  by (simp add: after_append_def Let_def after_insert_view cf_names)

end

sublocale sled_db \<subseteq> leaves: append_log "store_holds X S" "tree_append X S" "2 ^ 64"
  for X :: ext
proof (unfold_locales, goal_cases)
  case (1 s xs c)
  then show ?case
    by (simp add: store_simps store_holds_def tree_holds_def)
next
  case (2 s xs c)
  then have size: "nct_size (ss_tree s) = word_of_nat (length xs)"
    by (simp add: store_holds_def tree_holds_def)
  have "db_view S (ss_db (after_append X S c s)) CF_COMMITMENTS (u64_to_be (word_of_nat i)) =
      Some ((xs @ [c]) ! i)" if "i < length (xs @ [c])" for i
    using that 2 size
    by (auto simp: store_simps store_holds_def cf_names nth_append word_of_nat_inject_64)
  moreover have "tree_saved X S (ss_db (after_append X S c s)) (tree_push X c (ss_tree s))"
    by (simp add: tree_saved_def store_simps ascii_frontier_size)
  ultimately show ?case
    using 2 by (simp add: store_simps store_holds_def tree_holds_push)
qed

section \<open>Properties\<close>

text \<open>Appending a list of commitments one after the other, as block application does.\<close>

definition tree_append_all :: "ext \<Rightarrow> 'db sled \<Rightarrow> hash32 list \<Rightarrow> ('db state_store, unit) storage_op" where
  "tree_append_all X S cs = forEach (\<lambda>c. andThen (tree_append X S c) (\<lambda>_. ok ())) cs"

definition fresh_store :: "'db \<Rightarrow> 'db state_store" where
  "fresh_store db = \<lparr>ss_db = db, ss_tree = empty_tree\<rparr>"

definition no_tree :: "'db sled \<Rightarrow> 'db \<Rightarrow> bool" where
  "no_tree S db \<longleftrightarrow> db_view S db CF_TREE = Map.empty"

lemma fresh_store_holds: "no_tree S db \<Longrightarrow> store_holds X S (fresh_store db) []"
  by (simp add: no_tree_def store_holds_def fresh_store_def tree_holds_empty tree_saved_def)

context sled_db
begin

lemma tree_append_all_run:
  assumes "store_holds X S s leaves" "length leaves + length cs \<le> 2 ^ 64"
  shows "fst (tree_append_all X S cs s) = Inr () \<and>
    store_holds X S (snd (tree_append_all X S cs s)) (leaves @ cs)"
  using leaves.append_run [OF assms] by (simp add: tree_append_all_def)

lemma tree_append_all_fresh:
  assumes "no_tree S db" "length cs \<le> 2 ^ 64"
  shows "fst (tree_append_all X S cs (fresh_store db)) = Inr () \<and>
    store_holds X S (snd (tree_append_all X S cs (fresh_store db))) cs"
  using tree_append_all_run [OF fresh_store_holds [OF assms(1)], of cs] assms(2) by simp

end

text \<open>
  C26: after appending fewer than 2^32 commitments to a fresh tree, the root computed from the
  frontier is the Merkle root of the list of commitments padded with zero leaves to depth 32,
  and the size is the number of commitments.
\<close>

theorem note_tree_root_is_merkle_root:
  assumes "sled_db S" "no_tree S db" "length cs < 2 ^ 32"
    and "run = tree_append_all X S cs (fresh_store db)"
  shows "fst run = Inr () \<and>
    tree_root X (ss_tree (snd run)) = merkle_root (hash_pair X) Hash32_ZERO 32 cs \<and>
    unat (nct_size (ss_tree (snd run))) = length cs"
proof -
  have "fst run = Inr () \<and> store_holds X S (snd run) cs"
    using sled_db.tree_append_all_fresh [OF assms(1,2)] assms(3,4) by simp
  then have "fst run = Inr ()" "tree_holds X (ss_tree (snd run)) cs"
    by (simp_all add: store_holds_def)
  with tree_holds_root [OF this(2)] assms(3) show ?thesis
    by (simp add: NOTE_COMMITMENT_TREE_DEPTH_def tree_holds_def unat_of_nat)
qed

theorem note_tree_root_is_merkle_root_witness:
  "tree_root sample_ext (ss_tree (snd (tree_append_all sample_ext mem_sled [replicate 32 1] (fresh_store mem_empty)))) =
     merkle_root (hash_pair sample_ext) Hash32_ZERO 32 [replicate 32 1]"
  using note_tree_root_is_merkle_root [OF mem.sled_db_axioms, of mem_empty "[replicate 32 1]"]
  by (simp add: no_tree_def mem_empty_def)

text \<open>
  Every appended 32-byte commitment can be read back under its position, and opening the
  tree again from the database gives the tree that is in memory, provided bincode decodes the
  frontier it encoded.
\<close>

theorem note_tree_survives_reopen:
  assumes "sled_db S" "no_tree S db" "length cs \<le> 2 ^ 64" "\<forall>c \<in> set cs. length c = 32"
    and run: "run = tree_append_all X S cs (fresh_store db)"
    and codec: "bincode_frontier_de X (bincode_frontier X (nct_frontier (ss_tree (snd run)))) =
      Some (nct_frontier (ss_tree (snd run)))"
  shows "(\<forall>i < length cs. get_commitment S (word_of_nat i) (ss_db (snd run)) = Inr (Some (cs ! i))) \<and>
    tree_open X S (ss_db (snd run)) = Inr (ss_tree (snd run))"
proof -
  have holds: "store_holds X S (snd run) cs"
    using sled_db.tree_append_all_fresh [OF assms(1-3)] run by simp
  then have "tree_open X S (ss_db (snd run)) = Inr (ss_tree (snd run))"
    using codec
    by (auto simp: store_holds_def tree_saved_def tree_open_def sled_db.cf_get_eq [OF assms(1)]
        empty_tree_def)
  moreover have "get_commitment S (word_of_nat i) (ss_db (snd run)) = Inr (Some (cs ! i))"
    if "i < length cs" for i
    using holds that assms(4)
    by (simp add: store_holds_def get_commitment_def sled_db.cf_get_eq [OF assms(1)])
  ultimately show ?thesis by blast
qed

theorem note_tree_survives_reopen_witness:
  "\<exists>X. tree_open X mem_sled (ss_db (snd (tree_append_all X mem_sled [replicate 32 1] (fresh_store mem_empty)))) =
     Inr (ss_tree (snd (tree_append_all X mem_sled [replicate 32 1] (fresh_store mem_empty))))"
proof -
  define fr where "fr = Some (replicate 32 1 :: bytes) # replicate 31 None"
  define X where "X = sample_ext\<lparr>bincode_frontier_de := (\<lambda>_. Some fr)\<rparr>"
  let ?run = "tree_append_all X mem_sled [replicate 32 1] (fresh_store mem_empty)"
  have holds: "store_holds X mem_sled (snd ?run) [replicate 32 1]"
    by (simp add: mem.tree_append_all_fresh no_tree_def mem_empty_def)
  have "frontier_of (hash_pair X) 32 [replicate 32 1 :: bytes] = fr"
    using frontier_of_Nil [of "hash_pair X" 31] by (simp add: fr_def numeral_eq_Suc)
  then have "nct_frontier (ss_tree (snd ?run)) = fr"
    using holds by (simp add: store_holds_def tree_holds_def NOTE_COMMITMENT_TREE_DEPTH_def)
  then have "tree_open X mem_sled (ss_db (snd ?run)) = Inr (ss_tree (snd ?run))"
    using note_tree_survives_reopen
      [OF mem.sled_db_axioms, of mem_empty "[replicate 32 1]" ?run X]
    by (simp add: no_tree_def mem_empty_def X_def)
  then show ?thesis by blast
qed

text \<open>
  Once all 2^32 leaves are taken, the frontier has lost every node: the root of the full
  tree is the root of the empty tree, whatever the leaves are.
\<close>

theorem full_note_tree_has_empty_root:
  assumes "sled_db S" "no_tree S db" "length cs = 2 ^ 32"
    and "run = tree_append_all X S cs (fresh_store db)"
  shows "fst run = Inr () \<and> tree_root X (ss_tree (snd run)) = tree_root X empty_tree"
proof -
  have run: "fst run = Inr () \<and> store_holds X S (snd run) cs"
    using sled_db.tree_append_all_fresh [OF assms(1,2)] assms(3,4) by simp
  then have "tree_holds X (ss_tree (snd run)) cs"
    by (simp add: store_holds_def)
  with run assms(3) show ?thesis
    by (simp add: tree_holds_root_full NOTE_COMMITMENT_TREE_DEPTH_def)
qed

theorem full_note_tree_has_empty_root_witness:
  "tree_root sample_ext (ss_tree (snd (tree_append_all sample_ext mem_sled
       (replicate (2 ^ 32) (replicate 32 1)) (fresh_store mem_empty)))) =
     tree_root sample_ext empty_tree"
  by (rule full_note_tree_has_empty_root
      [OF mem.sled_db_axioms _ length_replicate refl, THEN conjunct2])
     (simp add: no_tree_def mem_empty_def)

end
