(* ===== verification/Weighted_Choice.thy ===== *)
theory Weighted_Choice
  imports Rust_Prelude "HOL-Library.Multiset"
begin

text \<open>
  Two interfaces shared by the validator set, the leader selector and the BFT round: the
  cumulative loop that draws an element with probability proportional to its weight, and
  quorums of more than two thirds of a weighted set. The laws are what the code's loops and
  comparisons satisfy; the lemmas are proved once here.
\<close>

section \<open>The cumulative loop\<close>

definition total_weight :: "('v \<Rightarrow> u128) \<Rightarrow> 'v list \<Rightarrow> nat" where
  "total_weight w vs = sum_list (map (\<lambda>v. unat (w v)) vs)"

lemma total_weight_simps [simp]:
  "total_weight w [] = 0"
  "total_weight w (v # vs) = unat (w v) + total_weight w vs"
  by (simp_all add: total_weight_def)

lemma total_weight_mset: "mset vs = mset us \<Longrightarrow> total_weight w vs = total_weight w us"
  unfolding total_weight_def by (metis mset_map sum_mset_sum_list)

text \<open>\<open>total.max(1)\<close> guards the modulus; it changes nothing when the total is positive.\<close>

lemma max_word_1:
  fixes T :: "'a::len word"
  assumes "T \<noteq> 0"
  shows "max T 1 = T"
proof (rule max_absorb1)
  have "unat T \<noteq> 0"
    using assms by (simp add: unat_eq_0)
  then show "1 \<le> T"
    by (simp add: word_le_nat_alt)
qed

locale weighted_loop =
  fixes weight :: "'v \<Rightarrow> u128"
    and draw :: "u128 \<Rightarrow> u128 \<Rightarrow> 'v list \<Rightarrow> 'v option"
  assumes draw_Nil: "draw t acc [] = None"
    and draw_Cons: "draw t acc (v # vs) =
          (if t < acc + weight v then Some v else draw t (acc + weight v) vs)"
begin

lemma draw_member: "draw t acc vs = Some v \<Longrightarrow> v \<in> set vs"
  by (induction vs arbitrary: acc) (auto simp: draw_Nil draw_Cons split: if_splits)

lemma draw_at:
  assumes "unat acc + total_weight weight vs < 2 ^ 128" "i < length vs"
    and "unat acc + total_weight weight (take i vs) \<le> unat t"
    and "unat t < unat acc + total_weight weight (take (Suc i) vs)"
  shows "draw t acc vs = Some (vs ! i)"
  using assms
proof (induction vs arbitrary: acc i)
  case (Cons v vs)
  then have step: "unat (acc + weight v) = unat acc + unat (weight v)"
    by (simp add: unat_add_no_wrap)
  show ?case
  proof (cases i)
    case 0
    with Cons.prems step show ?thesis
      by (simp add: draw_Cons word_less_nat_alt)
  next
    case (Suc j)
    with Cons.prems step have "\<not> t < acc + weight v"
      by (simp add: word_less_nat_alt)
    moreover have "draw t (acc + weight v) vs = Some (vs ! j)"
      using Cons.prems Suc step by (intro Cons.IH) auto
    ultimately show ?thesis
      using Suc by (simp add: draw_Cons)
  qed
qed simp

lemma draw_hits:
  assumes "unat acc + total_weight weight vs < 2 ^ 128"
    and "unat acc \<le> unat t" "unat t < unat acc + total_weight weight vs"
  shows "\<exists>v. draw t acc vs = Some v \<and> v \<in> set vs \<and> weight v \<noteq> 0"
  using assms
proof (induction vs arbitrary: acc)
  case (Cons v vs)
  then have step: "unat (acc + weight v) = unat acc + unat (weight v)"
    by (simp add: unat_add_no_wrap)
  show ?case
  proof (cases "t < acc + weight v")
    case True
    then have "weight v \<noteq> 0"
      using Cons.prems(2) step by (auto simp: word_less_nat_alt)
    with True show ?thesis by (simp add: draw_Cons)
  next
    case False
    with Cons.prems step have "\<exists>u. draw t (acc + weight v) vs = Some u \<and> u \<in> set vs \<and> weight u \<noteq> 0"
      by (intro Cons.IH) (auto simp: word_less_nat_alt)
    with False show ?thesis by (auto simp: draw_Cons)
  qed
qed simp

text \<open>Every element is drawn by exactly as many targets as its weight.\<close>

lemma draw_count:
  assumes "unat acc + total_weight weight vs < 2 ^ 128" "distinct vs" "v \<in> set vs"
  shows "card {t. unat acc \<le> t \<and> t < unat acc + total_weight weight vs \<and>
      draw (word_of_nat t) acc vs = Some v} = unat (weight v)"
  using assms
proof (induction vs arbitrary: acc)
  case (Cons u vs)
  define b where "b = unat acc + unat (weight u)"
  have step: "unat (acc + weight u) = b"
    using Cons.prems by (simp add: b_def unat_add_no_wrap)
  have small: "unat (word_of_nat t :: u128) = t" if "t < b + total_weight weight vs" for t
    using that Cons.prems(1) by (simp add: b_def unat_of_nat)
  let ?hits = "{t. unat acc \<le> t \<and> t < unat acc + total_weight weight (u # vs) \<and>
      draw (word_of_nat t) acc (u # vs) = Some v}"
  have hits: "t \<in> ?hits \<longleftrightarrow> unat acc \<le> t \<and> t < b + total_weight weight vs \<and>
      (if t < b then u = v else draw (word_of_nat t) (acc + weight u) vs = Some v)" for t
    using small [of t] step by (auto simp: draw_Cons word_less_nat_alt b_def)
  show ?case
  proof (cases "u = v")
    case True
    then have "v \<notin> set vs" using Cons.prems by simp
    then have "draw (word_of_nat t) (acc + weight u) vs \<noteq> Some v" for t
      by (blast dest: draw_member)
    with True have "?hits = {unat acc..<b}"
      unfolding set_eq_iff hits by auto
    then show ?thesis
      using True by (simp add: b_def)
  next
    case False
    then have "?hits = {t. unat (acc + weight u) \<le> t \<and>
        t < unat (acc + weight u) + total_weight weight vs \<and>
        draw (word_of_nat t) (acc + weight u) vs = Some v}"
      unfolding set_eq_iff hits step by (auto simp: b_def)
    with False show ?thesis
      using Cons.IH [of "acc + weight u"] Cons.prems step by (simp add: b_def)
  qed
qed simp

end

section \<open>Quorums of more than two thirds\<close>

text \<open>
  A quorum is a set of members with more than two thirds of the total weight. Two quorums
  share more than a third of the weight, so they share an honest member when the faulty ones
  weigh at most a third.
\<close>

locale two_thirds =
  fixes members :: "'v set"
    and power :: "'v \<Rightarrow> nat"
    and quorum :: "'v set \<Rightarrow> bool"
  assumes finite_members: "finite members"
    and quorum_iff: "Q \<subseteq> members \<Longrightarrow> quorum Q \<longleftrightarrow> 3 * sum power Q > 2 * sum power members"
begin

lemma quorum_overlap:
  assumes "Q \<subseteq> members" "Q' \<subseteq> members" "quorum Q" "quorum Q'"
  shows "3 * sum power (Q \<inter> Q') > sum power members"
proof -
  have fin: "finite Q" "finite Q'"
    using assms finite_members finite_subset by blast+
  have "sum power (Q \<union> Q') \<le> sum power members"
    using assms by (intro sum_mono2 finite_members) auto
  moreover have "sum power (Q \<union> Q') + sum power (Q \<inter> Q') = sum power Q + sum power Q'"
    by (rule sum.union_inter [OF fin])
  ultimately show ?thesis
    using assms quorum_iff by fastforce
qed

lemma quorums_share_honest:
  assumes "Q \<subseteq> members" "Q' \<subseteq> members" "quorum Q" "quorum Q'"
    and "faulty \<subseteq> members" "3 * sum power faulty \<le> sum power members"
  shows "\<exists>v. v \<in> Q \<and> v \<in> Q' \<and> v \<notin> faulty"
proof (rule ccontr)
  assume "\<nexists>v. v \<in> Q \<and> v \<in> Q' \<and> v \<notin> faulty"
  then have "Q \<inter> Q' \<subseteq> faulty" by blast
  then have "sum power (Q \<inter> Q') \<le> sum power faulty"
    using assms(5) finite_members by (intro sum_mono2) (auto dest: finite_subset)
  with quorum_overlap [OF assms(1-4)] assms(6) show False by linarith
qed

lemma quorum_mono:
  assumes "quorum Q" "Q \<subseteq> Q'" "Q' \<subseteq> members"
  shows "quorum Q'"
proof -
  have "sum power Q \<le> sum power Q'"
    using assms finite_members by (intro sum_mono2) (auto dest: finite_subset)
  then show ?thesis
    using assms quorum_iff [of Q] quorum_iff [of Q'] by auto
qed

end

end
