(* ===== verification/Validators.thy ===== *)
theory Validators
  imports Tx_Format Weighted_Choice
begin

text \<open>
  Stake entries and the validator set of an epoch (crates/noirnet-types/src/validator.rs):
  construction, lookup, the two quorum tests and the stake-weighted leader election. The
  election loop is an instance of \<open>weighted_loop\<close>, the stake quorum of \<open>two_thirds\<close>.
  \<open>StakeEntry::voting_power\<close>, a floating-point ratio no consensus decision reads, is in
  \<open>Voting_Power\<close>.
\<close>

section \<open>Stake entries\<close>

text \<open>\<open>StakeEntry::id\<close>: the first 32 bytes of the 48-byte BLS key.\<close>

definition se_id :: "stake_entry \<Rightarrow> bytes" where
  "se_id v = take 32 (se_bls_pubkey v)"

definition se_is_active :: "stake_entry \<Rightarrow> bool" where
  "se_is_active v \<longleftrightarrow> se_status v = Active"

section \<open>Validator sets\<close>

record validator_set =
  vset_epoch :: u64
  vset_validators :: "stake_entry list"
  vset_total_stake :: u128
  vset_quorum_threshold :: usize

text \<open>\<open>ValidatorSet::default\<close>\<close>

definition validator_set_default :: validator_set where
  "validator_set_default =
     \<lparr>vset_epoch = 0, vset_validators = [], vset_total_stake = 0, vset_quorum_threshold = 0\<rparr>"

text \<open>
  \<open>ValidatorSet::new\<close>. \<open>sort_by(|a, b| b.total_stake.cmp(&a.total_stake))\<close> is a stable sort,
  descending in the stake.
\<close>

definition validator_set_new :: "u64 \<Rightarrow> stake_entry list \<Rightarrow> validator_set" where
  "validator_set_new epoch validators =
     (let active = filter (\<lambda>v. se_status v = Active) validators;
          sorted = sort_key (\<lambda>v. - uint (se_total_stake v)) active;
          n = length sorted
      in \<lparr>vset_epoch = epoch, vset_validators = sorted,
          vset_total_stake = sum_list (map se_total_stake sorted),
          vset_quorum_threshold = (n * 2) div 3 + 1\<rparr>)"

definition vset_is_empty :: "validator_set \<Rightarrow> bool" where
  "vset_is_empty vs \<longleftrightarrow> vset_validators vs = []"

definition vset_len :: "validator_set \<Rightarrow> usize" where
  "vset_len vs = length (vset_validators vs)"

definition get_by_id :: "validator_set \<Rightarrow> bytes \<Rightarrow> stake_entry option" where
  "get_by_id vs i = find (\<lambda>v. se_id v = i) (vset_validators vs)"

definition vset_has_quorum :: "validator_set \<Rightarrow> usize \<Rightarrow> bool" where
  "vset_has_quorum vs signed_count \<longleftrightarrow> signed_count \<ge> vset_quorum_threshold vs"

definition vset_has_stake_quorum :: "validator_set \<Rightarrow> u128 \<Rightarrow> bool" where
  "vset_has_stake_quorum vs signed_stake \<longleftrightarrow> signed_stake * 3 > vset_total_stake vs * 2"

text \<open>The loop of \<open>ValidatorSet::elect_leader\<close>, which adds the stake and then compares.\<close>

fun elect_loop :: "u128 \<Rightarrow> u128 \<Rightarrow> stake_entry list \<Rightarrow> stake_entry option" where
  "elect_loop threshold cumulative [] = None"
| "elect_loop threshold cumulative (v # vs) =
     (let cumulative = cumulative + se_total_stake v
      in if threshold < cumulative then Some v else elect_loop threshold cumulative vs)"

definition elect_leader :: "validator_set \<Rightarrow> bytes \<Rightarrow> u64 \<Rightarrow> stake_entry option" where
  "elect_leader vs vrf_output epoch =
     (if vset_validators vs = [] then None
      else let rand_val = u128_from_le (take 16 vrf_output);
               threshold = rand_val mod max (vset_total_stake vs) 1
           in case elect_loop threshold 0 (vset_validators vs) of
                Some v \<Rightarrow> Some v
              | None \<Rightarrow> Some (hd (vset_validators vs)))"

interpretation election: weighted_loop se_total_stake elect_loop
  by unfold_locales (simp_all add: Let_def)

section \<open>Construction\<close>

text \<open>A validator set used in examples: two active validators and a jailed one.\<close>

definition sample_entry :: "u8 \<Rightarrow> u128 \<Rightarrow> validator_status \<Rightarrow> stake_entry" where
  "sample_entry k stake status =
     \<lparr>se_bls_pubkey = replicate 48 k, se_network_pubkey = replicate 32 k, se_total_stake = stake,
      se_status = status, se_epoch_joined = 0\<rparr>"

definition sample_entries :: "stake_entry list" where
  "sample_entries = [sample_entry 1 1 Active, sample_entry 2 4 (Jailed 7), sample_entry 3 2 Active]"

lemma active_sample_entries:
  "filter (\<lambda>v. se_status v = Active) sample_entries = [sample_entry 1 1 Active, sample_entry 3 2 Active]"
  by (simp add: sample_entries_def sample_entry_def)

lemma sample_entry_simps [simp]:
  "se_total_stake (sample_entry k stake status) = stake"
  "se_status (sample_entry k stake status) = status"
  by (simp_all add: sample_entry_def)

lemma sample_entry_inject [simp]:
  "sample_entry k stake status = sample_entry k' stake' status' \<longleftrightarrow>
     k = k' \<and> stake = stake' \<and> status = status'"
  by (auto simp: sample_entry_def)

lemma validator_set_new_simps [simp]:
  "vset_epoch (validator_set_new e vs) = e"
  "vset_validators (validator_set_new e vs) =
     sort_key (\<lambda>v. - uint (se_total_stake v)) (filter (\<lambda>v. se_status v = Active) vs)"
  "vset_quorum_threshold (validator_set_new e vs) =
     (length (filter (\<lambda>v. se_status v = Active) vs) * 2) div 3 + 1"
  by (simp_all add: validator_set_new_def Let_def)

lemma total_weight_sort_key [simp]: "total_weight w (sort_key f vs) = total_weight w vs"
  by (rule total_weight_mset) simp

lemma unat_total_stake:
  "total_weight se_total_stake vs < 2 ^ 128 \<Longrightarrow>
   unat (sum_list (map se_total_stake vs)) = total_weight se_total_stake vs"
  unfolding total_weight_def by (subst unat_sum_list_no_wrap) (simp_all add: comp_def)

abbreviation active_entries :: "stake_entry list \<Rightarrow> stake_entry list" where
  "active_entries vs \<equiv> filter (\<lambda>v. se_status v = Active) vs"

lemma vset_total_stake_new:
  assumes "total_weight se_total_stake (active_entries vs) < 2 ^ 128"
  shows "unat (vset_total_stake (validator_set_new e vs)) = total_weight se_total_stake (active_entries vs)"
proof -
  have "vset_total_stake (validator_set_new e vs) =
      sum_list (map se_total_stake (sort_key (\<lambda>v. - uint (se_total_stake v)) (active_entries vs)))"
    by (simp add: validator_set_new_def Let_def)
  then show ?thesis
    using assms by (simp add: unat_total_stake)
qed

text \<open>
  A validator set holds exactly the active entries it was built from, each as often as it
  was given, ordered by stake from high to low, and its total is the sum of their stakes when
  that sum fits 128 bits.
\<close>

theorem validator_set_new_contents:
  assumes "total_weight se_total_stake (active_entries vs) < 2 ^ 128"
  shows "mset (vset_validators (validator_set_new e vs)) = mset (active_entries vs) \<and>
    sorted_wrt (\<lambda>a b. se_total_stake a \<ge> se_total_stake b) (vset_validators (validator_set_new e vs)) \<and>
    (\<forall>v \<in> set (vset_validators (validator_set_new e vs)). se_is_active v) \<and>
    unat (vset_total_stake (validator_set_new e vs)) = total_weight se_total_stake (active_entries vs)"
proof -
  let ?k = "\<lambda>v. - uint (se_total_stake v)"
  have "sorted (map ?k (sort_key ?k (active_entries vs)))"
    by simp
  then have "sorted_wrt (\<lambda>a b. se_total_stake a \<ge> se_total_stake b) (sort_key ?k (active_entries vs))"
    unfolding sorted_map by (simp add: word_le_def)
  then show ?thesis
    using vset_total_stake_new [OF assms] by (simp add: se_is_active_def)
qed

theorem validator_set_new_contents_witness:
  "unat (vset_total_stake (validator_set_new 0 sample_entries)) = 3"
  using validator_set_new_contents [of sample_entries 0] by (simp add: active_sample_entries)

section \<open>Quorums\<close>

text \<open>
  The precomputed threshold is the two-thirds rule: a number of signatures reaches the
  quorum of a validator set exactly when three times it exceeds twice the number of validators.
\<close>

theorem vset_has_quorum_iff_two_thirds:
  "vset_has_quorum (validator_set_new e vs) k \<longleftrightarrow>
     3 * k > 2 * vset_len (validator_set_new e vs)"
  by (simp add: vset_has_quorum_def vset_len_def) presburger

text \<open>The stake quorum of a list of validators, as sets of positions.\<close>

definition stake_of :: "stake_entry list \<Rightarrow> nat set \<Rightarrow> u128" where
  "stake_of vs I = sum_list (map (\<lambda>i. se_total_stake (vs ! i)) (sorted_list_of_set I))"

interpretation stake_votes: two_thirds "{..<length vs}" "\<lambda>i. unat (se_total_stake (vs ! i))"
  "\<lambda>I. 3 * (\<Sum>i\<in>I. unat (se_total_stake (vs ! i))) > 2 * (\<Sum>i<length vs. unat (se_total_stake (vs ! i)))"
  for vs
  by unfold_locales simp_all

lemma total_weight_nth: "total_weight w vs = (\<Sum>i<length vs. unat (w (vs ! i)))"
  unfolding total_weight_def by (simp add: sum_list_sum_nth atLeast0LessThan)

lemma unat_stake_of:
  assumes "total_weight se_total_stake vs < 2 ^ 128" "I \<subseteq> {..<length vs}"
  shows "unat (stake_of vs I) = (\<Sum>i\<in>I. unat (se_total_stake (vs ! i)))"
proof -
  have fin: "finite I" using assms(2) finite_subset by blast
  have eq: "sum_list (map (\<lambda>i. unat (se_total_stake (vs ! i))) (sorted_list_of_set I)) =
      (\<Sum>i\<in>I. unat (se_total_stake (vs ! i)))"
    using fin by (simp add: sum_list_distinct_conv_sum_set)
  also have "\<dots> \<le> (\<Sum>i<length vs. unat (se_total_stake (vs ! i)))"
    using assms(2) by (intro sum_mono2) auto
  finally have "sum_list (map unat (map (\<lambda>i. se_total_stake (vs ! i)) (sorted_list_of_set I))) < 2 ^ LENGTH(128)"
    using assms(1) by (simp add: total_weight_nth comp_def)
  then show ?thesis
    using eq by (simp add: stake_of_def unat_sum_list_no_wrap comp_def)
qed

text \<open>
  If two sets of signers (positions in the validator list) both pass the stake quorum test,
  the signers they have in common hold more than a third of the total stake; so at least one
  of them is honest when the faulty validators hold at most a third.
\<close>

theorem stake_quorums_share_honest_validator:
  assumes fits: "3 * total_weight se_total_stake (vset_validators vs) < 2 ^ 128"
    and total: "vset_total_stake vs = sum_list (map se_total_stake (vset_validators vs))"
    and signers: "I \<subseteq> {..<vset_len vs}" "J \<subseteq> {..<vset_len vs}"
    and quorums: "vset_has_stake_quorum vs (stake_of (vset_validators vs) I)"
      "vset_has_stake_quorum vs (stake_of (vset_validators vs) J)"
    and faulty: "F \<subseteq> {..<vset_len vs}" "3 * unat (stake_of (vset_validators vs) F) \<le> unat (vset_total_stake vs)"
  shows "\<exists>i. i \<in> I \<and> i \<in> J \<and> i \<notin> F"
proof -
  let ?v = "vset_validators vs"
  let ?w = "\<lambda>i. unat (se_total_stake (?v ! i))"
  have small: "total_weight se_total_stake ?v < 2 ^ 128"
    using fits by simp
  have T: "unat (vset_total_stake vs) = sum ?w {..<length ?v}"
    using unat_total_stake [OF small] total by (simp add: total_weight_nth)
  have le: "sum ?w K \<le> sum ?w {..<length ?v}" if "K \<subseteq> {..<length ?v}" for K
    using that by (intro sum_mono2) auto
  have "2 * sum ?w {..<length ?v} < 3 * sum ?w K"
    if K: "K \<subseteq> {..<length ?v}" and q: "vset_has_stake_quorum vs (stake_of ?v K)" for K
  proof -
    have "3 * sum ?w K < 2 ^ 128" "2 * sum ?w {..<length ?v} < 2 ^ 128"
      using le [OF K] fits by (simp_all add: total_weight_nth)
    then have "unat (stake_of ?v K * 3) = 3 * sum ?w K"
      and "unat (vset_total_stake vs * 2) = 2 * sum ?w {..<length ?v}"
      using unat_stake_of [OF small K] T by (simp_all add: unat_word_ariths mult.commute)
    then show ?thesis
      using q by (simp add: vset_has_stake_quorum_def word_less_nat_alt)
  qed
  then show ?thesis
    using stake_votes.quorums_share_honest [of I ?v J F] signers quorums faulty
      unat_stake_of [OF small, of F] T by (simp add: vset_len_def)
qed

theorem stake_quorums_share_honest_validator_witness:
  "\<exists>i. i \<in> {0 :: nat} \<and> i \<in> {0, 1 :: nat} \<and> i \<notin> {1 :: nat}"
proof -
  let ?vs = "\<lparr>vset_epoch = 0, vset_validators = [sample_entry 3 3 Active, sample_entry 1 1 Active],
    vset_total_stake = 4, vset_quorum_threshold = 2\<rparr>"
  show ?thesis
    by (rule stake_quorums_share_honest_validator [of ?vs "{0}" "{0, 1}" "{1}"])
      (simp_all add: vset_len_def vset_has_stake_quorum_def stake_of_def)
qed

section \<open>Leader election\<close>

text \<open>
  Whenever the stakes fit 128 bits and are not all zero, the leader of a validator set is
  one of its active validators with a positive stake, whatever the VRF output: the fallback to
  the first validator is not taken.
\<close>

theorem elect_leader_is_staked_validator:
  assumes fits: "total_weight se_total_stake (active_entries vs) < 2 ^ 128"
    and pos: "total_weight se_total_stake (active_entries vs) > 0"
  shows "\<exists>v. elect_leader (validator_set_new e vs) vrf epoch = Some v \<and>
    v \<in> set vs \<and> se_is_active v \<and> se_total_stake v \<noteq> 0"
proof -
  define T where "T = vset_total_stake (validator_set_new e vs)"
  define sorted where "sorted = vset_validators (validator_set_new e vs)"
  have T: "unat T = total_weight se_total_stake sorted"
    using vset_total_stake_new [OF fits, of e] by (simp add: T_def sorted_def)
  then have "T \<noteq> 0"
    using pos by (auto simp: sorted_def)
  then have max: "max T 1 = T"
    by (rule max_word_1)
  let ?t = "u128_from_le (take 16 vrf) mod max T 1"
  have "unat ?t < total_weight se_total_stake sorted"
    using T pos max by (simp add: unat_mod sorted_def)
  then obtain v where v: "elect_loop ?t 0 sorted = Some v" "v \<in> set sorted" "se_total_stake v \<noteq> 0"
    using election.draw_hits [of 0 sorted ?t] fits by (auto simp: sorted_def)
  moreover have "sorted \<noteq> []"
    using v(2) by auto
  ultimately show ?thesis
    by (auto simp: elect_leader_def Let_def T_def sorted_def se_is_active_def)
qed

theorem elect_leader_is_staked_validator_witness:
  "\<exists>v. elect_leader (validator_set_new 0 sample_entries) (replicate 32 7) 0 = Some v \<and>
    v \<in> set sample_entries \<and> se_is_active v \<and> se_total_stake v \<noteq> 0"
  by (rule elect_leader_is_staked_validator) (simp_all add: active_sample_entries)

text \<open>A VRF output that carries the number \<open>r\<close> in its first 16 bytes.\<close>

definition vrf_of_nat :: "nat \<Rightarrow> bytes" where
  "vrf_of_nat r = nat_to_le 16 r @ replicate 16 0"

lemma u128_from_vrf_of_nat: "u128_from_le (take 16 (vrf_of_nat r)) = word_of_nat r"
proof -
  have "word_of_nat (r mod 256 ^ 16) = (word_of_nat r :: u128)"
    by (simp add: word_of_nat_eq_iff take_bit_eq_mod)
  then show ?thesis
    by (simp add: vrf_of_nat_def u128_from_le_def le_to_nat_nat_to_le)
qed

text \<open>
  C30: election is proportional to stake. Among the VRF values below the total stake, the number
  that elect a given active validator is exactly that validator's stake.
\<close>

theorem elect_leader_proportional:
  assumes fits: "total_weight se_total_stake (active_entries vs) < 2 ^ 128"
    and "distinct vs" "v \<in> set vs" "se_is_active v"
  shows "card {r. r < total_weight se_total_stake (active_entries vs) \<and>
      elect_leader (validator_set_new e vs) (vrf_of_nat r) epoch = Some v} = unat (se_total_stake v)"
proof -
  define T where "T = vset_total_stake (validator_set_new e vs)"
  define sorted where "sorted = vset_validators (validator_set_new e vs)"
  have W: "total_weight se_total_stake (active_entries vs) = total_weight se_total_stake sorted"
    by (simp add: sorted_def)
  have T: "unat T = total_weight se_total_stake sorted"
    using vset_total_stake_new [OF fits, of e] by (simp add: T_def W)
  have v: "v \<in> set sorted" and dist: "distinct sorted"
    using assms by (simp_all add: sorted_def se_is_active_def)
  then have ne: "sorted \<noteq> []" by auto
  have "elect_leader (validator_set_new e vs) (vrf_of_nat r) epoch = elect_loop (word_of_nat r) 0 sorted"
    if r: "r < total_weight se_total_stake sorted" for r
  proof -
    have ur: "unat (word_of_nat r :: u128) = r"
      using r fits W by (simp add: unat_of_nat)
    have "T \<noteq> 0" using T r by auto
    then have "max T 1 = T"
      by (rule max_word_1)
    then have "(word_of_nat r :: u128) mod max T 1 = word_of_nat r"
      using ur r T by (simp add: word_arith_nat_mod)
    moreover have "elect_loop (word_of_nat r) 0 sorted \<noteq> None"
      using election.draw_hits [of 0 sorted "word_of_nat r"] fits W ur r by auto
    ultimately show ?thesis
      using ne by (auto simp: elect_leader_def Let_def u128_from_vrf_of_nat T_def sorted_def)
  qed
  then have "{r. r < total_weight se_total_stake (active_entries vs) \<and>
      elect_leader (validator_set_new e vs) (vrf_of_nat r) epoch = Some v} =
    {t. unat (0 :: u128) \<le> t \<and> t < unat (0 :: u128) + total_weight se_total_stake sorted \<and>
      elect_loop (word_of_nat t) 0 sorted = Some v}"
    unfolding W by auto
  with election.draw_count [of 0 sorted v] fits W v dist show ?thesis by simp
qed

theorem elect_leader_proportional_witness:
  "card {r. r < 3 \<and> elect_leader (validator_set_new 0 sample_entries) (vrf_of_nat r) 5 =
      Some (sample_entry 3 2 Active)} = 2"
  using elect_leader_proportional [of sample_entries "sample_entry 3 2 Active" 0 5]
  by (simp add: active_sample_entries)
    (simp add: sample_entries_def se_is_active_def numeral_3_eq_3)

end
