(* ===== verification/State_Store.thy ===== *)
theory State_Store
  imports Merkle Validators
begin

text \<open>
  The state manager (crates/noirnet-storage/src/state.rs): block application, anchors,
  contract code and state, validators and pruning, over one sled database and the note
  commitment tree. The mutexes serialise every operation that changes state, so an operation
  is one function of the state. The last section states the abstract ledger the manager
  implements: a height, a set of spent nullifiers, a list of leaves and the finite maps of the
  other trees.
\<close>

section \<open>Opening and reading\<close>

text \<open>\<open>StateStore::open\<close>\<close>

definition state_open :: "ext \<Rightarrow> 'db sled \<Rightarrow> 'db \<Rightarrow> storage_error + 'db state_store" where
  "state_open X S db =
     (case tree_open X S db of Inl e \<Rightarrow> Inl e | Inr t \<Rightarrow> Inr \<lparr>ss_db = db, ss_tree = t\<rparr>)"

definition state_root :: "ext \<Rightarrow> 'db state_store \<Rightarrow> hash32" where
  "state_root X s = tree_root X (ss_tree s)"

definition chain_height_key :: bytes where
  "chain_height_key = ascii ''chain_height''"

definition height_key :: "u64 \<Rightarrow> bytes" where
  "height_key h = ascii ''height_hash_'' @ u64_to_le h"

definition get_chain_height :: "'db sled \<Rightarrow> 'db \<Rightarrow> storage_error + u64" where
  "get_chain_height S db =
     (case cf_get S CF_META chain_height_key db of
        Inl e \<Rightarrow> Inl e
      | Inr (Some bs) \<Rightarrow> Inr (u64_from_slice bs)
      | Inr None \<Rightarrow> Inr 0)"

definition has_blocks :: "'db sled \<Rightarrow> 'db \<Rightarrow> storage_error + bool" where
  "has_blocks S db =
     (case cf_get S CF_META chain_height_key db of Inl e \<Rightarrow> Inl e | Inr opt \<Rightarrow> Inr (opt \<noteq> None))"

definition is_valid_anchor :: "'db sled \<Rightarrow> hash32 \<Rightarrow> u64 \<Rightarrow> 'db \<Rightarrow> storage_error + bool" where
  "is_valid_anchor S anchor current_height db =
     (case cf_get S CF_ANCHORS anchor db of
        Inl e \<Rightarrow> Inl e
      | Inr (Some bs) \<Rightarrow> Inr (current_height \<le> u64_from_slice bs)
      | Inr None \<Rightarrow> Inr False)"

definition get_block_by_height :: "ext \<Rightarrow> 'db sled \<Rightarrow> u64 \<Rightarrow> 'db \<Rightarrow> storage_error + block option" where
  "get_block_by_height X S height db =
     (case cf_get S CF_META (height_key height) db of
        Inl e \<Rightarrow> Inl e
      | Inr None \<Rightarrow> Inr None
      | Inr (Some hash_bytes) \<Rightarrow>
          (if length hash_bytes \<noteq> 32 then Inl StoragePanic else get_block X S hash_bytes db))"

section \<open>Block application\<close>

definition apply_spend :: "'db sled \<Rightarrow> u64 \<Rightarrow> hash32 \<Rightarrow> ('db state_store, unit) storage_op" where
  "apply_spend S height nf =
     andThen (reading (\<lambda>s. nullifier_contains S nf (ss_db s)))
       (\<lambda>present. if present then err StorageDoubleSpend
                  else on_db (tree_insert S CF_NULLIFIERS nf (u64_to_le height)))"

definition apply_output :: "ext \<Rightarrow> 'db sled \<Rightarrow> hash32 \<Rightarrow> ('db state_store, unit) storage_op" where
  "apply_output X S c s =
     (let leaf_idx = nct_size (ss_tree s)
      in andThen (tree_append X S c)
           (\<lambda>_. on_db (tree_insert S CF_COMMITMENTS (u64_to_be leaf_idx) c)) s)"

definition apply_tx :: "ext \<Rightarrow> 'db sled \<Rightarrow> u64 \<Rightarrow> transaction \<Rightarrow> ('db state_store, unit) storage_op" where
  "apply_tx X S height tx =
     andThen (forEach (\<lambda>spend. apply_spend S height (sd_nullifier spend)) (tx_spends tx))
       (\<lambda>_. forEach (\<lambda>out. apply_output X S (od_note_commitment out)) (tx_outputs tx))"

text \<open>
  The second half of \<open>apply_block\<close>, once the transactions have gone in: anchor, contract
  code, contract state, block and height. \<open>contract_state_changes\<close> is a \<open>HashMap\<close>, here its
  entries in the order the iteration yields them.
\<close>

definition commit_block ::
  "ext \<Rightarrow> 'db sled \<Rightarrow> block \<Rightarrow> (bytes \<times> bytes) list \<Rightarrow> (hash32 \<times> bytes) list \<Rightarrow> hash32 \<Rightarrow>
    ('db, unit) storage_op" where
  "commit_block X S b contract_state_changes new_contracts new_state_root =
     (let height = bh_height (blk_header b)
      in andThen (tree_insert S CF_ANCHORS new_state_root (u64_to_le (height + ANCHOR_EXPIRY_BLOCKS))) (\<lambda>_.
         andThen (open_tree S CF_CONTRACTS) (\<lambda>_.
         andThen (forEach (\<lambda>(k, v). tree_insert S CF_CONTRACTS k v) new_contracts) (\<lambda>_.
         andThen (open_tree S CF_CONTRACT_STATE) (\<lambda>_.
         andThen (forEach (\<lambda>(k, v). tree_insert S CF_CONTRACT_STATE k v) contract_state_changes) (\<lambda>_.
         andThen (put_block X S b) (\<lambda>_.
         andThen (open_tree S CF_META) (\<lambda>_.
         andThen (tree_insert S CF_META chain_height_key (u64_to_le height)) (\<lambda>_.
         tree_insert S CF_META (height_key height) (block_hash_of X b))))))))))"

definition apply_block ::
  "ext \<Rightarrow> 'db sled \<Rightarrow> block \<Rightarrow> (bytes \<times> bytes) list \<Rightarrow> (hash32 \<times> bytes) list \<Rightarrow>
    ('db state_store, hash32) storage_op" where
  "apply_block X S b contract_state_changes new_contracts =
     andThen (reading (\<lambda>s. get_chain_height S (ss_db s))) (\<lambda>current_height.
     andThen (reading (\<lambda>s. has_blocks S (ss_db s))) (\<lambda>has.
     let expected_height = (if \<not> has then 0 else current_height + 1)
     in if bh_height (blk_header b) \<noteq> expected_height
        then err (InvalidTransition expected_height (bh_height (blk_header b)))
        else
          andThen (on_db (open_tree S CF_NULLIFIERS)) (\<lambda>_.
          andThen (on_db (open_tree S CF_COMMITMENTS)) (\<lambda>_.
          andThen (on_db (open_tree S CF_ANCHORS)) (\<lambda>_.
          andThen (forEach (apply_tx X S (bh_height (blk_header b))) (blk_transactions b)) (\<lambda>_.
          andThen (reading (\<lambda>s. Inr (tree_root X (ss_tree s)))) (\<lambda>new_state_root.
          andThen (on_db (commit_block X S b contract_state_changes new_contracts new_state_root)) (\<lambda>_.
          ok new_state_root))))))))"

section \<open>Contracts and validators\<close>

definition get_contract_code :: "'db sled \<Rightarrow> hash32 \<Rightarrow> 'db \<Rightarrow> storage_error + bytes option" where
  "get_contract_code S contract_id db = cf_get S CF_CONTRACTS contract_id db"

definition get_contract_state :: "'db sled \<Rightarrow> hash32 \<Rightarrow> bytes \<Rightarrow> 'db \<Rightarrow> storage_error + bytes option" where
  "get_contract_state S contract_id key db = cf_get S CF_CONTRACT_STATE (contract_id @ key) db"

text \<open>The loop over \<open>scan_prefix\<close>, the result a map from the contract's own keys.\<close>

fun collect_state :: "(sled_error + bytes \<times> bytes) list \<Rightarrow> (bytes \<rightharpoonup> bytes) \<Rightarrow> storage_error + (bytes \<rightharpoonup> bytes)" where
  "collect_state [] result = Inr result"
| "collect_state (Inl e # items) result = Inl (Sled e)"
| "collect_state (Inr (key, val) # items) result =
     collect_state items (if length key \<ge> 32 then result(drop 32 key \<mapsto> val) else result)"

definition get_contract_state_all :: "'db sled \<Rightarrow> hash32 \<Rightarrow> 'db \<Rightarrow> storage_error + (bytes \<rightharpoonup> bytes)" where
  "get_contract_state_all S contract_id db =
     (case sled_open S db CF_CONTRACT_STATE of
        Inl e \<Rightarrow> Inl (Sled e)
      | Inr _ \<Rightarrow> collect_state (sled_scan_prefix S db CF_CONTRACT_STATE contract_id) Map.empty)"

text \<open>\<open>tree.iter()\<close> is the scan with the empty prefix.\<close>

fun decode_validators :: "ext \<Rightarrow> (sled_error + bytes \<times> bytes) list \<Rightarrow> storage_error + validator_state list" where
  "decode_validators X [] = Inr []"
| "decode_validators X (Inl e # items) = Inl (Sled e)"
| "decode_validators X (Inr (key, val) # items) =
     (case bincode_validator_de X val of
        None \<Rightarrow> Inl Serialization
      | Some vs \<Rightarrow>
          (case decode_validators X items of Inl e \<Rightarrow> Inl e | Inr result \<Rightarrow> Inr (vs # result)))"

definition get_all_validators :: "ext \<Rightarrow> 'db sled \<Rightarrow> 'db \<Rightarrow> storage_error + validator_state list" where
  "get_all_validators X S db =
     (case sled_open S db CF_VALIDATORS of
        Inl e \<Rightarrow> Inl (Sled e)
      | Inr _ \<Rightarrow> decode_validators X (sled_scan_prefix S db CF_VALIDATORS []))"

definition stake_entry_of :: "validator_state \<Rightarrow> stake_entry" where
  "stake_entry_of v =
     \<lparr>se_bls_pubkey = vr_bls_pubkey (vs_registration v),
      se_network_pubkey = vr_network_pubkey (vs_registration v),
      se_total_stake = vs_total_stake v, se_status = vs_status v,
      se_epoch_joined = vr_epoch (vs_registration v)\<rparr>"

definition get_validator_set :: "ext \<Rightarrow> 'db sled \<Rightarrow> u64 \<Rightarrow> 'db \<Rightarrow> storage_error + validator_set" where
  "get_validator_set X S epoch db =
     (case get_all_validators X S db of
        Inl e \<Rightarrow> Inl e
      | Inr all \<Rightarrow>
          Inr (validator_set_new epoch
            (map stake_entry_of (filter (\<lambda>v. vr_epoch (vs_registration v) \<le> epoch) all))))"

section \<open>Pruning\<close>

text \<open>The body of the loop over the heights, with the counter it adds to.\<close>

definition prune_one :: "ext \<Rightarrow> 'db sled \<Rightarrow> u64 \<Rightarrow> u64 \<Rightarrow> ('db, u64) storage_op" where
  "prune_one X S h pruned_count =
     andThen (tree_remove S CF_META (height_key h)) (\<lambda>removed.
       case removed of
         None \<Rightarrow> ok pruned_count
       | Some hash_bytes \<Rightarrow>
           (if length hash_bytes \<noteq> 32 then err StoragePanic
            else andThen (delete_block X S hash_bytes) (\<lambda>_. ok (pruned_count + 1))))"

fun prune_loop :: "ext \<Rightarrow> 'db sled \<Rightarrow> u64 list \<Rightarrow> u64 \<Rightarrow> ('db, u64) storage_op" where
  "prune_loop X S [] pruned_count = ok pruned_count"
| "prune_loop X S (h # hs) pruned_count =
     andThen (prune_one X S h pruned_count) (\<lambda>n. prune_loop X S hs n)"

definition prune_history :: "ext \<Rightarrow> 'db sled \<Rightarrow> u64 \<Rightarrow> ('db, u64) storage_op" where
  "prune_history X S keep_last =
     andThen (reading (get_chain_height S)) (\<lambda>height.
       if height \<le> keep_last then ok 0
       else andThen (open_tree S CF_META) (\<lambda>_.
              prune_loop X S (map word_of_nat [0..<unat (height - keep_last)]) 0))"

end
