(* ===== verification/Ledger.thy ===== *)
theory Ledger
  imports State_Store
begin

text \<open>
  The abstract ledger that the state manager implements, and the refinement: over a faultless
  database, \<open>apply_block\<close> accepts exactly the blocks the ledger accepts and moves to a store
  that represents the ledger's next state. The chain properties follow from it.
\<close>

section \<open>The abstract ledger\<close>

record ledger =
  lg_height :: "u64 option"
  lg_spent :: "hash32 set"
  lg_leaves :: "hash32 list"
  lg_anchors :: "hash32 \<rightharpoonup> u64"
  lg_contracts :: "hash32 \<rightharpoonup> bytes"
  lg_contract_state :: "bytes \<rightharpoonup> bytes"
  lg_blocks :: "hash32 \<rightharpoonup> block"
  lg_txs :: "hash32 \<rightharpoonup> transaction"
  lg_hashes :: "u64 \<rightharpoonup> hash32"

definition empty_ledger :: ledger where
  "empty_ledger = \<lparr>lg_height = None, lg_spent = {}, lg_leaves = [], lg_anchors = Map.empty,
     lg_contracts = Map.empty, lg_contract_state = Map.empty, lg_blocks = Map.empty,
     lg_txs = Map.empty, lg_hashes = Map.empty\<rparr>"

definition next_height :: "ledger \<Rightarrow> u64" where
  "next_height L = (case lg_height L of None \<Rightarrow> 0 | Some h \<Rightarrow> h + 1)"

definition ledger_root :: "ext \<Rightarrow> ledger \<Rightarrow> hash32" where
  "ledger_root X L = merkle_root (hash_pair X) Hash32_ZERO NOTE_COMMITMENT_TREE_DEPTH (lg_leaves L)"

text \<open>The nullifiers of a block can be spent: no repetition, and none is spent already.\<close>

definition spendable :: "hash32 set \<Rightarrow> block \<Rightarrow> bool" where
  "spendable spent b \<longleftrightarrow> distinct (block_nullifiers b) \<and> set (block_nullifiers b) \<inter> spent = {}"

definition ledger_commit ::
  "ext \<Rightarrow> block \<Rightarrow> (bytes \<times> bytes) list \<Rightarrow> (hash32 \<times> bytes) list \<Rightarrow> ledger \<Rightarrow> ledger" where
  "ledger_commit X b changes contracts L =
     (let h = bh_height (blk_header b);
          leaves = lg_leaves L @ block_commitments b;
          root = merkle_root (hash_pair X) Hash32_ZERO NOTE_COMMITMENT_TREE_DEPTH leaves
      in \<lparr>lg_height = Some h,
          lg_spent = lg_spent L \<union> set (block_nullifiers b),
          lg_leaves = leaves,
          lg_anchors = (lg_anchors L)(root \<mapsto> h + ANCHOR_EXPIRY_BLOCKS),
          lg_contracts = lg_contracts L ++ map_of (rev contracts),
          lg_contract_state = lg_contract_state L ++ map_of (rev changes),
          lg_blocks = (lg_blocks L)(block_hash_of X b \<mapsto> b),
          lg_txs = lg_txs L ++ map_of (rev (map (\<lambda>tx. (tx_id_of X tx, tx)) (blk_transactions b))),
          lg_hashes = (lg_hashes L)(h \<mapsto> block_hash_of X b)\<rparr>)"

definition ledger_apply ::
  "ext \<Rightarrow> block \<Rightarrow> (bytes \<times> bytes) list \<Rightarrow> (hash32 \<times> bytes) list \<Rightarrow> ledger \<Rightarrow> ledger option" where
  "ledger_apply X b changes contracts L =
     (if bh_height (blk_header b) = next_height L \<and> spendable (lg_spent L) b
      then Some (ledger_commit X b changes contracts L) else None)"

section \<open>Representation\<close>

definition ledger_trees :: "ext \<Rightarrow> 'db sled \<Rightarrow> (string \<Rightarrow> bytes \<rightharpoonup> bytes) \<Rightarrow> ledger \<Rightarrow> bool" where
  "ledger_trees X S V L \<longleftrightarrow>
     V CF_META chain_height_key = map_option u64_to_le (lg_height L) \<and>
     (\<forall>h. V CF_META (height_key h) = lg_hashes L h) \<and>
     V CF_ANCHORS = map_option u64_to_le \<circ> lg_anchors L \<and>
     V CF_CONTRACTS = lg_contracts L \<and>
     V CF_CONTRACT_STATE = lg_contract_state L \<and>
     V CF_BLOCKS = map_option (bincode_block X) \<circ> lg_blocks L \<and>
     V CF_TXS = map_option (bincode_tx X) \<circ> lg_txs L"

definition represents :: "ext \<Rightarrow> 'db sled \<Rightarrow> 'db state_store \<Rightarrow> ledger \<Rightarrow> bool" where
  "represents X S s L \<longleftrightarrow>
     store_holds X S s (lg_leaves L) \<and> db_spent S (ss_db s) = lg_spent L \<and>
     ledger_trees X S (db_view S (ss_db s)) L"

text \<open>An empty database represents the empty ledger.\<close>

definition no_data :: "'db sled \<Rightarrow> 'db \<Rightarrow> bool" where
  "no_data S db \<longleftrightarrow> (\<forall>t. db_view S db t = Map.empty)"

lemma no_data_mem: "no_data mem_sled mem_empty"
  by (simp add: no_data_def mem_empty_def)

lemma fresh_store_represents: "no_data S db \<Longrightarrow> represents X S (fresh_store db) empty_ledger"
  using fresh_store_holds [of S db X]
  by (auto simp: represents_def empty_ledger_def no_data_def no_tree_def db_spent_def fresh_store_def
      ledger_trees_def)

section \<open>Keys of the metadata tree\<close>

lemma height_key_neq [simp]: "height_key h \<noteq> chain_height_key" "chain_height_key \<noteq> height_key h"
proof -
  have "length (height_key h) \<noteq> length chain_height_key"
    by (simp add: height_key_def chain_height_key_def)
  then show "height_key h \<noteq> chain_height_key" "chain_height_key \<noteq> height_key h"
    by metis+
qed

lemma height_key_inject [simp]: "height_key h = height_key k \<longleftrightarrow> h = k"
  by (simp add: height_key_def)

section \<open>Loops over a faultless database\<close>

lemma map_add_map_of_rev_Cons: "m ++ map_of (rev ((k, v) # kvs)) = m(k \<mapsto> v) ++ map_of (rev kvs)"
  by (simp add: map_of_append map_add_assoc [symmetric])

lemma on_db_fst [simp]: "fst (on_db f s) = fst (f (ss_db s))"
  and on_db_snd [simp]: "snd (on_db f s) = s\<lparr>ss_db := snd (f (ss_db s))\<rparr>"
  by (simp_all add: on_db_def split_beta)

context sled_db
begin

lemma put_all:
  assumes "\<And>x db. fst (put x db) = Inr ()"
    and "\<And>x db. db_view S (snd (put x db)) = (db_view S db)(cf := (db_view S db cf)(key x \<mapsto> val x))"
  shows "fst (forEach put xs db) = Inr () \<and>
    db_view S (snd (forEach put xs db)) =
      (db_view S db)(cf := db_view S db cf ++ map_of (rev (map (\<lambda>x. (key x, val x)) xs)))"
proof (induction xs arbitrary: db)
  case (Cons x xs)
  show ?case
    using Cons [of "snd (put x db)"] assms [of x db]
    by (simp only: list.map forEach.simps map_add_map_of_rev_Cons andThen_Inr fun_upd_same fun_upd_upd simp_thms)
qed simp

lemma insert_all:
  "fst (forEach (\<lambda>(k, v). tree_insert S cf k v) kvs db) = Inr () \<and>
   db_view S (snd (forEach (\<lambda>(k, v). tree_insert S cf k v) kvs db)) =
     (db_view S db)(cf := db_view S db cf ++ map_of (rev kvs))"
  using put_all [of "\<lambda>(k, v). tree_insert S cf k v" cf fst snd kvs db]
  by (simp add: store_simps split_beta)

lemma put_block_view:
  "fst (put_block X S b db) = Inr () \<and>
   db_view S (snd (put_block X S b db)) = (db_view S db)
     (CF_BLOCKS := (db_view S db CF_BLOCKS)(block_hash_of X b \<mapsto> bincode_block X b),
      CF_TXS := db_view S db CF_TXS ++
        map_of (rev (map (\<lambda>tx. (tx_id_of X tx, bincode_tx X tx)) (blk_transactions b))))"
  using put_all [of "\<lambda>tx. cf_put S CF_TXS (tx_id_of X tx) (bincode_tx X tx)" CF_TXS "tx_id_of X"
      "bincode_tx X" "blk_transactions b"
      "after_insert S CF_BLOCKS (block_hash_of X b) (bincode_block X b) db"]
  by (simp add: put_block_def andThen_Inr store_simps)

lemma commit_block_view:
  "fst (commit_block X S b changes contracts root db) = Inr () \<and>
   db_view S (snd (commit_block X S b changes contracts root db)) = (db_view S db)
     (CF_ANCHORS := (db_view S db CF_ANCHORS)(root \<mapsto> u64_to_le (bh_height (blk_header b) + ANCHOR_EXPIRY_BLOCKS)),
      CF_CONTRACTS := db_view S db CF_CONTRACTS ++ map_of (rev contracts),
      CF_CONTRACT_STATE := db_view S db CF_CONTRACT_STATE ++ map_of (rev changes),
      CF_BLOCKS := (db_view S db CF_BLOCKS)(block_hash_of X b \<mapsto> bincode_block X b),
      CF_TXS := db_view S db CF_TXS ++
        map_of (rev (map (\<lambda>tx. (tx_id_of X tx, bincode_tx X tx)) (blk_transactions b))),
      CF_META := (db_view S db CF_META)
        (chain_height_key \<mapsto> u64_to_le (bh_height (blk_header b)),
         height_key (bh_height (blk_header b)) \<mapsto> block_hash_of X b))"
proof -
  note cs = insert_all [of CF_CONTRACTS contracts] and ch = insert_all [of CF_CONTRACT_STATE changes]
    and pb = put_block_view [of X b]
  show ?thesis
    by (simp add: commit_block_def Let_def andThen_Inr store_simps cs ch pb)
qed

end

section \<open>Transactions over a faultless database\<close>

text \<open>
  Between the height check and the commit, application touches three trees only: \<open>xs\<close> are the
  leaves, \<open>N\<close> the spent nullifiers, \<open>V\<close> the content of the other trees.
\<close>

definition core_holds ::
  "ext \<Rightarrow> 'db sled \<Rightarrow> 'db state_store \<Rightarrow> hash32 list \<Rightarrow> hash32 set \<Rightarrow> (string \<Rightarrow> bytes \<rightharpoonup> bytes) \<Rightarrow> bool" where
  "core_holds X S s xs N V \<longleftrightarrow>
     store_holds X S s xs \<and> db_spent S (ss_db s) = N \<and>
     (\<forall>t. t \<notin> {CF_NULLIFIERS, CF_COMMITMENTS, CF_TREE} \<longrightarrow> db_view S (ss_db s) t = V t)"

sublocale sled_db \<subseteq> spends: nullifier_set "\<lambda>s. db_spent S (ss_db s)"
    "\<lambda>nf s. nullifier_contains S nf (ss_db s)"
    "\<lambda>nf. on_db (tree_insert S CF_NULLIFIERS nf (u64_to_le h))"
  for h :: u64
  by unfold_locales (auto simp: store_simps db_spent_def dom_def)

context sled_db
begin

lemma forEach_apply_spend: "forEach (apply_spend S h) nfs = spends.spend_all h nfs"
  by (simp add: apply_spend_def [abs_def] spends.spend_all_def)

lemma core_mark:
  "core_holds X S s xs N V \<Longrightarrow>
   core_holds X S (s\<lparr>ss_db := after_insert S CF_NULLIFIERS nf v (ss_db s)\<rparr>) xs (insert nf N) V"
  by (auto simp: core_holds_def store_holds_def tree_saved_def store_simps db_spent_def)

lemma core_spends:
  assumes "core_holds X S s xs N V"
  shows "\<exists>N'. core_holds X S (snd (spends.spend_all h nfs s)) xs N' V \<and>
    (fst (spends.spend_all h nfs s) = Inr () \<longrightarrow> N' = N \<union> set nfs)"
  using assms
proof (induction nfs arbitrary: s N)
  case Nil
  then show ?case by (auto simp: spends.spend_all_simps)
next
  case (Cons nf nfs)
  show ?case
  proof (cases "nf \<in> db_spent S (ss_db s)")
    case True
    with Cons.prems show ?thesis by (auto simp: spends.spend_all_simps)
  next
    case False
    then have "spends.spend_all h (nf # nfs) s =
        spends.spend_all h nfs (s\<lparr>ss_db := after_insert S CF_NULLIFIERS nf (u64_to_le h) (ss_db s)\<rparr>)"
      using tree_insert_eq [of CF_NULLIFIERS nf "u64_to_le h" "ss_db s"]
      by (simp only: spends.spend_all_simps if_False on_db_snd snd_conv)
    with Cons.IH [OF core_mark [OF Cons.prems, of nf "u64_to_le h"]] show ?thesis
      by auto
  qed
qed

lemma core_output:
  assumes "core_holds X S s xs N V" "length xs < 2 ^ 64"
  shows "fst (apply_output X S c s) = Inr () \<and>
    core_holds X S (snd (apply_output X S c s)) (xs @ [c]) N V"
proof -
  let ?s = "after_append X S c s"
  have size: "nct_size (ss_tree s) = word_of_nat (length xs)"
    using assms by (simp add: core_holds_def store_holds_def tree_holds_def)
  have "store_holds X S ?s (xs @ [c])"
    using leaves.append_holds [of X s xs c] assms by (simp add: core_holds_def store_simps)
  moreover have "db_view S (after_insert S CF_COMMITMENTS (u64_to_be (nct_size (ss_tree s))) c (ss_db ?s))
      = db_view S (ss_db ?s)"
    by (simp add: store_simps fun_upd_twist)
  ultimately have "store_holds X S (?s\<lparr>ss_db := after_insert S CF_COMMITMENTS
      (u64_to_be (nct_size (ss_tree s))) c (ss_db ?s)\<rparr>) (xs @ [c])"
    by (simp add: store_holds_def tree_saved_def)
  then show ?thesis
    using assms by (auto simp: apply_output_def Let_def andThen_Inr store_simps core_holds_def
        db_spent_def on_db_def)
qed

lemma core_outputs:
  assumes "core_holds X S s xs N V" "length xs + length cs \<le> 2 ^ 64"
  shows "fst (forEach (apply_output X S) cs s) = Inr () \<and>
    core_holds X S (snd (forEach (apply_output X S) cs s)) (xs @ cs) N V"
  using assms
proof (induction cs arbitrary: s xs)
  case (Cons c cs)
  have "fst (apply_output X S c s) = Inr () \<and>
      core_holds X S (snd (apply_output X S c s)) (xs @ [c]) N V"
    using Cons.prems by (intro core_output) auto
  with Cons.IH [of "snd (apply_output X S c s)" "xs @ [c]"] Cons.prems show ?case
    by (simp add: andThen_Inr)
qed simp

lemma apply_tx_eq:
  "apply_tx X S h tx =
     andThen (spends.spend_all h (tx_nullifiers tx)) (\<lambda>_. forEach (apply_output X S) (tx_commitments tx))"
  by (simp add: apply_tx_def tx_nullifiers_def tx_commitments_def forEach_map
      flip: forEach_apply_spend)

lemma core_txs:
  assumes "core_holds X S s xs N V"
    and "length xs + length (concat (map tx_commitments txs)) \<le> 2 ^ 64"
  shows "\<exists>r s' xs' N'. forEach (apply_tx X S h) txs s = (r, s') \<and> core_holds X S s' xs' N' V \<and>
    r = (if distinct (concat (map tx_nullifiers txs)) \<and>
      set (concat (map tx_nullifiers txs)) \<inter> N = {} then Inr () else Inl StorageDoubleSpend) \<and>
    (r = Inr () \<longrightarrow> xs' = xs @ concat (map tx_commitments txs) \<and>
      N' = N \<union> set (concat (map tx_nullifiers txs)))"
  using assms
proof (induction txs arbitrary: s xs N)
  case Nil
  then show ?case by auto
next
  case (Cons tx txs)
  define m where "m = spends.spend_all h (tx_nullifiers tx)"
  have N: "db_spent S (ss_db s) = N"
    using Cons.prems by (simp add: core_holds_def)
  obtain N1 where N1: "core_holds X S (snd (m s)) xs N1 V"
      "fst (m s) = Inr () \<Longrightarrow> N1 = N \<union> set (tx_nullifiers tx)"
    using core_spends [OF Cons.prems(1), of h "tx_nullifiers tx"] by (auto simp: m_def)
  have res: "fst (m s) = (if distinct (tx_nullifiers tx) \<and> set (tx_nullifiers tx) \<inter> N = {}
      then Inr () else Inl StorageDoubleSpend)"
    using spends.spend_all_result [of h "tx_nullifiers tx" s] N by (simp add: m_def)
  show ?case
  proof (cases "fst (m s) = Inr ()")
    case False
    then have "distinct (tx_nullifiers tx) \<Longrightarrow> set (tx_nullifiers tx) \<inter> N \<noteq> {}"
        and err: "fst (m s) = Inl StorageDoubleSpend"
      using res by (auto split: if_splits)
    moreover have "forEach (apply_tx X S h) (tx # txs) s = (Inl StorageDoubleSpend, snd (m s))"
      using err by (simp add: apply_tx_eq andThen_Inl flip: m_def)
    ultimately show ?thesis
      using N1(1) by auto
  next
    case True
    then have nfs: "distinct (tx_nullifiers tx)" "set (tx_nullifiers tx) \<inter> N = {}"
      using res by (auto split: if_splits)
    let ?s2 = "snd (forEach (apply_output X S) (tx_commitments tx) (snd (m s)))"
    have out: "fst (forEach (apply_output X S) (tx_commitments tx) (snd (m s))) = Inr () \<and>
        core_holds X S ?s2 (xs @ tx_commitments tx) N1 V"
      using Cons.prems(2) by (intro core_outputs [OF N1(1)]) simp
    then have "forEach (apply_tx X S h) (tx # txs) s = forEach (apply_tx X S h) txs ?s2"
      using True by (simp add: apply_tx_eq andThen_Inr flip: m_def)
    moreover note Cons.IH [of ?s2 "xs @ tx_commitments tx" N1]
    ultimately show ?thesis
      using out Cons.prems(2) N1(2) [OF True] nfs by (force simp: Un_assoc split: if_splits)
  qed
qed

section \<open>Refinement\<close>

lemma get_chain_height_eq:
  "ledger_trees X S (db_view S db) L \<Longrightarrow>
   get_chain_height S db = Inr (case lg_height L of None \<Rightarrow> 0 | Some h \<Rightarrow> h)"
  by (simp add: ledger_trees_def get_chain_height_def cf_get_eq split: option.splits)

lemma has_blocks_eq:
  "ledger_trees X S (db_view S db) L \<Longrightarrow> has_blocks S db = Inr (lg_height L \<noteq> None)"
  by (simp add: ledger_trees_def has_blocks_def cf_get_eq)

text \<open>A block of the wrong height is refused before anything is written.\<close>

lemma apply_block_wrong_height:
  assumes "represents X S s L" "bh_height (blk_header b) \<noteq> next_height L"
  shows "apply_block X S b changes contracts s =
    (Inl (InvalidTransition (next_height L) (bh_height (blk_header b))), s)"
  using assms
  by (auto simp: represents_def apply_block_def andThen_Inr get_chain_height_eq has_blocks_eq
      next_height_def Let_def split: option.splits)

lemma apply_block_right_height:
  assumes "represents X S s L" "bh_height (blk_header b) = next_height L"
  shows "apply_block X S b changes contracts s =
    andThen (forEach (apply_tx X S (bh_height (blk_header b))) (blk_transactions b)) (\<lambda>_.
    andThen (reading (\<lambda>s. Inr (tree_root X (ss_tree s)))) (\<lambda>root.
    andThen (on_db (commit_block X S b changes contracts root)) (\<lambda>_. ok root))) s"
proof -
  have "ledger_trees X S (db_view S (ss_db s)) L"
    using assms(1) by (simp add: represents_def)
  note reads = get_chain_height_eq [OF this] has_blocks_eq [OF this]
  show ?thesis
    using assms(2)
    by (cases "lg_height L") (simp_all add: apply_block_def andThen_Inr andThen_bool reads next_height_def on_db_def store_simps)
qed

lemma ledger_trees_commit:
  assumes "ledger_trees X S (db_view S db) L"
    and "root = merkle_root (hash_pair X) Hash32_ZERO NOTE_COMMITMENT_TREE_DEPTH
      (lg_leaves L @ block_commitments b)"
  shows "ledger_trees X S (db_view S (snd (commit_block X S b changes contracts root db)))
    (ledger_commit X b changes contracts L)"
proof -
  have txs: "(map_option (bincode_tx X) \<circ> lg_txs L) ++
      map_of (rev (map (\<lambda>tx. (tx_id_of X tx, bincode_tx X tx)) (blk_transactions b))) =
      map_option (bincode_tx X) \<circ>
        (lg_txs L ++ map_of (rev (map (\<lambda>tx. (tx_id_of X tx, tx)) (blk_transactions b))))"
    for b
  proof -
    have "map_of (rev (map (\<lambda>tx. (tx_id_of X tx, bincode_tx X tx)) (blk_transactions b))) =
        map_option (bincode_tx X) \<circ> map_of (rev (map (\<lambda>tx. (tx_id_of X tx, tx)) (blk_transactions b)))"
      using map_of_map [of "bincode_tx X" "rev (map (\<lambda>tx. (tx_id_of X tx, tx)) (blk_transactions b))"]
      by (simp add: rev_map comp_def)
    then show ?thesis
      by (simp add: map_add_def fun_eq_iff split: option.splits)
  qed
  show ?thesis
    using assms by (auto simp: ledger_trees_def commit_block_view ledger_commit_def Let_def txs)
qed

lemma core_holds_self:
  "represents X S s L \<Longrightarrow> core_holds X S s (lg_leaves L) (lg_spent L) (db_view S (ss_db s))"
  by (simp add: represents_def core_holds_def)

lemma core_block:
  assumes "represents X S s L" "length (lg_leaves L) + length (block_commitments b) < 2 ^ 32"
  shows "\<exists>r s' xs' N'. forEach (apply_tx X S h) (blk_transactions b) s = (r, s') \<and>
    core_holds X S s' xs' N' (db_view S (ss_db s)) \<and>
    r = (if spendable (lg_spent L) b then Inr () else Inl StorageDoubleSpend) \<and>
    (r = Inr () \<longrightarrow> xs' = lg_leaves L @ block_commitments b \<and>
      N' = lg_spent L \<union> set (block_nullifiers b))"
  unfolding spendable_def block_nullifiers_def block_commitments_def
  using assms(2) by (intro core_txs core_holds_self [OF assms(1)]) (simp add: block_commitments_def)

lemma apply_block_accepts:
  assumes rep: "represents X S s L" and h: "bh_height (blk_header b) = next_height L"
    and room: "length (lg_leaves L) + length (block_commitments b) < 2 ^ 32"
    and nfs: "spendable (lg_spent L) b"
  shows "fst (apply_block X S b changes contracts s) =
      Inr (ledger_root X (ledger_commit X b changes contracts L)) \<and>
    represents X S (snd (apply_block X S b changes contracts s)) (ledger_commit X b changes contracts L)"
proof -
  let ?L = "ledger_commit X b changes contracts L"
  obtain s' where run: "forEach (apply_tx X S (bh_height (blk_header b))) (blk_transactions b) s = (Inr (), s')"
    and s': "core_holds X S s' (lg_leaves L @ block_commitments b)
      (lg_spent L \<union> set (block_nullifiers b)) (db_view S (ss_db s))"
    using core_block [OF rep room, of "bh_height (blk_header b)"] nfs by auto
  have root: "tree_root X (ss_tree s') = ledger_root X ?L"
    using tree_holds_root [of X "ss_tree s'" "lg_leaves L @ block_commitments b"] s' room
    by (simp add: core_holds_def store_holds_def ledger_root_def ledger_commit_def Let_def
        NOTE_COMMITMENT_TREE_DEPTH_def)
  have run_eq: "apply_block X S b changes contracts s =
      (Inr (ledger_root X ?L),
       s'\<lparr>ss_db := snd (commit_block X S b changes contracts (ledger_root X ?L) (ss_db s'))\<rparr>)"
    using commit_block_view [of X b changes contracts "ledger_root X ?L" "ss_db s'"]
    by (simp add: apply_block_right_height [OF rep h] andThen_def run root on_db_def split_beta)
  let ?db = "snd (commit_block X S b changes contracts (ledger_root X ?L) (ss_db s'))"
  have same: "db_view S ?db t = db_view S (ss_db s') t"
    if "t \<in> {CF_NULLIFIERS, CF_COMMITMENTS, CF_TREE}" for t
    using that by (auto simp: commit_block_view)
  have "store_holds X S (s'\<lparr>ss_db := ?db\<rparr>) (lg_leaves ?L)" "db_spent S ?db = lg_spent ?L"
    using s' same by (simp_all add: core_holds_def store_holds_def tree_saved_def db_spent_def
        ledger_commit_def Let_def)
  moreover have "ledger_trees X S (db_view S (ss_db s')) L"
    using rep s' by (simp add: represents_def core_holds_def ledger_trees_def)
  then have "ledger_trees X S (db_view S ?db) ?L"
    by (rule ledger_trees_commit) (simp add: ledger_root_def ledger_commit_def Let_def)
  ultimately show ?thesis
    unfolding run_eq represents_def by simp
qed

lemma apply_block_double_spend:
  assumes rep: "represents X S s L" and h: "bh_height (blk_header b) = next_height L"
    and room: "length (lg_leaves L) + length (block_commitments b) < 2 ^ 32"
    and nfs: "\<not> spendable (lg_spent L) b"
  shows "fst (apply_block X S b changes contracts s) = Inl StorageDoubleSpend"
proof -
  have "fst (forEach (apply_tx X S (bh_height (blk_header b))) (blk_transactions b) s) =
      Inl StorageDoubleSpend"
    using core_block [OF rep room, of "bh_height (blk_header b)"] nfs by auto
  then show ?thesis
    by (simp add: apply_block_right_height [OF rep h] andThen_Inl)
qed

lemma apply_block_refines:
  assumes "represents X S s L" "length (lg_leaves L) + length (block_commitments b) < 2 ^ 32"
  shows "case ledger_apply X b changes contracts L of
      Some L' \<Rightarrow> fst (apply_block X S b changes contracts s) = Inr (ledger_root X L') \<and>
        represents X S (snd (apply_block X S b changes contracts s)) L'
    | None \<Rightarrow> fst (apply_block X S b changes contracts s) =
        Inl (if bh_height (blk_header b) = next_height L then StorageDoubleSpend
          else InvalidTransition (next_height L) (bh_height (blk_header b)))"
  using apply_block_accepts [OF assms(1) _ assms(2)] apply_block_double_spend [OF assms(1) _ assms(2)]
    apply_block_wrong_height [OF assms(1)]
  by (simp add: ledger_apply_def)

lemma apply_block_accepted:
  assumes "represents X S s L" "length (lg_leaves L) + length (block_commitments b) < 2 ^ 32"
    and "fst (apply_block X S b changes contracts s) = Inr root"
  shows "root = ledger_root X (ledger_commit X b changes contracts L)"
    and "represents X S (snd (apply_block X S b changes contracts s)) (ledger_commit X b changes contracts L)"
  using apply_block_refines [OF assms(1,2), of changes contracts] assms(3)
  by (auto simp: ledger_apply_def split: if_splits)

end

text \<open>
  C5: applying a block to a store that represents a ledger implements the ledger's step. A block
  the ledger accepts is accepted, returns the Merkle root of all leaves, and leaves a store that
  represents the next ledger; any other block is refused with the error that names the reason.
\<close>

theorem apply_block_refines_ledger:
  assumes "sled_db S" "represents X S s L"
    and "length (lg_leaves L) + length (block_commitments b) < 2 ^ 32"
    and "run = apply_block X S b changes contracts s"
  shows "case ledger_apply X b changes contracts L of
      Some L' \<Rightarrow> fst run = Inr (ledger_root X L') \<and> represents X S (snd run) L'
    | None \<Rightarrow> fst run = Inl (if bh_height (blk_header b) = next_height L then StorageDoubleSpend
        else InvalidTransition (next_height L) (bh_height (blk_header b)))"
  unfolding assms(4) by (rule sled_db.apply_block_refines [OF assms(1-3)])

end
