(* ===== verification/Chain_History.thy ===== *)
theory Chain_History
  imports Ledger
begin

text \<open>
  What the state manager guarantees over a whole chain of blocks, from the refinement of
  \<open>Ledger\<close>: which chains are accepted, what can be read back, what a refused block leaves
  behind, how contracts are kept apart, how long an anchor is valid and what pruning keeps.
\<close>

section \<open>A sample block\<close>

definition sample_header :: "u64 \<Rightarrow> block_header" where
  "sample_header h = \<lparr>bh_height = h, bh_parent_hash = Hash32_ZERO, bh_state_root = Hash32_ZERO,
     bh_tx_root = Hash32_ZERO, bh_nullifier_root = Hash32_ZERO, bh_timestamp = 0, bh_epoch = 0,
     bh_vrf_output = [], bh_proposer = [], bh_chain_id = 1, bh_gas_used = 0, bh_gas_limit = 0\<rparr>"

definition sample_block :: "u64 \<Rightarrow> transaction list \<Rightarrow> block" where
  "sample_block h txs = \<lparr>blk_header = sample_header h, blk_transactions = txs,
     blk_aggregate_proof = [], blk_bls_aggregate_sig = [], blk_validator_bitfield = 0\<rparr>"

lemma sample_block_simps [simp]:
  "bh_height (blk_header (sample_block h txs)) = h"
  "blk_transactions (sample_block h txs) = txs"
  by (simp_all add: sample_block_def sample_header_def)

theorem apply_block_refines_ledger_witness:
  "fst (apply_block sample_ext mem_sled (sample_block 0 [sample_tx 1, sample_tx 2]) [] [] (fresh_store mem_empty)) =
     Inr (ledger_root sample_ext
       (ledger_commit sample_ext (sample_block 0 [sample_tx 1, sample_tx 2]) [] [] empty_ledger))"
  using apply_block_refines_ledger [OF mem.sled_db_axioms fresh_store_represents [OF no_data_mem] _ refl,
      where X = sample_ext and b = "sample_block 0 [sample_tx 1, sample_tx 2]" and changes = "[]" and contracts = "[]"]
  by (simp add: ledger_apply_def next_height_def empty_ledger_def spendable_def block_nullifiers_def
      block_commitments_def tx_nullifiers_def tx_commitments_def sample_tx_def sample_spend_def sample_output_def)

section \<open>Chains\<close>

text \<open>A chain of blocks, each with the contract state changes and new contracts it carries.\<close>

type_synonym chain_entry = "block \<times> (bytes \<times> bytes) list \<times> (hash32 \<times> bytes) list"

definition apply_chain :: "ext \<Rightarrow> 'db sled \<Rightarrow> chain_entry list \<Rightarrow> ('db state_store, unit) storage_op" where
  "apply_chain X S bs =
     forEach (\<lambda>(b, changes, contracts). andThen (apply_block X S b changes contracts) (\<lambda>_. ok ())) bs"

fun ledger_chain :: "ext \<Rightarrow> chain_entry list \<Rightarrow> ledger \<Rightarrow> ledger option" where
  "ledger_chain X [] L = Some L"
| "ledger_chain X ((b, changes, contracts) # bs) L =
     (case ledger_apply X b changes contracts L of None \<Rightarrow> None | Some L' \<Rightarrow> ledger_chain X bs L')"

abbreviation chain_nullifiers :: "chain_entry list \<Rightarrow> hash32 list" where
  "chain_nullifiers bs \<equiv> concat (map (\<lambda>e. block_nullifiers (fst e)) bs)"

abbreviation chain_commitments :: "chain_entry list \<Rightarrow> hash32 list" where
  "chain_commitments bs \<equiv> concat (map (\<lambda>e. block_commitments (fst e)) bs)"

abbreviation chain_heights :: "chain_entry list \<Rightarrow> u64 list" where
  "chain_heights bs \<equiv> map (\<lambda>e. bh_height (blk_header (fst e))) bs"

lemma next_height_commit [simp]:
  "next_height (ledger_commit X b changes contracts L) = bh_height (blk_header b) + 1"
  by (simp add: next_height_def ledger_commit_def Let_def)

lemma ledger_commit_simps [simp]:
  "lg_height (ledger_commit X b changes contracts L) = Some (bh_height (blk_header b))"
  "lg_spent (ledger_commit X b changes contracts L) = lg_spent L \<union> set (block_nullifiers b)"
  "lg_leaves (ledger_commit X b changes contracts L) = lg_leaves L @ block_commitments b"
  "lg_hashes (ledger_commit X b changes contracts L) = (lg_hashes L)(bh_height (blk_header b) \<mapsto> block_hash_of X b)"
  "lg_blocks (ledger_commit X b changes contracts L) = (lg_blocks L)(block_hash_of X b \<mapsto> b)"
  "lg_contract_state (ledger_commit X b changes contracts L) = lg_contract_state L ++ map_of (rev changes)"
  by (simp_all add: ledger_commit_def Let_def)

lemma heights_from_Cons:
  "map (\<lambda>i. h + word_of_nat i) [0..<Suc n] = h # map (\<lambda>i. h + 1 + word_of_nat i) [0..<n]" for h :: u64
proof -
  have "[0..<Suc n] = 0 # map Suc [0..<n]"
    by (simp add: upt_conv_Cons map_Suc_upt del: upt_Suc)
  then show ?thesis
    by (simp del: upt_Suc add: add.assoc comp_def)
qed

lemma ledger_chain_iff:
  "ledger_chain X bs L \<noteq> None \<longleftrightarrow>
     chain_heights bs = map (\<lambda>i. next_height L + word_of_nat i) [0..<length bs] \<and>
     distinct (chain_nullifiers bs) \<and> set (chain_nullifiers bs) \<inter> lg_spent L = {}"
proof (induction X bs L rule: ledger_chain.induct)
  case (1 X L)
  then show ?case by simp
next
  case (2 X b changes contracts bs L)
  show ?case
  proof (cases "ledger_apply X b changes contracts L")
    case None
    then have "bh_height (blk_header b) \<noteq> next_height L \<or> \<not> spendable (lg_spent L) b"
      by (simp add: ledger_apply_def split: if_splits)
    then show ?thesis
      using None unfolding length_Cons heights_from_Cons by (auto simp: spendable_def)
  next
    case (Some L')
    then have L': "L' = ledger_commit X b changes contracts L"
      and acc: "bh_height (blk_header b) = next_height L" "spendable (lg_spent L) b"
      by (simp_all add: ledger_apply_def split: if_splits)
    have "ledger_chain X ((b, changes, contracts) # bs) L = ledger_chain X bs L'"
      using Some by simp
    moreover note 2 [OF Some]
    ultimately show ?thesis
      unfolding length_Cons heights_from_Cons using acc by (auto simp: L' spendable_def)
  qed
qed

lemma ledger_chain_fields:
  assumes "ledger_chain X bs L = Some L'"
  shows "lg_hashes L' = lg_hashes L ++ map_of (rev (map (\<lambda>e. (bh_height (blk_header (fst e)), block_hash_of X (fst e))) bs))"
    and "lg_blocks L' = lg_blocks L ++ map_of (rev (map (\<lambda>e. (block_hash_of X (fst e), fst e)) bs))"
    and "lg_spent L' = lg_spent L \<union> set (chain_nullifiers bs)"
    and "lg_leaves L' = lg_leaves L @ chain_commitments bs"
    and "next_height L' = next_height L + word_of_nat (length bs)"
    and "bs \<noteq> [] \<Longrightarrow> lg_height L' \<noteq> None"
proof -
  have "lg_hashes L' = lg_hashes L ++ map_of (rev (map (\<lambda>e. (bh_height (blk_header (fst e)), block_hash_of X (fst e))) bs)) \<and>
    lg_blocks L' = lg_blocks L ++ map_of (rev (map (\<lambda>e. (block_hash_of X (fst e), fst e)) bs)) \<and>
    lg_spent L' = lg_spent L \<union> set (chain_nullifiers bs) \<and>
    lg_leaves L' = lg_leaves L @ chain_commitments bs \<and>
    next_height L' = next_height L + word_of_nat (length bs) \<and>
    (bs \<noteq> [] \<or> lg_height L \<noteq> None \<longrightarrow> lg_height L' \<noteq> None)"
    using assms
  proof (induction X bs L rule: ledger_chain.induct)
    case (2 X b changes contracts bs L)
    from "2.prems" obtain M where M: "ledger_apply X b changes contracts L = Some M"
      "ledger_chain X bs M = Some L'"
      by (auto split: option.splits)
    then have M': "M = ledger_commit X b changes contracts L" "bh_height (blk_header b) = next_height L"
      by (simp_all add: ledger_apply_def split: if_splits)
    have "map (\<lambda>e. (bh_height (blk_header (fst e)), block_hash_of X (fst e))) ((b, changes, contracts) # bs) =
        (next_height L, block_hash_of X b) # map (\<lambda>e. (bh_height (blk_header (fst e)), block_hash_of X (fst e))) bs"
      and "map (\<lambda>e. (block_hash_of X (fst e), fst e)) ((b, changes, contracts) # bs) =
        (block_hash_of X b, b) # map (\<lambda>e. (block_hash_of X (fst e), fst e)) bs"
      using M'(2) by simp_all
    note maps = this
    from "2.IH" [OF M] show ?case
      unfolding maps map_add_map_of_rev_Cons by (auto simp: M' algebra_simps fun_upd_def)
  qed auto
  then show "lg_hashes L' = lg_hashes L ++ map_of (rev (map (\<lambda>e. (bh_height (blk_header (fst e)), block_hash_of X (fst e))) bs))"
    and "lg_blocks L' = lg_blocks L ++ map_of (rev (map (\<lambda>e. (block_hash_of X (fst e), fst e)) bs))"
    and "lg_spent L' = lg_spent L \<union> set (chain_nullifiers bs)"
    and "lg_leaves L' = lg_leaves L @ chain_commitments bs"
    and "next_height L' = next_height L + word_of_nat (length bs)"
    and "bs \<noteq> [] \<Longrightarrow> lg_height L' \<noteq> None"
    by blast+
qed

context sled_db
begin

lemma apply_chain_run:
  assumes "represents X S s L" "length (lg_leaves L) + length (chain_commitments bs) < 2 ^ 32"
  shows "case ledger_chain X bs L of
      Some L' \<Rightarrow> fst (apply_chain X S bs s) = Inr () \<and> represents X S (snd (apply_chain X S bs s)) L'
    | None \<Rightarrow> \<exists>e. fst (apply_chain X S bs s) = Inl e"
  using assms
proof (induction X bs L arbitrary: s rule: ledger_chain.induct)
  case (1 X L)
  then show ?case by (simp add: apply_chain_def)
next
  case (2 X b changes contracts bs L)
  let ?run = "apply_block X S b changes contracts s"
  have step: "apply_chain X S ((b, changes, contracts) # bs) s =
      andThen (andThen (apply_block X S b changes contracts) (\<lambda>_. ok ())) (\<lambda>_. apply_chain X S bs) s"
    by (simp add: apply_chain_def)
  have room: "length (lg_leaves L) + length (block_commitments b) < 2 ^ 32"
    using "2.prems"(2) by simp
  note block = apply_block_refines [OF "2.prems"(1) room, of changes contracts]
  show ?case
  proof (cases "ledger_apply X b changes contracts L")
    case None
    then obtain e where "fst ?run = Inl e"
      using block by (auto split: if_splits)
    then show ?thesis
      using None by (simp add: step andThen_Inl)
  next
    case (Some L')
    then have L': "lg_leaves L' = lg_leaves L @ block_commitments b"
      by (auto simp: ledger_apply_def split: if_splits)
    have run: "fst ?run = Inr (ledger_root X L')" "represents X S (snd ?run) L'"
      using block Some by simp_all
    then have "apply_chain X S ((b, changes, contracts) # bs) s = apply_chain X S bs (snd ?run)"
      by (simp add: step andThen_Inr)
    moreover have "length (lg_leaves L') + length (chain_commitments bs) < 2 ^ 32"
      using "2.prems"(2) L' by simp
    ultimately show ?thesis
      using "2.IH" [OF Some run(2)] Some by (simp split: option.splits)
  qed
qed

end

text \<open>
  C1: from an empty database, a chain of blocks is accepted exactly when the heights count up from
  the genesis block's 0 and no nullifier occurs twice in the whole chain.
\<close>

theorem chain_accepted_iff:
  assumes "sled_db S" "no_data S db" "length (chain_commitments bs) < 2 ^ 32"
  shows "fst (apply_chain X S bs (fresh_store db)) = Inr () \<longleftrightarrow>
    chain_heights bs = map word_of_nat [0..<length bs] \<and> distinct (chain_nullifiers bs)"
proof -
  have "fst (apply_chain X S bs (fresh_store db)) = Inr () \<longleftrightarrow> ledger_chain X bs empty_ledger \<noteq> None"
    using sled_db.apply_chain_run [OF assms(1) fresh_store_represents [OF assms(2)], of bs X] assms(3)
    by (auto simp: empty_ledger_def split: option.splits)
  also have "\<dots> \<longleftrightarrow> chain_heights bs = map word_of_nat [0..<length bs] \<and> distinct (chain_nullifiers bs)"
    by (simp only: ledger_chain_iff) (simp add: next_height_def empty_ledger_def)
  finally show ?thesis .
qed

theorem chain_accepted_iff_witness:
  "fst (apply_chain sample_ext mem_sled [(sample_block 0 [sample_tx 1], [], []), (sample_block 1 [sample_tx 1], [], [])]
     (fresh_store mem_empty)) \<noteq> Inr ()"
  by (subst chain_accepted_iff [OF mem.sled_db_axioms no_data_mem])
     (simp_all add: block_nullifiers_def tx_nullifiers_def block_commitments_def tx_commitments_def sample_tx_def
        sample_spend_def)

section \<open>Reading the chain back\<close>

text \<open>
  What reading back relies on: bincode decodes the blocks it encoded, block hashes are 32 bytes,
  and no two blocks of the chain have the same hash.
\<close>

definition readable_chain :: "ext \<Rightarrow> chain_entry list \<Rightarrow> bool" where
  "readable_chain X bs \<longleftrightarrow>
     (\<forall>e \<in> set bs. bincode_block_de X (bincode_block X (fst e)) = Some (fst e) \<and>
        length (block_hash_of X (fst e)) = 32) \<and>
     distinct (map (\<lambda>e. block_hash_of X (fst e)) bs)"

text \<open>Stored hashes have 32 bytes and stored blocks decode.\<close>

definition readable_ledger :: "ext \<Rightarrow> ledger \<Rightarrow> bool" where
  "readable_ledger X L \<longleftrightarrow> (\<forall>h \<in> ran (lg_hashes L). length h = 32) \<and>
     (\<forall>b \<in> ran (lg_blocks L). bincode_block_de X (bincode_block X b) = Some b)"

text \<open>The ledger of an accepted chain: heights lead to hashes and hashes to blocks.\<close>

lemma map_of_rev_distinct:
  assumes "distinct (map f xs)" "x \<in> set xs"
  shows "map_of (rev (map (\<lambda>x. (f x, g x)) xs)) (f x) = Some (g x)"
  using assms by (intro map_of_is_SomeI) (simp_all add: comp_def flip: rev_map)

lemma ledger_of_chain:
  assumes L: "ledger_chain X bs empty_ledger = Some L" and n: "length bs \<le> 2 ^ 64"
  shows "i < length bs \<Longrightarrow> lg_hashes L (word_of_nat i) = Some (block_hash_of X (fst (bs ! i)))"
    and "bs \<noteq> [] \<Longrightarrow> lg_height L = Some (word_of_nat (length bs - 1))"
    and "ran (lg_hashes L) \<subseteq> (\<lambda>e. block_hash_of X (fst e)) ` set bs"
    and "ran (lg_blocks L) \<subseteq> fst ` set bs"
    and "readable_chain X bs \<Longrightarrow> i < length bs \<Longrightarrow>
      lg_blocks L (block_hash_of X (fst (bs ! i))) = Some (fst (bs ! i))"
proof -
  have heights: "chain_heights bs = map word_of_nat [0..<length bs]"
    using ledger_chain_iff [of X bs empty_ledger] L by (simp add: next_height_def empty_ledger_def)
  then have height: "bh_height (blk_header (fst (bs ! i))) = word_of_nat i" if "i < length bs" for i
    using that nth_map [OF that, of "\<lambda>e. bh_height (blk_header (fst e))"] by simp
  have dist: "distinct (chain_heights bs)"
    unfolding heights using n by (auto simp: distinct_map inj_on_def word_of_nat_inject_64)
  note fields = ledger_chain_fields [OF L]
  have "ran (map_of (rev (map (\<lambda>e. (f e, g e)) bs))) \<subseteq> g ` set bs" for f and g :: "chain_entry \<Rightarrow> 'z"
    by (auto simp: ran_def dest!: map_of_SomeD)
  then show "ran (lg_hashes L) \<subseteq> (\<lambda>e. block_hash_of X (fst e)) ` set bs" "ran (lg_blocks L) \<subseteq> fst ` set bs"
    by (simp_all add: fields(1,2) empty_ledger_def)
  show "lg_hashes L (word_of_nat i) = Some (block_hash_of X (fst (bs ! i)))" if "i < length bs"
    using map_of_rev_distinct [OF dist nth_mem [OF that], of "\<lambda>e. block_hash_of X (fst e)"] height [OF that]
    by (simp add: fields(1) empty_ledger_def)
  show "lg_blocks L (block_hash_of X (fst (bs ! i))) = Some (fst (bs ! i))"
    if "readable_chain X bs" "i < length bs"
    using map_of_rev_distinct [OF _ nth_mem [OF that(2)], of "\<lambda>e. block_hash_of X (fst e)" fst] that(1)
    by (simp add: fields(2) empty_ledger_def readable_chain_def)
  assume "bs \<noteq> []"
  then obtain h where "lg_height L = Some h"
    using fields(6) by blast
  moreover from this have "h + 1 = word_of_nat (length bs - 1) + 1"
    using fields(5) \<open>bs \<noteq> []\<close>
    by (cases bs) (simp_all add: next_height_def empty_ledger_def add.commute)
  ultimately show "lg_height L = Some (word_of_nat (length bs - 1))"
    by simp
qed

context sled_db
begin

lemma accepted_chain_represents:
  assumes "no_data S db" "length (chain_commitments bs) < 2 ^ 32"
    and "fst (apply_chain X S bs (fresh_store db)) = Inr ()"
  obtains L where "ledger_chain X bs empty_ledger = Some L"
    and "represents X S (snd (apply_chain X S bs (fresh_store db))) L"
  using apply_chain_run [OF fresh_store_represents [OF assms(1)], of bs X] assms(2,3)
  by (auto simp: empty_ledger_def split: option.splits)

lemma get_block_by_height_trees:
  assumes "ledger_trees X S (db_view S db) L" "readable_ledger X L"
  shows "get_block_by_height X S h db = Inr (Option.bind (lg_hashes L h) (lg_blocks L))"
proof -
  have "length k = 32" if "lg_hashes L h = Some k" for k
    using assms(2) that by (simp add: readable_ledger_def ranI)
  moreover have "bincode_block_de X (bincode_block X b) = Some b" if "lg_blocks L k = Some b" for k b
    using assms(2) that by (simp add: readable_ledger_def ranI)
  ultimately show ?thesis
    using assms(1) by (auto simp: ledger_trees_def get_block_by_height_def cf_get_eq get_block_eq
        split: option.splits)
qed

end

lemma chain_reads:
  assumes "sled_db S" "no_data S db" "length (chain_commitments bs) < 2 ^ 32"
    and "run = apply_chain X S bs (fresh_store db)" "fst run = Inr ()"
    and "readable_chain X bs" "bs \<noteq> []" "length bs \<le> 2 ^ 64"
  shows "get_chain_height S (ss_db (snd run)) = Inr (word_of_nat (length bs - 1)) \<and>
    (\<forall>i < length bs. get_block_by_height X S (word_of_nat i) (ss_db (snd run)) = Inr (Some (fst (bs ! i)))) \<and>
    (\<forall>i. length bs \<le> i \<and> i < 2 ^ 64 \<longrightarrow>
       get_block_by_height X S (word_of_nat i) (ss_db (snd run)) = Inr None)"
proof -
  obtain L where L: "ledger_chain X bs empty_ledger = Some L" "represents X S (snd run) L"
    using sled_db.accepted_chain_represents [OF assms(1-3)] assms(4,5) by metis
  note ledger = ledger_of_chain [OF L(1) assms(8)]
  have "get_block_by_height X S h (ss_db (snd run)) = Inr (Option.bind (lg_hashes L h) (lg_blocks L))" for h
  proof (rule sled_db.get_block_by_height_trees [OF assms(1)])
    show "ledger_trees X S (db_view S (ss_db (snd run))) L"
      using L(2) by (simp add: represents_def)
    show "readable_ledger X L"
      using ledger(3,4) assms(6) by (fastforce simp: readable_ledger_def readable_chain_def)
  qed
  moreover have "lg_hashes L (word_of_nat i) = None" if "length bs \<le> i" "i < 2 ^ 64" for i
  proof -
    have "dom (lg_hashes L) = set (chain_heights bs)"
      using ledger_chain_fields(1) [OF L(1)] by (simp add: empty_ledger_def dom_map_of_conv_image_fst image_image)
    also have "\<dots> = word_of_nat ` {0..<length bs}"
      using ledger_chain_iff [of X bs empty_ledger] L(1) by (simp add: next_height_def empty_ledger_def)
    finally have dom: "dom (lg_hashes L) = word_of_nat ` {0..<length bs}" .
    have "(word_of_nat i :: u64) \<noteq> word_of_nat j" if "j < length bs" for j
      using that \<open>length bs \<le> i\<close> \<open>i < 2 ^ 64\<close> by (simp add: word_of_nat_inject_64)
    then have "word_of_nat i \<notin> dom (lg_hashes L)"
      unfolding dom image_iff by (metis atLeastLessThan_iff)
    then show ?thesis
      by (simp add: domIff)
  qed
  moreover have "get_chain_height S (ss_db (snd run)) = Inr (word_of_nat (length bs - 1))"
    using sled_db.get_chain_height_eq [OF assms(1), of X "ss_db (snd run)" L] L(2) ledger(2) assms(7)
    by (simp add: represents_def)
  ultimately show ?thesis
    using ledger(1) ledger(5) [OF assms(6)] by simp
qed

text \<open>
  C16: every block of an accepted chain can be read back under its height, the recorded chain
  height is that of the last block, and no height above it leads to a block.
\<close>

theorem chain_readback:
  assumes "sled_db S" "no_data S db" "length (chain_commitments bs) < 2 ^ 32"
    and "run = apply_chain X S bs (fresh_store db)" "fst run = Inr ()"
    and "readable_chain X bs" "bs \<noteq> []" "length bs \<le> 2 ^ 64"
  shows "get_chain_height S (ss_db (snd run)) = Inr (word_of_nat (length bs - 1)) \<and>
    (\<forall>i < length bs. get_block_by_height X S (word_of_nat i) (ss_db (snd run)) = Inr (Some (fst (bs ! i)))) \<and>
    (\<forall>i. length bs \<le> i \<and> i < 2 ^ 64 \<longrightarrow>
       get_block_by_height X S (word_of_nat i) (ss_db (snd run)) = Inr None)"
  by (rule chain_reads [OF assms])

text \<open>A chain of two blocks, and an interpretation of bincode that decodes its blocks.\<close>

definition sample_chain :: "chain_entry list" where
  "sample_chain = [(sample_block 0 [sample_tx 1], [], []), (sample_block 1 [sample_tx 2], [], [])]"

definition sample_codec :: ext where
  "sample_codec = sample_ext\<lparr>bincode_block_de :=
     (\<lambda>bs. Some (if bs = u64_to_le 0 then sample_block 0 [sample_tx 1] else sample_block 1 [sample_tx 2]))\<rparr>"

lemma readable_sample_chain: "readable_chain sample_codec sample_chain"
proof -
  have enc: "bincode_block sample_codec b = u64_to_le (bh_height (blk_header b))"
    "bincode_block_de sample_codec bs =
      Some (if bs = u64_to_le 0 then sample_block 0 [sample_tx 1] else sample_block 1 [sample_tx 2])" for b bs
    by (simp_all add: sample_codec_def sample_ext_def)
  have "block_hash_of sample_codec b = take 32 (u64_to_le (bh_height (blk_header b)) @ replicate 32 0)" for b
    by (simp add: block_hash_of_def header_hash_def sample_codec_def sample_ext_def sample_hash_def)
  then have "block_hash_of sample_codec b = u64_to_le (bh_height (blk_header b)) @ replicate 24 0" for b
    by simp
  then show ?thesis
    by (simp add: readable_chain_def sample_chain_def enc)
qed

lemma chain_accepted_sample:
  "fst (apply_chain sample_codec mem_sled sample_chain (fresh_store mem_empty)) = Inr ()"
  "length (chain_commitments sample_chain) < 2 ^ 32"
proof -
  show room: "length (chain_commitments sample_chain) < 2 ^ 32"
    by (simp add: sample_chain_def block_commitments_def tx_commitments_def sample_tx_def)
  have "ledger_chain sample_codec sample_chain empty_ledger \<noteq> None"
    unfolding ledger_chain_iff
    by (simp add: sample_chain_def next_height_def empty_ledger_def block_nullifiers_def tx_nullifiers_def
        sample_tx_def sample_spend_def)
  then show "fst (apply_chain sample_codec mem_sled sample_chain (fresh_store mem_empty)) = Inr ()"
    using mem.apply_chain_run [OF fresh_store_represents [OF no_data_mem], of sample_chain sample_codec] room
    by (auto simp: empty_ledger_def split: option.splits)
qed

theorem chain_readback_witness:
  "get_block_by_height sample_codec mem_sled 1
     (ss_db (snd (apply_chain sample_codec mem_sled sample_chain (fresh_store mem_empty)))) =
   Inr (Some (sample_block 1 [sample_tx 2]))"
proof -
  have len: "length sample_chain = 2" "fst (sample_chain ! 1) = sample_block 1 [sample_tx 2]"
    by (simp_all add: sample_chain_def)
  have "\<forall>i < length sample_chain. get_block_by_height sample_codec mem_sled (word_of_nat i)
      (ss_db (snd (apply_chain sample_codec mem_sled sample_chain (fresh_store mem_empty)))) =
      Inr (Some (fst (sample_chain ! i)))"
    using chain_readback [OF mem.sled_db_axioms no_data_mem chain_accepted_sample(2) refl
        chain_accepted_sample(1) readable_sample_chain] len by (auto simp: sample_chain_def)
  then show ?thesis
    using len by (metis of_nat_1 one_less_numeral_iff semiring_norm(76))
qed

section \<open>What a refused block leaves behind\<close>

lemma forEach_append: "forEach f (xs @ ys) = andThen (forEach f xs) (\<lambda>_. forEach f ys)"
  by (induction xs) (auto simp: fun_eq_iff andThen_def split: prod.splits sum.splits)

context sled_db
begin

lemma refused_block_state:
  assumes rep: "represents X S s L" and h: "bh_height (blk_header b) = next_height L"
    and txs: "blk_transactions b = good @ [bad]" "blk_transactions b' = good" and "blk_header b' = blk_header b"
    and ok: "spendable (lg_spent L) b'" and bad: "tx_nullifiers bad = [nf]" "nf \<in> lg_spent L"
    and room: "length (lg_leaves L) + 2 * length (block_commitments b') < 2 ^ 32"
  obtains s1 where "apply_block X S b changes contracts s = (Inl StorageDoubleSpend, s1)"
    and "represents X S s1 (L\<lparr>lg_spent := lg_spent L \<union> set (block_nullifiers b'),
      lg_leaves := lg_leaves L @ block_commitments b'\<rparr>)"
proof -
  let ?h = "bh_height (blk_header b)"
  obtain s1 where s1: "forEach (apply_tx X S ?h) good s = (Inr (), s1)"
      "core_holds X S s1 (lg_leaves L @ block_commitments b') (lg_spent L \<union> set (block_nullifiers b'))
        (db_view S (ss_db s))"
    using core_block [OF rep, of b' ?h] ok room txs(2) by auto
  then have "nf \<in> db_spent S (ss_db s1)"
    using bad(2) by (simp add: core_holds_def)
  then have "apply_tx X S ?h bad s1 = (Inl StorageDoubleSpend, s1)"
    by (simp add: apply_tx_eq bad(1) andThen_def spends.spend_all_simps)
  then have "apply_block X S b changes contracts s = (Inl StorageDoubleSpend, s1)"
    by (simp add: apply_block_right_height [OF rep h] txs(1) forEach_append andThen_def s1(1))
  moreover have "represents X S s1 (L\<lparr>lg_spent := lg_spent L \<union> set (block_nullifiers b'),
      lg_leaves := lg_leaves L @ block_commitments b'\<rparr>)"
    using s1(2) rep by (simp add: represents_def core_holds_def ledger_trees_def)
  ultimately show ?thesis ..
qed

end

text \<open>
  C39: block application is not atomic. A block of the right height whose last transaction has
  one spend, of a nullifier already spent, is refused, but the nullifiers of the transactions
  before it stay spent while the height does not move: a block with the same header made of those
  transactions alone, which the store would have accepted before, is refused at the next attempt.
\<close>

theorem refused_block_spends_nullifiers:
  assumes "sled_db S" "represents X S s L" "bh_height (blk_header b) = next_height L"
    and "blk_transactions b = good @ [bad]" "blk_transactions b' = good" "blk_header b' = blk_header b"
    and "spendable (lg_spent L) b'" "block_nullifiers b' \<noteq> []"
    and "tx_nullifiers bad = [nf]" "nf \<in> lg_spent L"
    and "length (lg_leaves L) + 2 * length (block_commitments b') < 2 ^ 32"
    and "run = apply_block X S b changes contracts s"
  shows "fst run = Inl StorageDoubleSpend \<and>
    get_chain_height S (ss_db (snd run)) = get_chain_height S (ss_db s) \<and>
    fst (apply_block X S b' changes contracts s) = Inr (ledger_root X (ledger_commit X b' changes contracts L)) \<and>
    fst (apply_block X S b' changes contracts (snd run)) = Inl StorageDoubleSpend"
proof -
  note accepts = sled_db.apply_block_accepts [OF assms(1)]
  note refuses = sled_db.apply_block_double_spend [OF assms(1)]
  define L1 where "L1 = L\<lparr>lg_spent := lg_spent L \<union> set (block_nullifiers b'),
    lg_leaves := lg_leaves L @ block_commitments b'\<rparr>"
  obtain s1 where s1: "apply_block X S b changes contracts s = (Inl StorageDoubleSpend, s1)"
      "represents X S s1 L1"
    using sled_db.refused_block_state [OF assms(1-7,9-11)] unfolding L1_def by blast
  then have L1: "fst run = Inl StorageDoubleSpend" "represents X S (snd run) L1" "next_height L1 = next_height L"
      "lg_height L1 = lg_height L" "lg_spent L1 = lg_spent L \<union> set (block_nullifiers b')"
      "lg_leaves L1 = lg_leaves L @ block_commitments b'"
    using assms(12) by (simp_all add: L1_def next_height_def)
  have "fst (apply_block X S b' changes contracts (snd run)) = Inl StorageDoubleSpend"
    using L1 assms(3,6,8,11)
    by (intro refuses [OF L1(2)]) (auto simp: spendable_def)
  moreover have "fst (apply_block X S b' changes contracts s) = Inr (ledger_root X (ledger_commit X b' changes contracts L))"
    using accepts [OF assms(2)] assms(3,6,7,11) by simp
  moreover have "get_chain_height S (ss_db (snd run)) = get_chain_height S (ss_db s)"
    using L1(2,4) assms(2) by (auto simp: represents_def dest!: sled_db.get_chain_height_eq [OF assms(1)])
  ultimately show ?thesis
    using L1(1) assms(12) by simp
qed

definition genesis_ledger :: ledger where
  "genesis_ledger = ledger_commit sample_ext (sample_block 0 [sample_tx 1]) [] [] empty_ledger"

definition genesis_store :: "mem_db state_store" where
  "genesis_store = snd (apply_block sample_ext mem_sled (sample_block 0 [sample_tx 1]) [] [] (fresh_store mem_empty))"

lemmas sample_block_lists = block_nullifiers_def tx_nullifiers_def block_commitments_def tx_commitments_def
  sample_tx_def sample_spend_def sample_output_def

lemma genesis_represents: "represents sample_ext mem_sled genesis_store genesis_ledger"
  using mem.apply_block_accepts [OF fresh_store_represents [OF no_data_mem],
      of "sample_block 0 [sample_tx 1]" sample_ext "[]" "[]"]
  by (simp add: genesis_store_def genesis_ledger_def spendable_def next_height_def empty_ledger_def sample_block_lists)

lemma genesis_ledger_simps:
  "next_height genesis_ledger = 1" "lg_spent genesis_ledger = {replicate 32 1}"
  "length (lg_leaves genesis_ledger) = 1"
  by (simp_all add: genesis_ledger_def empty_ledger_def sample_block_lists)

theorem refused_block_spends_nullifiers_witness:
  "fst (apply_block sample_ext mem_sled (sample_block 1 [sample_tx 2]) [] []
     (snd (apply_block sample_ext mem_sled (sample_block 1 [sample_tx 2, sample_tx 1]) [] [] genesis_store))) =
   Inl StorageDoubleSpend"
  using refused_block_spends_nullifiers [OF mem.sled_db_axioms genesis_represents,
      of "sample_block 1 [sample_tx 2, sample_tx 1]" "[sample_tx 2]" "sample_tx 1"
        "sample_block 1 [sample_tx 2]" "replicate 32 1" _ "[]" "[]", OF _ _ _ _ _ _ _ _ _ refl]
  by (simp add: genesis_ledger_simps spendable_def sample_block_lists)
    (simp add: sample_block_def)

section \<open>Contracts are kept apart\<close>

lemma map_of_rev_eq: "distinct (map fst kvs) \<Longrightarrow> map_of (rev kvs) = map_of kvs"
  by (intro map_of_eqI) (auto simp: rev_map [symmetric])

lemma collect_state_run:
  assumes "length p = 32" "\<forall>(k, v) \<in> set kvs. has_prefix p k" "distinct (map fst kvs)"
  shows "\<exists>m. collect_state (map Inr kvs) m0 = Inr m \<and>
    (\<forall>k. m k = (case map_of kvs (p @ k) of None \<Rightarrow> m0 k | Some v \<Rightarrow> Some v))"
  using assms(2,3)
proof (induction kvs arbitrary: m0)
  case (Cons kv kvs)
  obtain k v where kv: "kv = (k, v)" by (cases kv)
  then have k: "k = p @ drop 32 k"
    using Cons.prems(1) assms(1) by (metis append_take_drop_id case_prodD has_prefix_def list.set_intros(1))
  have rest: "\<forall>(k, v) \<in> set kvs. has_prefix p k" "distinct (map fst kvs)"
    using Cons.prems by simp_all
  have "length k \<ge> 32"
    using k assms(1) by (metis length_append le_add1)
  moreover obtain m where "collect_state (map Inr kvs) (m0(drop 32 k \<mapsto> v)) = Inr m"
      "\<forall>j. m j = (case map_of kvs (p @ j) of None \<Rightarrow> (m0(drop 32 k \<mapsto> v)) j | Some v \<Rightarrow> Some v)"
    using Cons.IH [OF rest, of "m0(drop 32 k \<mapsto> v)"] by blast
  moreover have "map_of kvs (p @ drop 32 k) = None"
    using Cons.prems(2) k by (simp add: kv map_of_eq_None_iff)
  moreover have "p @ j = k \<longleftrightarrow> j = drop 32 k" for j
    using k by (metis same_append_eq)
  ultimately show ?case
    by (auto simp: kv split: option.splits)
qed simp

context sled_db
begin

lemma get_contract_state_all_eq:
  assumes "length cid = 32"
  shows "\<exists>m. get_contract_state_all S cid db = Inr m \<and>
    (\<forall>k. get_contract_state S cid k db = Inr (m k))"
proof -
  obtain kvs where kvs: "sled_scan_prefix S db CF_CONTRACT_STATE cid = map Inr kvs" "distinct (map fst kvs)"
      "map_of kvs = (\<lambda>k. if has_prefix cid k then db_view S db CF_CONTRACT_STATE k else None)"
    using scan_ok by blast
  have "has_prefix cid k" if "(k, v) \<in> set kvs" for k v
    using kvs(2,3) that by (metis map_of_is_SomeI option.distinct(1))
  then obtain m where "collect_state (map Inr kvs) Map.empty = Inr m"
      "\<forall>k. m k = (case map_of kvs (cid @ k) of None \<Rightarrow> None | Some v \<Rightarrow> Some v)"
    using collect_state_run [OF assms, of kvs Map.empty] kvs(2) by auto
  then show ?thesis
    by (auto simp: get_contract_state_all_def get_contract_state_def open_ok kvs(1,3) cf_get_eq has_prefix_def
        split: option.splits)
qed

end

context sled_db
begin

lemma get_contract_state_after:
  assumes "represents X S s L" "length (lg_leaves L) + length (block_commitments b) < 2 ^ 32"
    and "fst (apply_block X S b changes contracts s) = Inr root" "distinct (map fst changes)"
  shows "get_contract_state S cid key (ss_db (snd (apply_block X S b changes contracts s))) =
    (case map_of changes (cid @ key) of Some v \<Rightarrow> Inr (Some v) | None \<Rightarrow> get_contract_state S cid key (ss_db s))"
  using apply_block_accepted(2) [OF assms(1-3)] assms(1,4)
  by (auto simp: represents_def ledger_trees_def get_contract_state_def cf_get_eq map_of_rev_eq map_add_def
      split: option.splits)

end

text \<open>
  Contract state is kept per contract. After a block, a contract reads under a key what the
  block's changes give under its own 32-byte identifier followed by that key, and what it read
  before otherwise; changes of other contracts never show. The bulk read returns the same
  values under all keys.
\<close>

theorem contract_state_isolated:
  assumes "sled_db S" "represents X S s L" "length (lg_leaves L) + length (block_commitments b) < 2 ^ 32"
    and "run = apply_block X S b changes contracts s" "fst run = Inr root" "distinct (map fst changes)"
    and "length cid = 32"
  shows "get_contract_state S cid key (ss_db (snd run)) =
      (case map_of changes (cid @ key) of Some v \<Rightarrow> Inr (Some v)
       | None \<Rightarrow> get_contract_state S cid key (ss_db s)) \<and>
    ((\<forall>k \<in> set (map fst changes). take 32 k \<noteq> cid) \<longrightarrow>
       get_contract_state S cid key (ss_db (snd run)) = get_contract_state S cid key (ss_db s)) \<and>
    (\<exists>m. get_contract_state_all S cid (ss_db (snd run)) = Inr m \<and>
       (\<forall>k. get_contract_state S cid k (ss_db (snd run)) = Inr (m k)))"
proof -
  have get: "get_contract_state S cid key (ss_db (snd run)) =
      (case map_of changes (cid @ key) of Some v \<Rightarrow> Inr (Some v)
       | None \<Rightarrow> get_contract_state S cid key (ss_db s))"
    using sled_db.get_contract_state_after [OF assms(1-3) _ assms(6)] assms(4,5) by simp
  have "map_of changes (cid @ key) = None" if "\<forall>k \<in> set (map fst changes). take 32 k \<noteq> cid"
  proof (rule ccontr)
    assume "map_of changes (cid @ key) \<noteq> None"
    then have "cid @ key \<in> set (map fst changes)"
      by (simp add: map_of_eq_None_iff)
    with that have "take 32 (cid @ key) \<noteq> cid" by blast
    with assms(7) show False by simp
  qed
  moreover have "\<exists>m. get_contract_state_all S cid (ss_db (snd run)) = Inr m \<and>
      (\<forall>k. get_contract_state S cid k (ss_db (snd run)) = Inr (m k))"
    by (rule sled_db.get_contract_state_all_eq [OF assms(1,7)])
  ultimately show ?thesis
    unfolding get by auto
qed

theorem contract_state_isolated_witness:
  "get_contract_state mem_sled (replicate 32 4) [1] (ss_db (snd (apply_block sample_ext mem_sled
      (sample_block 1 [sample_tx 2]) [(replicate 32 4 @ [1], [9]), (replicate 32 5 @ [1], [8])] [] genesis_store))) =
   Inr (Some [9])"
proof -
  let ?ch = "[(replicate 32 4 @ [1], [9]), (replicate 32 5 @ [1], [8])] :: (bytes \<times> bytes) list"
  have "fst (apply_block sample_ext mem_sled (sample_block 1 [sample_tx 2]) ?ch [] genesis_store) =
      Inr (ledger_root sample_ext (ledger_commit sample_ext (sample_block 1 [sample_tx 2]) ?ch [] genesis_ledger))"
    using mem.apply_block_accepts [OF genesis_represents, of "sample_block 1 [sample_tx 2]" ?ch "[]"]
    by (simp add: genesis_ledger_simps spendable_def sample_block_lists)
  then show ?thesis
    using contract_state_isolated [OF mem.sled_db_axioms genesis_represents, of "sample_block 1 [sample_tx 2]" _ ?ch "[]" _
        "replicate 32 4" "[1]", OF _ refl]
    by (simp add: genesis_ledger_simps sample_block_lists)
qed

section \<open>Anchors\<close>

text \<open>
  The root returned for a block is a valid anchor from then on for exactly the heights up to
  the block's height plus 100, and no other root becomes valid or invalid through the block.
\<close>

theorem anchor_valid_until_expiry:
  assumes "sled_db S" "represents X S s L" "length (lg_leaves L) + length (block_commitments b) < 2 ^ 32"
    and "run = apply_block X S b changes contracts s" "fst run = Inr root"
    and "unat (bh_height (blk_header b)) + 100 < 2 ^ 64"
  shows "is_valid_anchor S root h (ss_db (snd run)) =
      Inr (unat h \<le> unat (bh_height (blk_header b)) + 100) \<and>
    (\<forall>a. a \<noteq> root \<longrightarrow>
       is_valid_anchor S a h (ss_db (snd run)) = is_valid_anchor S a h (ss_db s))"
proof -
  let ?L = "ledger_commit X b changes contracts L"
  have acc: "root = ledger_root X ?L" and rep: "represents X S (snd run) ?L"
    using sled_db.apply_block_accepted [OF assms(1-3)] assms(4,5) by simp_all
  have read: "is_valid_anchor S a h (ss_db t) =
      Inr (case lg_anchors M a of None \<Rightarrow> False | Some e \<Rightarrow> h \<le> e)" if "represents X S t M" for a t M
    using that by (auto simp: represents_def ledger_trees_def is_valid_anchor_def sled_db.cf_get_eq [OF assms(1)]
        split: option.splits)
  have "lg_anchors ?L = (lg_anchors L)(root \<mapsto> bh_height (blk_header b) + ANCHOR_EXPIRY_BLOCKS)"
    by (simp add: acc ledger_root_def ledger_commit_def Let_def)
  moreover have "unat (bh_height (blk_header b) + ANCHOR_EXPIRY_BLOCKS) = unat (bh_height (blk_header b)) + 100"
    using assms(6) by (simp add: unat_add_no_wrap ANCHOR_EXPIRY_BLOCKS_def)
  ultimately show ?thesis
    by (simp add: read [OF rep] read [OF assms(2)] word_le_nat_alt)
qed

theorem anchor_valid_until_expiry_witness:
  "is_valid_anchor mem_sled (ledger_root sample_ext genesis_ledger) 100 (ss_db genesis_store) = Inr True"
  using anchor_valid_until_expiry [OF mem.sled_db_axioms fresh_store_represents [OF no_data_mem],
      of "sample_block 0 [sample_tx 1]" _ sample_ext "[]" "[]" "ledger_root sample_ext genesis_ledger" 100, OF _ refl]
    mem.apply_block_accepts [OF fresh_store_represents [OF no_data_mem],
      of "sample_block 0 [sample_tx 1]" sample_ext "[]" "[]"]
  by (simp add: genesis_store_def genesis_ledger_def spendable_def next_height_def empty_ledger_def sample_block_lists)

section \<open>Pruning\<close>

text \<open>Pruning on the ledger: a height loses its hash, the hash its block, the block its transactions.\<close>

definition ledger_prune_one :: "ext \<Rightarrow> u64 \<Rightarrow> ledger \<Rightarrow> ledger" where
  "ledger_prune_one X h L =
     (case lg_hashes L h of
        None \<Rightarrow> L
      | Some hash \<Rightarrow>
          (let L' = L\<lparr>lg_hashes := (lg_hashes L)(h := None)\<rparr>
           in case lg_blocks L hash of
                None \<Rightarrow> L'
              | Some b \<Rightarrow> L'\<lparr>lg_blocks := (lg_blocks L)(hash := None),
                  lg_txs := lg_txs L |` (- tx_id_of X ` set (blk_transactions b))\<rparr>))"

lemma readable_prune_one: "readable_ledger X L \<Longrightarrow> readable_ledger X (ledger_prune_one X h L)"
  by (fastforce simp: readable_ledger_def ledger_prune_one_def Let_def ran_def split: option.splits if_splits)

lemma ledger_prune_frame [simp]:
  "lg_height (ledger_prune_one X h L) = lg_height L"
  "lg_spent (ledger_prune_one X h L) = lg_spent L"
  "lg_leaves (ledger_prune_one X h L) = lg_leaves L"
  "lg_hashes (ledger_prune_one X h L) = (lg_hashes L)(h := None)"
  by (auto simp: ledger_prune_one_def Let_def fun_upd_idem split: option.splits)

context sled_db
begin

lemma remove_all:
  "fst (forEach (\<lambda>x. andThen (tree_remove S cf (key x)) (\<lambda>_. ok ())) xs db) = Inr () \<and>
   db_view S (snd (forEach (\<lambda>x. andThen (tree_remove S cf (key x)) (\<lambda>_. ok ())) xs db)) =
     (db_view S db)(cf := db_view S db cf |` (- key ` set xs))"
proof (induction xs arbitrary: db)
  case (Cons x xs)
  let ?m = "\<lambda>x. andThen (tree_remove S cf (key x)) (\<lambda>_. ok ())"
  let ?db = "after_remove S cf (key x) db"
  have run: "forEach ?m (x # xs) db = forEach ?m xs ?db"
    by (simp add: andThen_def store_simps)
  have "db_view S ?db cf |` (- key ` set xs) = db_view S db cf |` (- key ` set (x # xs))"
    by (auto simp: store_simps restrict_map_def fun_eq_iff)
  note IH = Cons [of ?db, unfolded this]
  show ?case
    unfolding run using IH by (simp only: after_remove_view fun_upd_upd simp_thms)
qed (simp add: Compl_eq_Diff_UNIV restrict_map_def)

lemma delete_block_view:
  assumes "db_view S db CF_BLOCKS h = map_option (bincode_block X) B"
    and "\<forall>b. B = Some b \<longrightarrow> bincode_block_de X (bincode_block X b) = Some b"
  shows "fst (delete_block X S h db) = Inr () \<and>
    db_view S (snd (delete_block X S h db)) = (case B of None \<Rightarrow> db_view S db
      | Some b \<Rightarrow> (db_view S db)(CF_TXS := db_view S db CF_TXS |` (- tx_id_of X ` set (blk_transactions b)),
          CF_BLOCKS := (db_view S db CF_BLOCKS)(h := None)))"
proof (cases B)
  case None
  with assms show ?thesis
    by (simp add: delete_block_def andThen_def get_block_eq)
next
  case (Some b)
  with assms have "get_block X S h db = Inr (Some b)"
    by (simp add: get_block_eq)
  with Some remove_all [of CF_TXS "tx_id_of X" "blk_transactions b" db] show ?thesis
    by (simp add: delete_block_def andThen_Inr store_simps)
qed

lemma prune_one_run:
  assumes "ledger_trees X S (db_view S db) L" "readable_ledger X L"
  shows "fst (prune_one X S h n db) = Inr (if lg_hashes L h = None then n else n + 1) \<and>
    ledger_trees X S (db_view S (snd (prune_one X S h n db))) (ledger_prune_one X h L) \<and>
    (\<forall>t \<in> {CF_NULLIFIERS, CF_COMMITMENTS, CF_TREE}.
       db_view S (snd (prune_one X S h n db)) t = db_view S db t)"
proof -
  have V: "db_view S db CF_META (height_key h) = lg_hashes L h"
    "db_view S db CF_BLOCKS = map_option (bincode_block X) \<circ> lg_blocks L"
    "db_view S db CF_TXS = map_option (bincode_tx X) \<circ> lg_txs L"
    using assms(1) by (simp_all add: ledger_trees_def)
  let ?db = "after_remove S CF_META (height_key h) db"
  show ?thesis
  proof (cases "lg_hashes L h")
    case None
    then have "ledger_prune_one X h L = L" by (simp add: ledger_prune_one_def)
    moreover have "db_view S ?db = db_view S db"
      using V None by (simp add: store_simps fun_upd_idem)
    ultimately show ?thesis
      using assms(1) None V by (simp add: prune_one_def andThen_def store_simps)
  next
    case (Some hash)
    then have len: "length hash = 32"
      using assms(2) by (auto simp: readable_ledger_def intro: ranI)
    have del: "fst (delete_block X S hash ?db) = Inr () \<and>
      db_view S (snd (delete_block X S hash ?db)) = (case lg_blocks L hash of None \<Rightarrow> db_view S ?db
        | Some b \<Rightarrow> (db_view S ?db)(CF_TXS := db_view S ?db CF_TXS |` (- tx_id_of X ` set (blk_transactions b)),
            CF_BLOCKS := (db_view S ?db CF_BLOCKS)(hash := None)))"
      using V assms(2) by (intro delete_block_view) (auto simp: store_simps readable_ledger_def intro: ranI)
    have run: "prune_one X S h n db = (Inr (n + 1), snd (delete_block X S hash ?db))"
      using del Some V len by (simp add: prune_one_def andThen_def store_simps split_beta)
    show ?thesis
      using del assms(1) Some V unfolding run
      by (auto simp: ledger_trees_def ledger_prune_one_def Let_def store_simps fun_eq_iff restrict_map_def
          split: option.splits)
  qed
qed

lemma prune_loop_run:
  assumes "ledger_trees X S (db_view S db) L" "readable_ledger X L" "distinct hs"
  shows "fst (prune_loop X S hs n db) = Inr (n + word_of_nat (length (filter (\<lambda>h. lg_hashes L h \<noteq> None) hs))) \<and>
    ledger_trees X S (db_view S (snd (prune_loop X S hs n db))) (fold (ledger_prune_one X) hs L) \<and>
    (\<forall>t \<in> {CF_NULLIFIERS, CF_COMMITMENTS, CF_TREE}.
       db_view S (snd (prune_loop X S hs n db)) t = db_view S db t)"
  using assms
proof (induction hs arbitrary: n db L)
  case (Cons h hs)
  let ?one = "prune_one X S h n db"
  note one = prune_one_run [OF Cons.prems(1,2), of h n]
  have run: "prune_loop X S (h # hs) n db =
      prune_loop X S hs (if lg_hashes L h = None then n else n + 1) (snd ?one)"
    using one by (simp only: prune_loop.simps andThen_Inr)
  have "filter (\<lambda>g. lg_hashes (ledger_prune_one X h L) g \<noteq> None) hs = filter (\<lambda>g. lg_hashes L g \<noteq> None) hs"
    using Cons.prems(3) by (intro filter_cong) auto
  note IH = Cons.IH [of "snd ?one" "ledger_prune_one X h L" "if lg_hashes L h = None then n else n + 1",
      unfolded this]
  from IH one Cons.prems show ?case
    unfolding run by (simp add: readable_prune_one)
qed simp

end

lemma ledger_prune_fields:
  "lg_height (fold (ledger_prune_one X) hs L) = lg_height L"
  "lg_hashes (fold (ledger_prune_one X) hs L) = lg_hashes L |` (- set hs)"
  "readable_ledger X L \<Longrightarrow> readable_ledger X (fold (ledger_prune_one X) hs L)"
  by (induction hs arbitrary: L) (auto simp: readable_prune_one restrict_map_def fun_eq_iff)

lemma ledger_prune_keeps:
  assumes "\<forall>h \<in> set hs. lg_hashes L h \<noteq> Some hash"
  shows "lg_blocks (fold (ledger_prune_one X) hs L) hash = lg_blocks L hash"
  using assms
proof (induction hs arbitrary: L)
  case (Cons h hs)
  have "lg_blocks (ledger_prune_one X h L) hash = lg_blocks L hash"
    using Cons.prems by (auto simp: ledger_prune_one_def Let_def split: option.splits)
  moreover have "\<forall>g \<in> set hs. lg_hashes (ledger_prune_one X h L) g \<noteq> Some hash"
    using Cons.prems by simp
  ultimately show ?case
    using Cons.IH by simp
qed simp

text \<open>Pruning as an operation on the ledger: the heights below the tip minus \<open>k\<close>, all present.\<close>

lemma prune_history_run:
  assumes "sled_db S" "ledger_trees X S (db_view S db) L" "readable_ledger X L"
    and height: "lg_height L = Some (word_of_nat (unat k + m))" "unat k + m < 2 ^ 64" "m > 0"
    and present: "\<And>i. i < m \<Longrightarrow> lg_hashes L (word_of_nat i) \<noteq> None"
  shows "fst (prune_history X S k db) = Inr (word_of_nat m) \<and>
    ledger_trees X S (db_view S (snd (prune_history X S k db))) (fold (ledger_prune_one X) (map word_of_nat [0..<m]) L) \<and>
    db_spent S (snd (prune_history X S k db)) = db_spent S db"
proof -
  define hs where "hs = map (word_of_nat :: nat \<Rightarrow> u64) [0..<m]"
  define T :: u64 where "T = word_of_nat (unat k + m)"
  have "(word_of_nat i :: u64) = word_of_nat j \<longleftrightarrow> i = j" if "i < m" "j < m" for i j
    using that height(2) by (simp add: word_of_nat_inject_64)
  then have dist: "distinct hs"
    by (auto simp: hs_def distinct_map inj_on_def)
  have all: "filter (\<lambda>h. lg_hashes L h \<noteq> None) hs = hs"
    using present by (auto simp: hs_def)
  have tip: "get_chain_height S db = Inr T"
    using sled_db.get_chain_height_eq [OF assms(1,2)] height(1) by (simp add: T_def)
  have un: "unat T = unat k + m"
    using height(2) by (simp only: T_def unat_of_nat take_bit_nat_eq_self) simp
  then have le: "k \<le> T" and nle: "\<not> T \<le> k"
    using height(3) by (simp_all add: word_le_nat_alt)
  have "unat (T - k) = m"
    by (simp add: unat_sub [OF le] un)
  then have "prune_history X S k db = prune_loop X S hs 0 db"
    by (simp add: prune_history_def andThen_def tip nle hs_def sled_db.open_tree_eq [OF assms(1)])
  then show ?thesis
    using sled_db.prune_loop_run [OF assms(1-3) dist, of 0] all
    by (simp add: db_spent_def) (simp add: hs_def)
qed

text \<open>
  Pruning an accepted chain to its last \<open>k\<close> blocks below the tip removes exactly the blocks
  more than \<open>k\<close> below it and returns their number; the newer blocks can still be read, and the
  height and the spent nullifiers do not change.
\<close>

theorem pruning_keeps_recent_blocks:
  assumes "sled_db S" "no_data S db" "length (chain_commitments bs) < 2 ^ 32"
    and "s = snd (apply_chain X S bs (fresh_store db))" "fst (apply_chain X S bs (fresh_store db)) = Inr ()"
    and "readable_chain X bs" "length bs \<le> 2 ^ 64"
    and old: "length bs = Suc (unat k + m)" "m > 0"
    and run: "run = prune_history X S k (ss_db s)"
  shows "fst run = Inr (word_of_nat m) \<and>
    (\<forall>i < m. get_block_by_height X S (word_of_nat i) (snd run) = Inr None) \<and>
    (\<forall>i < length bs. m \<le> i \<longrightarrow> get_block_by_height X S (word_of_nat i) (snd run) = Inr (Some (fst (bs ! i)))) \<and>
    get_chain_height S (snd run) = get_chain_height S (ss_db s) \<and>
    db_spent S (snd run) = db_spent S (ss_db s)"
proof -
  obtain L where L: "ledger_chain X bs empty_ledger = Some L" "represents X S s L"
    using sled_db.accepted_chain_represents [OF assms(1-3,5)] assms(4) by metis
  note ledger = ledger_of_chain [OF L(1) assms(7)]
  define hs where "hs = map (word_of_nat :: nat \<Rightarrow> u64) [0..<m]"
  define P where "P = fold (ledger_prune_one X) hs L"
  have trees: "ledger_trees X S (db_view S (ss_db s)) L"
    using L(2) by (simp add: represents_def)
  have readable: "readable_ledger X L"
    using ledger(3,4) assms(6) by (fastforce simp: readable_ledger_def readable_chain_def)
  have "lg_height L = Some (word_of_nat (unat k + m))"
    using ledger(2) old by (cases bs) simp_all
  moreover have "lg_hashes L (word_of_nat i) \<noteq> None" if "i < m" for i
    using ledger(1) [of i] old that by simp
  ultimately have pruned: "fst run = Inr (word_of_nat m)" "ledger_trees X S (db_view S (snd run)) P"
      "db_spent S (snd run) = db_spent S (ss_db s)"
    using prune_history_run [OF assms(1) trees readable, of k m] old assms(7) by (simp_all add: run P_def hs_def)
  have height: "get_chain_height S (snd run) = get_chain_height S (ss_db s)"
    using sled_db.get_chain_height_eq [OF assms(1) trees] sled_db.get_chain_height_eq [OF assms(1) pruned(2)]
    by (simp add: P_def ledger_prune_fields)
  have get: "get_block_by_height X S h (snd run) = Inr (Option.bind (lg_hashes P h) (lg_blocks P))" for h
    using sled_db.get_block_by_height_trees [OF assms(1) pruned(2)] ledger_prune_fields(3) [OF readable]
    by (simp add: P_def)
  have "lg_hashes P (word_of_nat i) = None" if "i < m" for i
    using that by (simp add: P_def ledger_prune_fields hs_def)
  moreover have "Option.bind (lg_hashes P (word_of_nat i)) (lg_blocks P) = Some (fst (bs ! i))"
    if i: "m \<le> i" "i < length bs" for i
  proof -
    have "word_of_nat i \<notin> set hs"
      using i assms(7) by (auto simp: hs_def word_of_nat_inject_64)
    moreover have "lg_hashes L h \<noteq> Some (block_hash_of X (fst (bs ! i)))" if h: "h \<in> set hs" for h
    proof -
      obtain j where "j < m" "h = word_of_nat j" using h by (auto simp: hs_def)
      then show ?thesis
        using ledger(1) [of j] i assms(6) by (auto simp: readable_chain_def distinct_conv_nth)
    qed
    ultimately show ?thesis
      using ledger(1) [OF i(2)] ledger(5) [OF assms(6) i(2)] ledger_prune_keeps [of hs L]
      by (simp add: P_def ledger_prune_fields)
  qed
  ultimately show ?thesis
    using pruned height get by simp
qed

theorem pruning_keeps_recent_blocks_witness:
  "fst (prune_history sample_codec mem_sled 0
     (ss_db (snd (apply_chain sample_codec mem_sled sample_chain (fresh_store mem_empty))))) = Inr 1"
  using pruning_keeps_recent_blocks [OF mem.sled_db_axioms no_data_mem chain_accepted_sample(2) refl
      chain_accepted_sample(1) readable_sample_chain, of 0 1, OF _ _ _ refl]
  by (simp add: sample_chain_def)

end
