(* ===== verification/Mempool.thy ===== *)
theory Mempool
  imports State_Store "HOL-Library.Sublist"
begin

text \<open>
  The private mempool (crates/noirnet-mempool/src/pool.rs). The two concurrent maps are modelled by their content: the transactions as an
  association list in iteration order, the reserved nullifiers as a map. Every method is one
  step here; \<open>Pool_Threads\<close> splits insertion and removal into the steps other threads can see.
  The random shuffle is a parameter that permutes its argument.
\<close>

section \<open>State and errors\<close>

datatype mempool_error =
    Full
  | AlreadyExists
  | PoolFeeTooLow u64
  | InvalidFormat tx_format_error
  | PoolDoubleSpend
  | AlreadySpent

record mempool =
  mp_txs :: "(tx_id \<times> transaction) list"
  mp_pending :: "hash32 \<rightharpoonup> tx_id"

definition mempool_new :: mempool where
  "mempool_new = \<lparr>mp_txs = [], mp_pending = Map.empty\<rparr>"

definition mempool_len :: "mempool \<Rightarrow> usize" where
  "mempool_len p = length (mp_txs p)"

definition mempool_is_empty :: "mempool \<Rightarrow> bool" where
  "mempool_is_empty p \<longleftrightarrow> mp_txs p = []"

definition get_all_transactions :: "mempool \<Rightarrow> transaction list" where
  "get_all_transactions p = map snd (mp_txs p)"

section \<open>Insertion\<close>

text \<open>
  The loop that checks each spend, first against the database, then against the reservations.
  A database error counts as spent.
\<close>

fun check_spends :: "'db sled \<Rightarrow> 'db \<Rightarrow> mempool \<Rightarrow> hash32 list \<Rightarrow> mempool_error + unit" where
  "check_spends S db p [] = Inr ()"
| "check_spends S db p (nf # nfs) =
     (if unwrap_or (nullifier_contains S nf db) True then Inl AlreadySpent
      else if mp_pending p nf \<noteq> None then Inl PoolDoubleSpend
      else check_spends S db p nfs)"

definition mempool_insert ::
  "ext \<Rightarrow> 'db sled \<Rightarrow> 'db \<Rightarrow> transaction \<Rightarrow> mempool \<Rightarrow> (mempool_error + unit) \<times> mempool" where
  "mempool_insert X S db tx p =
     (if length (mp_txs p) \<ge> MAX_MEMPOOL_SIZE then (Inl Full, p)
      else let txid = tx_id_of X tx
      in if map_of (mp_txs p) txid \<noteq> None then (Inl AlreadyExists, p)
      else case validate_format X tx of
        Inl e \<Rightarrow> (Inl (InvalidFormat e), p)
      | Inr _ \<Rightarrow>
          if tx_fee tx < MIN_FEE then (Inl (PoolFeeTooLow MIN_FEE), p)
          else case check_spends S db p (tx_nullifiers tx) of
            Inl e \<Rightarrow> (Inl e, p)
          | Inr _ \<Rightarrow>
              (Inr (), p\<lparr>mp_pending := fold (\<lambda>nf m. m(nf \<mapsto> txid)) (tx_nullifiers tx) (mp_pending p),
                         mp_txs := AList.update txid tx (mp_txs p)\<rparr>))"

section \<open>Selection and removal\<close>

fun select_loop :: "usize \<Rightarrow> u64 \<Rightarrow> transaction list \<Rightarrow> u64 \<Rightarrow> transaction list \<Rightarrow> transaction list" where
  "select_loop max_txs max_gas [] total_gas selected = selected"
| "select_loop max_txs max_gas (tx # txs) total_gas selected =
     (if length selected \<ge> max_txs then selected
      else if total_gas + tx_gas_limit tx > max_gas then select_loop max_txs max_gas txs total_gas selected
      else select_loop max_txs max_gas txs (total_gas + tx_gas_limit tx) (selected @ [tx]))"

definition select_for_block ::
  "ext \<Rightarrow> (transaction list \<Rightarrow> transaction list) \<Rightarrow> usize \<Rightarrow> u64 \<Rightarrow> mempool \<Rightarrow> transaction list" where
  "select_for_block X shuffle max_txs max_gas p =
     (let all_txs = map snd (mp_txs p);
          candidates = filter (\<lambda>tx. case validate_format X tx of Inl _ \<Rightarrow> False | Inr _ \<Rightarrow> True) all_txs;
          candidates = shuffle candidates;
          candidates = sort_key (\<lambda>tx. - uint (tx_fee tx)) candidates
      in select_loop max_txs max_gas candidates 0 [])"

definition remove_one :: "ext \<Rightarrow> transaction \<Rightarrow> mempool \<Rightarrow> mempool" where
  "remove_one X tx p =
     p\<lparr>mp_txs := AList.delete (tx_id_of X tx) (mp_txs p),
       mp_pending := fold (\<lambda>nf m. m(nf := None)) (tx_nullifiers tx) (mp_pending p)\<rparr>"

definition remove_mined :: "ext \<Rightarrow> transaction list \<Rightarrow> mempool \<Rightarrow> mempool" where
  "remove_mined X txs p = fold (remove_one X) txs p"

section \<open>What a pool guarantees\<close>

text \<open>
  The invariant: every transaction is stored once, under its identifier, and the reserved
  nullifiers are exactly those of the pooled transactions, each reserved for the one
  transaction that spends it.
\<close>

definition pool_inv :: "ext \<Rightarrow> mempool \<Rightarrow> bool" where
  "pool_inv X p \<longleftrightarrow>
     distinct (map fst (mp_txs p)) \<and>
     (\<forall>(txid, tx) \<in> set (mp_txs p). txid = tx_id_of X tx \<and> well_formatted X tx \<and>
        (\<forall>nf \<in> set (tx_nullifiers tx). mp_pending p nf = Some txid)) \<and>
     (\<forall>nf txid. mp_pending p nf = Some txid \<longrightarrow>
        (\<exists>tx. (txid, tx) \<in> set (mp_txs p) \<and> nf \<in> set (tx_nullifiers tx)))"

lemma pool_invD:
  assumes "pool_inv X p"
  shows "distinct (map fst (mp_txs p))"
    and "(k, tx) \<in> set (mp_txs p) \<Longrightarrow> k = tx_id_of X tx"
    and "(k, tx) \<in> set (mp_txs p) \<Longrightarrow> well_formatted X tx"
    and "(k, tx) \<in> set (mp_txs p) \<Longrightarrow> nf \<in> set (tx_nullifiers tx) \<Longrightarrow> mp_pending p nf = Some k"
    and "mp_pending p nf = Some k \<Longrightarrow> \<exists>tx. (k, tx) \<in> set (mp_txs p) \<and> nf \<in> set (tx_nullifiers tx)"
  using assms by (fastforce simp: pool_inv_def)+

lemma fold_reserve: "fold (\<lambda>nf m. m(nf \<mapsto> v)) nfs m = (\<lambda>nf. if nf \<in> set nfs then Some v else m nf)"
  by (induction nfs arbitrary: m) auto

lemma fold_release: "fold (\<lambda>nf m. m(nf := None)) nfs m = (\<lambda>nf. if nf \<in> set nfs then None else m nf)"
  by (induction nfs arbitrary: m) auto

lemma check_spends_reserved:
  "check_spends S db p nfs = Inr () \<Longrightarrow> nf \<in> set nfs \<Longrightarrow>
   mp_pending p nf = None \<and> nullifier_contains S nf db = Inr False"
  by (induction nfs) (auto split: if_splits simp: unwrap_or_def split: sum.splits)

lemma mempool_insert_Inr:
  assumes "mempool_insert X S db tx p = (Inr (), p')"
  shows "tx_id_of X tx \<notin> fst ` set (mp_txs p)" "validate_format X tx = Inr ()"
    "check_spends S db p (tx_nullifiers tx) = Inr ()" "length (mp_txs p) < MAX_MEMPOOL_SIZE"
    and "p' = \<lparr>mp_txs = mp_txs p @ [(tx_id_of X tx, tx)],
      mp_pending = (\<lambda>nf. if nf \<in> set (tx_nullifiers tx) then Some (tx_id_of X tx) else mp_pending p nf)\<rparr>"
  using assms
  by (auto simp: mempool_insert_def Let_def fold_reserve update_new map_of_eq_None_iff
      split: if_splits sum.splits)

lemma mempool_insert_Inl: "fst (mempool_insert X S db tx p) = Inl e \<Longrightarrow> snd (mempool_insert X S db tx p) = p"
  by (auto simp: mempool_insert_def Let_def split: if_splits sum.splits)

text \<open>
  C17: inserting keeps the pool consistent, whatever the database answers: the reservations stay
  exactly the nullifiers of the pooled transactions, and a refused transaction changes nothing.
\<close>

theorem mempool_insert_keeps_invariant:
  assumes "pool_inv X p"
  shows "pool_inv X (snd (mempool_insert X S db tx p)) \<and>
    (\<forall>e. fst (mempool_insert X S db tx p) = Inl e \<longrightarrow> snd (mempool_insert X S db tx p) = p)"
proof (cases "mempool_insert X S db tx p")
  case (Pair r p')
  show ?thesis
  proof (cases r)
    case (Inl e)
    then show ?thesis
      using assms Pair mempool_insert_Inl [of X S db tx p e] by auto
  next
    case (Inr u)
    then have eq: "mempool_insert X S db tx p = (Inr (), p')"
      using Pair by simp
    note ins = mempool_insert_Inr [OF eq]
    have "mp_pending p nf = None" if "nf \<in> set (tx_nullifiers tx)" for nf
      using check_spends_reserved [OF ins(3) that] by simp
    then show ?thesis
      using assms ins(1,2) Pair Inr
      by (fastforce simp: pool_inv_def ins(5) validate_format_Inr)
  qed
qed

theorem mempool_insert_keeps_invariant_witness:
  "pool_inv sample_ext (snd (mempool_insert sample_ext mem_sled mem_empty (sample_tx 1) mempool_new))"
  using mempool_insert_keeps_invariant [of sample_ext mempool_new mem_sled mem_empty "sample_tx 1"]
  by (simp add: pool_inv_def mempool_new_def)

text \<open>
  Over a faultless database, a transaction is accepted exactly when the pool has room, does
  not hold it, its format is valid and none of its nullifiers is spent or reserved; the minimum
  fee check never decides, since every valid fee tier exceeds it.
\<close>

theorem mempool_insert_accepts_iff:
  assumes "sled_db S"
  shows "(fst (mempool_insert X S db tx p) = Inr () \<longleftrightarrow>
      mempool_len p < MAX_MEMPOOL_SIZE \<and> map_of (mp_txs p) (tx_id_of X tx) = None \<and>
      well_formatted X tx \<and>
      (\<forall>nf \<in> set (tx_nullifiers tx). nf \<notin> db_spent S db \<and> mp_pending p nf = None)) \<and>
    fst (mempool_insert X S db tx p) \<noteq> Inl (PoolFeeTooLow MIN_FEE)"
proof -
  have has: "unwrap_or (nullifier_contains S nf db) True \<longleftrightarrow> nf \<in> db_spent S db" for nf
    by (simp add: sled_db.nullifier_contains_eq [OF assms] db_spent_def domIff)
  have check: "check_spends S db p nfs = Inr () \<longleftrightarrow>
      (\<forall>nf \<in> set nfs. nf \<notin> db_spent S db \<and> mp_pending p nf = None)"
    and errs: "check_spends S db p nfs \<noteq> Inl (PoolFeeTooLow MIN_FEE)" for nfs
    by (induction nfs) (simp_all add: has)
  have fmt: "(\<exists>u. validate_format X tx = Inr u) \<longleftrightarrow> well_formatted X tx"
    by (simp add: validate_format_Inr)
  have accepts: "fst (mempool_insert X S db tx p) = Inr () \<longleftrightarrow>
      mempool_len p < MAX_MEMPOOL_SIZE \<and> map_of (mp_txs p) (tx_id_of X tx) = None \<and>
      well_formatted X tx \<and>
      (\<forall>nf \<in> set (tx_nullifiers tx). nf \<notin> db_spent S db \<and> mp_pending p nf = None)"
    using check [of "tx_nullifiers tx"] fmt validate_format_fee [of X tx]
    by (auto simp: mempool_insert_def Let_def mempool_len_def split: sum.splits)
  have "fst (mempool_insert X S db tx p) \<noteq> Inl (PoolFeeTooLow MIN_FEE)"
    using errs [of "tx_nullifiers tx"] validate_format_fee [of X tx]
    by (auto simp: mempool_insert_def Let_def split: sum.splits)
  with accepts show ?thesis by simp
qed

theorem mempool_insert_accepts_iff_witness:
  "fst (mempool_insert sample_ext mem_sled mem_empty (sample_tx 1) mempool_new) = Inr ()"
  using mempool_insert_accepts_iff [OF mem.sled_db_axioms, of sample_ext mem_empty "sample_tx 1" mempool_new]
  by (simp add: well_formatted_sample_tx mempool_len_def mempool_new_def MAX_MEMPOOL_SIZE_def db_spent_def mem_empty_def)

section \<open>Selection\<close>

lemma subseq_set: "subseq xs ys \<Longrightarrow> set xs \<subseteq> set ys"
  by (induction rule: list_emb.induct) auto

lemma subseq_mset: "subseq xs ys \<Longrightarrow> mset xs \<subseteq># mset ys"
  by (induction rule: list_emb.induct) (auto intro: subset_mset.order_trans)

lemma subseq_distinct: "subseq xs ys \<Longrightarrow> distinct ys \<Longrightarrow> distinct xs"
  by (induction rule: list_emb.induct) (auto dest: subseq_set)

lemma subseq_sorted_wrt: "subseq xs ys \<Longrightarrow> sorted_wrt P ys \<Longrightarrow> sorted_wrt P xs"
  by (induction rule: list_emb.induct) (auto dest: subseq_set)

lemma select_loop_spec:
  assumes "unat tot = sum_list (map (\<lambda>tx. unat (tx_gas_limit tx)) selected)" "tot \<le> max_gas"
    and "length selected \<le> max_txs" "unat max_gas + 10000000 < 2 ^ 64"
    and "\<forall>tx \<in> set txs. unat (tx_gas_limit tx) \<le> 10000000"
  shows "\<exists>picked. select_loop max_txs max_gas txs tot selected = selected @ picked \<and>
    subseq picked txs \<and> length (selected @ picked) \<le> max_txs \<and>
    sum_list (map (\<lambda>tx. unat (tx_gas_limit tx)) (selected @ picked)) \<le> unat max_gas"
  using assms
proof (induction txs arbitrary: tot selected)
  case Nil
  then show ?case by (simp add: word_le_nat_alt)
next
  case (Cons tx txs)
  have no_wrap: "unat (tot + tx_gas_limit tx) = unat tot + unat (tx_gas_limit tx)"
    using Cons.prems by (intro unat_add_no_wrap) (simp add: word_le_nat_alt)
  consider "length selected \<ge> max_txs" | "length selected < max_txs" "tot + tx_gas_limit tx > max_gas"
    | "length selected < max_txs" "tot + tx_gas_limit tx \<le> max_gas"
    by (meson not_le)
  then show ?case
  proof cases
    case 1
    with Cons.prems show ?thesis by (simp add: word_le_nat_alt)
  next
    case 2
    with Cons.IH [OF Cons.prems(1-4)] Cons.prems(5) show ?thesis
      by (auto simp: not_le)
  next
    case 3
    have "\<exists>picked. select_loop max_txs max_gas txs (tot + tx_gas_limit tx) (selected @ [tx]) = (selected @ [tx]) @ picked \<and>
        subseq picked txs \<and> length ((selected @ [tx]) @ picked) \<le> max_txs \<and>
        sum_list (map (\<lambda>tx. unat (tx_gas_limit tx)) ((selected @ [tx]) @ picked)) \<le> unat max_gas"
      using 3 Cons.prems no_wrap by (intro Cons.IH) auto
    then obtain picked where "select_loop max_txs max_gas txs (tot + tx_gas_limit tx) (selected @ [tx]) = selected @ tx # picked"
        "subseq picked txs" "length (selected @ tx # picked) \<le> max_txs"
        "sum_list (map (\<lambda>tx. unat (tx_gas_limit tx)) (selected @ tx # picked)) \<le> unat max_gas"
      by auto
    moreover have "\<not> tot + tx_gas_limit tx > max_gas"
      using 3(2) by simp
    ultimately show ?thesis
      using 3(1) by (intro exI [of _ "tx # picked"]) simp
  qed
qed

text \<open>Two pooled transactions with a nullifier in common are the same.\<close>

lemma pooled_share_nullifier:
  assumes "pool_inv X p" "tx \<in> snd ` set (mp_txs p)" "tx' \<in> snd ` set (mp_txs p)"
    and "nf \<in> set (tx_nullifiers tx)" "nf \<in> set (tx_nullifiers tx')"
  shows "tx = tx'"
proof -
  have "(tx_id_of X t, t) \<in> set (mp_txs p)" if "t \<in> snd ` set (mp_txs p)" for t
    using that pool_invD(2) [OF assms(1)] by auto
  note pooled = this [OF assms(2)] this [OF assms(3)]
  have "tx_id_of X tx = tx_id_of X tx'"
    using pool_invD(4) [OF assms(1) pooled(1) assms(4)] pool_invD(4) [OF assms(1) pooled(2) assms(5)] by simp
  then show ?thesis
    using pooled by (metis eq_key_imp_eq_value [OF pool_invD(1) [OF assms(1)]])
qed

lemma pool_distinct:
  assumes "pool_inv X p"
  shows "distinct (map snd (mp_txs p))"
proof -
  have "map fst (mp_txs p) = map (tx_id_of X) (map snd (mp_txs p))"
    using assms by (auto simp: pool_inv_def)
  then have "distinct (map (tx_id_of X) (map snd (mp_txs p)))"
    using pool_invD(1) [OF assms] by (simp only:)
  then show ?thesis
    by (rule distinct_map [THEN iffD1, THEN conjunct1])
qed

text \<open>The candidates: the valid pooled transactions in order of fee.\<close>

definition fee_order :: "ext \<Rightarrow> (transaction list \<Rightarrow> transaction list) \<Rightarrow> mempool \<Rightarrow> transaction list" where
  "fee_order X shuffle p = sort_key (\<lambda>tx. - uint (tx_fee tx))
     (shuffle (filter (\<lambda>tx. case validate_format X tx of Inl _ \<Rightarrow> False | Inr _ \<Rightarrow> True) (map snd (mp_txs p))))"

lemma fee_order_facts:
  assumes "\<And>txs. mset (shuffle txs) = mset txs" "pool_inv X p"
  shows "mset (fee_order X shuffle p) \<subseteq># mset (get_all_transactions p)" "\<forall>tx \<in> set (fee_order X shuffle p). well_formatted X tx"
    and "sorted_wrt (\<lambda>a b. tx_fee a \<ge> tx_fee b) (fee_order X shuffle p)" "distinct (fee_order X shuffle p)"
proof -
  let ?valid = "\<lambda>tx. case validate_format X tx of Inl _ \<Rightarrow> False | Inr _ \<Rightarrow> True"
  have valid: "?valid tx \<longleftrightarrow> well_formatted X tx" for tx
    using validate_format_Inr [of X tx "()"] by (auto split: sum.splits)
  have mset: "mset (fee_order X shuffle p) = mset (filter ?valid (map snd (mp_txs p)))"
    using assms(1) by (simp add: fee_order_def)
  then show "mset (fee_order X shuffle p) \<subseteq># mset (get_all_transactions p)"
    by (simp add: get_all_transactions_def)
  show "\<forall>tx \<in> set (fee_order X shuffle p). well_formatted X tx"
    using mset_eq_setD [OF mset] valid by auto
  have "sorted (map (\<lambda>tx. - uint (tx_fee tx)) (fee_order X shuffle p))"
    by (simp add: fee_order_def)
  then show "sorted_wrt (\<lambda>a b. tx_fee a \<ge> tx_fee b) (fee_order X shuffle p)"
    unfolding sorted_map by (simp add: word_le_def)
  show "distinct (fee_order X shuffle p)"
    using mset_eq_imp_distinct_iff [OF mset] pool_distinct [OF assms(2)] by (simp only: distinct_filter)
qed


definition sample_pool :: mempool where
  "sample_pool = snd (mempool_insert sample_ext mem_sled mem_empty (sample_tx 1) mempool_new)"

lemma sample_pool_inv: "pool_inv sample_ext sample_pool"
  and sample_pool_txs: "mp_txs sample_pool = [(tx_id_of sample_ext (sample_tx 1), sample_tx 1)]"
proof -
  let ?r = "mempool_insert sample_ext mem_sled mem_empty (sample_tx 1) mempool_new"
  have "fst ?r = Inr ()"
    by (simp add: mempool_insert_def mempool_new_def MAX_MEMPOOL_SIZE_def Let_def validate_format_sample
        mem.nullifier_contains_eq mem_empty_def MIN_FEE_def)
  then have r: "?r = (Inr (), sample_pool)"
    by (simp add: sample_pool_def prod_eq_iff)
  note ins = mempool_insert_Inr [OF r]
  show "mp_txs sample_pool = [(tx_id_of sample_ext (sample_tx 1), sample_tx 1)]"
    using arg_cong [OF ins(5), of mp_txs] by (simp add: mempool_new_def)
  show "pool_inv sample_ext sample_pool"
    by (auto simp: pool_inv_def ins(5) mempool_new_def well_formatted_sample_tx)
qed


section \<open>Removal of mined transactions\<close>

text \<open>A mined transaction is in the pool, or shares no nullifier with any pooled one.\<close>

definition mined_fits :: "ext \<Rightarrow> mempool \<Rightarrow> transaction \<Rightarrow> bool" where
  "mined_fits X p tx \<longleftrightarrow>
     (tx_id_of X tx, tx) \<in> set (mp_txs p) \<or>
     (map_of (mp_txs p) (tx_id_of X tx) = None \<and> (\<forall>nf \<in> set (tx_nullifiers tx). mp_pending p nf = None))"

lemma mined_nullifier_not_shared:
  assumes "pool_inv X p" "mined_fits X p tx"
    and other: "(txid, tx') \<in> set (mp_txs p)" "txid \<noteq> tx_id_of X tx" "nf \<in> set (tx_nullifiers tx')"
  shows "nf \<notin> set (tx_nullifiers tx)"
proof
  assume nf: "nf \<in> set (tx_nullifiers tx)"
  have res: "mp_pending p nf = Some txid"
    by (rule pool_invD(4) [OF assms(1) other(1,3)])
  then have "(tx_id_of X tx, tx) \<in> set (mp_txs p)"
    using assms(2) nf by (auto simp: mined_fits_def)
  from pool_invD(4) [OF assms(1) this nf] show False
    using res other(2) by simp
qed

lemma mined_reservation_kept:
  assumes "pool_inv X p" "mined_fits X p tx"
    and res: "mp_pending p nf = Some txid" "nf \<notin> set (tx_nullifiers tx)"
  shows "txid \<noteq> tx_id_of X tx"
proof
  assume "txid = tx_id_of X tx"
  then obtain tx' where tx': "(tx_id_of X tx, tx') \<in> set (mp_txs p)" "nf \<in> set (tx_nullifiers tx')"
    using pool_invD(5) [OF assms(1) res(1)] by blast
  then have "(tx_id_of X tx, tx) \<in> set (mp_txs p)"
    using assms(2) by (auto simp: mined_fits_def map_of_eq_None_iff rev_image_eqI)
  with tx' res(2) show False
    using eq_key_imp_eq_value [OF pool_invD(1) [OF assms(1)]] by blast
qed

lemma remove_one_inv:
  assumes "pool_inv X p" "mined_fits X p tx"
  shows "pool_inv X (remove_one X tx p)"
proof -
  let ?id = "tx_id_of X tx"
  have dist: "distinct (map fst (AList.delete ?id (mp_txs p)))"
    by (rule AList.distinct_delete) (rule pool_invD(1) [OF assms(1)])
  show ?thesis
    unfolding pool_inv_def remove_one_def
  proof (simp only: mempool.simps fold_release dist, intro conjI ballI allI impI, goal_cases)
    case 1
    show ?case using dist by simp
  next
    case (2 kv)
    then have "kv \<in> set (AList.delete ?id (mp_txs p))"
      by (simp del: delete_simps)
    then obtain k t where kv: "kv = (k, t)" "(k, t) \<in> set (mp_txs p)" "k \<noteq> ?id"
      by (metis mem_delete surj_pair)
    show ?case
      using pool_invD(2-4) [OF assms(1) kv(2)] mined_nullifier_not_shared [OF assms kv(2,3)] kv(1) by auto
  next
    case (3 nf txid)
    then have nf: "mp_pending p nf = Some txid" "nf \<notin> set (tx_nullifiers tx)"
      by (auto split: if_splits)
    from pool_invD(5) [OF assms(1) nf(1)] mined_reservation_kept [OF assms nf] show ?case
      by (auto simp: mem_delete)
  qed
qed

lemma remove_one_simps [simp]:
  "mp_txs (remove_one X tx p) = AList.delete (tx_id_of X tx) (mp_txs p)"
  "mp_pending (remove_one X tx p) =
     (\<lambda>nf. if nf \<in> set (tx_nullifiers tx) then None else mp_pending p nf)"
  by (simp_all add: remove_one_def fold_release)

lemma mined_fits_removed: "mined_fits X (remove_one X tx p) tx"
  by (simp add: mined_fits_def delete_conv')

lemma mined_fits_remove_other:
  assumes "pool_inv X p" "mined_fits X p tx" "mined_fits X p tx'"
  shows "mined_fits X (remove_one X tx p) tx'"
proof (cases "tx_id_of X tx' = tx_id_of X tx")
  case True
  show ?thesis
  proof (cases "map_of (mp_txs p) (tx_id_of X tx)")
    case None
    then have "\<forall>nf \<in> set (tx_nullifiers tx'). mp_pending p nf = None"
      using assms(3) True by (auto simp: mined_fits_def map_of_eq_None_iff rev_image_eqI)
    then show ?thesis
      using True by (simp add: mined_fits_def delete_conv')
  next
    case (Some t)
    then have "(tx_id_of X tx, tx) \<in> set (mp_txs p)" "(tx_id_of X tx, tx') \<in> set (mp_txs p)"
      using assms(2,3) True by (auto simp: mined_fits_def)
    then have "tx' = tx"
      using eq_key_imp_eq_value [OF pool_invD(1) [OF assms(1)]] by blast
    then show ?thesis
      by (simp add: mined_fits_removed)
  qed
next
  case False
  then show ?thesis
    using assms(3) by (auto simp: mined_fits_def mem_delete)
qed

lemma remove_mined_run:
  assumes "pool_inv X p" "\<forall>tx \<in> set txs. mined_fits X p tx"
  shows "pool_inv X (remove_mined X txs p) \<and>
    (\<forall>tx \<in> set txs. map_of (mp_txs (remove_mined X txs p)) (tx_id_of X tx) = None \<and>
       (\<forall>nf \<in> set (tx_nullifiers tx). mp_pending (remove_mined X txs p) nf = None)) \<and>
    set (mp_txs (remove_mined X txs p)) \<subseteq> set (mp_txs p) \<and>
    (\<forall>k. map_of (mp_txs p) k = None \<longrightarrow> map_of (mp_txs (remove_mined X txs p)) k = None) \<and>
    (\<forall>nf. mp_pending p nf = None \<longrightarrow> mp_pending (remove_mined X txs p) nf = None)"
  using assms
proof (induction txs arbitrary: p)
  case Nil
  then show ?case by (simp add: remove_mined_def)
next
  case (Cons tx txs)
  let ?p = "remove_one X tx p"
  have inv: "pool_inv X ?p" "\<forall>t \<in> set txs. mined_fits X ?p t"
    using remove_one_inv mined_fits_remove_other Cons.prems by auto
  have run: "remove_mined X (tx # txs) p = remove_mined X txs ?p"
    by (simp add: remove_mined_def)
  have "map_of (mp_txs ?p) (tx_id_of X tx) = None" "\<forall>nf \<in> set (tx_nullifiers tx). mp_pending ?p nf = None"
    by (simp_all add: delete_conv')
  moreover have "set (mp_txs ?p) \<subseteq> set (mp_txs p)"
    by (auto simp: AList.delete_eq)
  moreover have "map_of (mp_txs p) k = None \<Longrightarrow> map_of (mp_txs ?p) k = None" for k
    by (simp add: delete_conv')
  moreover have "mp_pending p nf = None \<Longrightarrow> mp_pending ?p nf = None" for nf
    by simp
  ultimately show ?case
    unfolding run using Cons.IH [OF inv] by (simp del: remove_one_simps) blast
qed

text \<open>
  Removing mined transactions keeps the pool consistent, and removes them and their
  reservations, as long as each was in the pool or conflicts with nothing in it; nothing is added.
\<close>

theorem remove_mined_keeps_invariant:
  assumes "pool_inv X p" "\<forall>tx \<in> set txs. mined_fits X p tx"
  shows "pool_inv X (remove_mined X txs p) \<and>
    (\<forall>tx \<in> set txs. map_of (mp_txs (remove_mined X txs p)) (tx_id_of X tx) = None \<and>
       (\<forall>nf \<in> set (tx_nullifiers tx). mp_pending (remove_mined X txs p) nf = None)) \<and>
    set (mp_txs (remove_mined X txs p)) \<subseteq> set (mp_txs p)"
  using remove_mined_run [OF assms] by blast

theorem remove_mined_keeps_invariant_witness:
  "pool_inv sample_ext (remove_mined sample_ext [sample_tx 1, sample_tx 7] sample_pool)"
proof -
  have pending: "mp_pending sample_pool nf = None" if "nf \<noteq> replicate 32 1" for nf
  proof (cases "mp_pending sample_pool nf")
    case (Some k)
    then show ?thesis
      using pool_invD(5) [OF sample_pool_inv Some] that by (simp add: sample_pool_txs)
  qed simp
  have "tx_id_of sample_ext (sample_tx 7) \<noteq> tx_id_of sample_ext (sample_tx 1)"
    by (simp add: tx_id_of_def sample_ext_def sample_hash_def)
  then have "\<forall>tx \<in> set [sample_tx 1, sample_tx 7]. mined_fits sample_ext sample_pool tx"
    using pending by (simp add: mined_fits_def sample_pool_txs)
  then show ?thesis
    using remove_mined_keeps_invariant [OF sample_pool_inv, of "[sample_tx 1, sample_tx 7]"] by blast
qed

end
