(* ===== verification/Block_Builder.thy ===== *)
theory Block_Builder
  imports Chain_History Mempool
begin

text \<open>
  The block builder (crates/noirnet-consensus/src/block_builder.rs): the header it computes from
  the store, the gas-bounded choice among the transactions it is given, and what a store that
  represents a ledger makes of the result.
\<close>

section \<open>Building a block\<close>

definition nullifier_root_of :: "ext \<Rightarrow> transaction list \<Rightarrow> hash32" where
  "nullifier_root_of X txs =
     blake3 X (ascii ''NoirNet_NullifierRoot_v1'' @ concat (map (\<lambda>tx. concat (tx_nullifiers tx)) txs))"

text \<open>The loop over the transactions: the gas used and the transactions taken.\<close>

fun build_loop :: "transaction list \<Rightarrow> u64 \<Rightarrow> transaction list \<Rightarrow> u64 \<times> transaction list" where
  "build_loop [] gas_used valid_txs = (gas_used, valid_txs)"
| "build_loop (tx # txs) gas_used valid_txs =
     (if tx_gas_limit tx > MAX_TX_GAS then build_loop txs gas_used valid_txs
      else if gas_used + tx_gas_limit tx > MAX_BLOCK_GAS then (gas_used, valid_txs)
      else build_loop txs (gas_used + tx_gas_limit tx) (valid_txs @ [tx]))"

text \<open>
  \<open>parent_hash\<close>: a storage error reads as no block, but a stored hash that is not 32 bytes long
  makes the lookup panic, here \<open>None\<close>.
\<close>

definition parent_hash_of :: "ext \<Rightarrow> 'db sled \<Rightarrow> u64 \<Rightarrow> 'db \<Rightarrow> hash32 option" where
  "parent_hash_of X S parent_height db =
     (case get_block_by_height X S parent_height db of
        Inl StoragePanic \<Rightarrow> None
      | Inr (Some b) \<Rightarrow> Some (block_hash_of X b)
      | _ \<Rightarrow> Some Hash32_ZERO)"

definition build_block ::
  "ext \<Rightarrow> 'db sled \<Rightarrow> transaction list \<Rightarrow> bytes \<Rightarrow> bytes \<Rightarrow> u64 \<Rightarrow> u64 \<Rightarrow> 'db state_store \<Rightarrow> block option" where
  "build_block X S txs proposer vrf_out timestamp epoch s =
     (let parent_height = unwrap_or (get_chain_height S (ss_db s)) 0;
          has = unwrap_or (has_blocks S (ss_db s)) False;
          current_height = (if \<not> has then 0 else parent_height + 1)
      in case (if has then parent_hash_of X S parent_height (ss_db s) else Some Hash32_ZERO) of
           None \<Rightarrow> None
         | Some parent_hash \<Rightarrow>
             (case build_loop txs 0 [] of
                (gas_used, valid_txs) \<Rightarrow>
                  Some \<lparr>blk_header =
                     \<lparr>bh_height = current_height, bh_parent_hash = parent_hash,
                      bh_state_root = state_root X s, bh_tx_root = compute_tx_root X txs,
                      bh_nullifier_root = nullifier_root_of X txs, bh_timestamp = timestamp,
                      bh_epoch = epoch, bh_vrf_output = vrf_out, bh_proposer = proposer,
                      bh_chain_id = DEVNET_CHAIN_ID, bh_gas_used = gas_used,
                      bh_gas_limit = MAX_BLOCK_GAS\<rparr>,
                   blk_transactions = valid_txs, blk_aggregate_proof = [],
                   blk_bls_aggregate_sig = [], blk_validator_bitfield = 0\<rparr>))"

section \<open>Gas\<close>

text \<open>The loop takes a subsequence, within both limits, and its counter is the exact sum.\<close>

lemma build_loop_spec:
  assumes "unat gas = sum_list (map (\<lambda>tx. unat (tx_gas_limit tx)) valid)" "unat gas \<le> 100000000"
    and "\<forall>tx \<in> set valid. unat (tx_gas_limit tx) \<le> 10000000"
  shows "\<exists>picked gas'. build_loop txs gas valid = (gas', valid @ picked) \<and> subseq picked txs \<and>
    unat gas' = sum_list (map (\<lambda>tx. unat (tx_gas_limit tx)) (valid @ picked)) \<and> unat gas' \<le> 100000000 \<and>
    (\<forall>tx \<in> set (valid @ picked). unat (tx_gas_limit tx) \<le> 10000000)"
  using assms
proof (induction txs arbitrary: gas valid)
  case Nil
  then show ?case by simp
next
  case (Cons tx txs)
  show ?case
  proof (cases "tx_gas_limit tx > MAX_TX_GAS")
    case True
    then show ?thesis
      using Cons.IH [OF Cons.prems] by (auto intro: list_emb_Cons)
  next
    case fits: False
    then have small: "unat (tx_gas_limit tx) \<le> 10000000"
      by (simp add: word_less_nat_alt unat_MAX_TX_GAS)
    then have add: "unat (gas + tx_gas_limit tx) = unat gas + unat (tx_gas_limit tx)"
      using Cons.prems(2) by (intro unat_add_no_wrap) simp
    show ?thesis
    proof (cases "gas + tx_gas_limit tx > MAX_BLOCK_GAS")
      case True
      then have "build_loop (tx # txs) gas valid = (gas, valid @ [])"
        using fits by simp
      then show ?thesis
        using Cons.prems by (metis append_Nil2 list_emb_Nil)
    next
      case False
      then have "unat (gas + tx_gas_limit tx) \<le> 100000000"
        by (simp add: word_less_nat_alt unat_MAX_BLOCK_GAS)
      with add small Cons.prems obtain picked gas' where
        "build_loop txs (gas + tx_gas_limit tx) (valid @ [tx]) = (gas', (valid @ [tx]) @ picked)"
        "subseq picked txs"
        "unat gas' = sum_list (map (\<lambda>tx. unat (tx_gas_limit tx)) ((valid @ [tx]) @ picked))"
        "unat gas' \<le> 100000000" "\<forall>t \<in> set ((valid @ [tx]) @ picked). unat (tx_gas_limit t) \<le> 10000000"
        using Cons.IH [of "gas + tx_gas_limit tx" "valid @ [tx]"] by auto
      then show ?thesis
        using fits False by (intro exI [of _ "tx # picked"] exI [of _ gas']) simp
    qed
  qed
qed

text \<open>It takes as many of the transactions within the gas limit of one as fit, in order.\<close>

lemma build_loop_prefix:
  assumes "unat gas \<le> 100000000" "fitting = filter (\<lambda>tx. unat (tx_gas_limit tx) \<le> 10000000) txs"
  shows "\<exists>k \<le> length fitting. snd (build_loop txs gas valid) = valid @ take k fitting \<and>
    (k < length fitting \<longrightarrow> unat (fst (build_loop txs gas valid)) + unat (tx_gas_limit (fitting ! k)) > 100000000)"
  using assms
proof (induction txs arbitrary: gas valid fitting)
  case (Cons tx txs)
  show ?case
  proof (cases "tx_gas_limit tx > MAX_TX_GAS")
    case True
    then have "fitting = filter (\<lambda>tx. unat (tx_gas_limit tx) \<le> 10000000) txs"
      using Cons.prems(2) by (simp add: word_less_nat_alt unat_MAX_TX_GAS)
    from Cons.IH [OF Cons.prems(1) this] True show ?thesis
      by simp
  next
    case fits: False
    then have small: "unat (tx_gas_limit tx) \<le> 10000000"
      by (simp add: word_less_nat_alt unat_MAX_TX_GAS)
    then have add: "unat (gas + tx_gas_limit tx) = unat gas + unat (tx_gas_limit tx)"
      using Cons.prems(1) by (intro unat_add_no_wrap) simp
    have head: "fitting = tx # filter (\<lambda>tx. unat (tx_gas_limit tx) \<le> 10000000) txs" (is "_ = tx # ?rest")
      using Cons.prems(2) small by simp
    show ?thesis
    proof (cases "gas + tx_gas_limit tx > MAX_BLOCK_GAS")
      case True
      then show ?thesis
        using fits add head by (intro exI [of _ 0]) (simp add: word_less_nat_alt unat_MAX_BLOCK_GAS)
    next
      case False
      then have "unat (gas + tx_gas_limit tx) \<le> 100000000"
        by (simp add: word_less_nat_alt unat_MAX_BLOCK_GAS)
      from Cons.IH [OF this refl, of "valid @ [tx]"] obtain k where "k \<le> length ?rest"
        "snd (build_loop txs (gas + tx_gas_limit tx) (valid @ [tx])) = (valid @ [tx]) @ take k ?rest"
        "k < length ?rest \<longrightarrow> 100000000 < unat (fst (build_loop txs (gas + tx_gas_limit tx) (valid @ [tx]))) + unat (tx_gas_limit (?rest ! k))"
        by blast
      then show ?thesis
        using fits False head by (intro exI [of _ "Suc k"]) simp
    qed
  qed
qed simp

section \<open>The header over a faultless store\<close>

context sled_db
begin

lemma state_root_ledger:
  assumes "represents X S s L" "length (lg_leaves L) < 2 ^ 32"
  shows "state_root X s = ledger_root X L"
  using assms tree_holds_root [of X "ss_tree s" "lg_leaves L"]
  by (simp add: represents_def store_holds_def state_root_def ledger_root_def NOTE_COMMITMENT_TREE_DEPTH_def)

lemma build_block_ledger:
  assumes rep: "represents X S s L" and readable: "readable_ledger X L"
  shows "build_block X S txs proposer vrf_out timestamp epoch s = Some
    \<lparr>blk_header =
       \<lparr>bh_height = next_height L,
        bh_parent_hash = (case Option.bind (Option.bind (lg_height L) (lg_hashes L)) (lg_blocks L) of
          None \<Rightarrow> Hash32_ZERO | Some b \<Rightarrow> block_hash_of X b),
        bh_state_root = state_root X s, bh_tx_root = compute_tx_root X txs,
        bh_nullifier_root = nullifier_root_of X txs, bh_timestamp = timestamp, bh_epoch = epoch,
        bh_vrf_output = vrf_out, bh_proposer = proposer, bh_chain_id = DEVNET_CHAIN_ID,
        bh_gas_used = fst (build_loop txs 0 []), bh_gas_limit = MAX_BLOCK_GAS\<rparr>,
     blk_transactions = snd (build_loop txs 0 []), blk_aggregate_proof = [],
     blk_bls_aggregate_sig = [], blk_validator_bitfield = 0\<rparr>"
proof -
  have trees: "ledger_trees X S (db_view S (ss_db s)) L"
    using rep by (simp add: represents_def)
  note reads = get_chain_height_eq [OF trees] has_blocks_eq [OF trees]
    get_block_by_height_trees [OF trees readable]
  show ?thesis
    by (cases "lg_height L")
      (auto simp: build_block_def reads next_height_def parent_hash_of_def Let_def
        split: prod.split option.split)
qed

end

text \<open>
  C28: the builder proposes the block the store expects next: its height is the next one, its
  parent hash that of the block stored last, and \<open>gas_used\<close> the exact sum of its transactions' gas.
  Its transactions are the longest prefix, within the block gas limit, of those offered
  transactions that respect the limit of one transaction. The state root it
  writes is the root before the block; the transaction root hashes the identifiers and the nullifier root the
  nullifiers of all offered transactions, whether taken or not; the block carries no aggregate signature.
\<close>

theorem builder_proposes_next_block:
  assumes "sled_db S" "represents X S s L" "readable_ledger X L" "length (lg_leaves L) < 2 ^ 32"
    and "fitting = filter (\<lambda>tx. unat (tx_gas_limit tx) \<le> 10000000) txs"
  shows "\<exists>b k. build_block X S txs proposer vrf_out timestamp epoch s = Some b \<and>
    bh_height (blk_header b) = next_height L \<and>
    bh_parent_hash (blk_header b) =
      (case Option.bind (Option.bind (lg_height L) (lg_hashes L)) (lg_blocks L) of
         None \<Rightarrow> Hash32_ZERO | Some parent \<Rightarrow> block_hash_of X parent) \<and>
    subseq (blk_transactions b) txs \<and>
    blk_transactions b = take k fitting \<and>
    (k < length fitting \<longrightarrow> unat (bh_gas_used (blk_header b)) + unat (tx_gas_limit (fitting ! k)) > 100000000) \<and>
    (\<forall>tx \<in> set (blk_transactions b). unat (tx_gas_limit tx) \<le> 10000000) \<and>
    unat (bh_gas_used (blk_header b)) = sum_list (map (\<lambda>tx. unat (tx_gas_limit tx)) (blk_transactions b)) \<and>
    unat (bh_gas_used (blk_header b)) \<le> 100000000 \<and>
    bh_state_root (blk_header b) = ledger_root X L \<and>
    bh_tx_root (blk_header b) = (if txs = [] then Hash32_ZERO else blake3 X (concat (map (tx_id_of X) txs))) \<and>
    bh_nullifier_root (blk_header b) =
      blake3 X (ascii ''NoirNet_NullifierRoot_v1'' @ concat (map sd_nullifier (concat (map tx_spends txs)))) \<and>
    bh_timestamp (blk_header b) = timestamp \<and> bh_epoch (blk_header b) = epoch \<and>
    bh_proposer (blk_header b) = proposer \<and> bh_vrf_output (blk_header b) = vrf_out \<and>
    blk_bls_aggregate_sig b = []"
proof -
  obtain picked gas where loop: "build_loop txs 0 [] = (gas, picked)" "subseq picked txs"
      "unat gas = sum_list (map (\<lambda>tx. unat (tx_gas_limit tx)) picked)" "unat gas \<le> 100000000"
      "\<forall>tx \<in> set picked. unat (tx_gas_limit tx) \<le> 10000000"
    using build_loop_spec [of 0 "[]" txs] by auto
  obtain k where k: "picked = take k fitting"
      "k < length fitting \<longrightarrow> unat gas + unat (tx_gas_limit (fitting ! k)) > 100000000"
    using build_loop_prefix [OF _ assms(5), of 0 "[]"] loop(1) by auto
  have nullifiers: "concat (map (\<lambda>tx. concat (tx_nullifiers tx)) ts) = concat (map sd_nullifier (concat (map tx_spends ts)))" for ts
    by (induction ts) (simp_all add: tx_nullifiers_def)
  show ?thesis
    unfolding sled_db.build_block_ledger [OF assms(1-3)]
    by (rule exI, rule exI [of _ k], intro conjI, rule refl)
      (use loop k sled_db.state_root_ledger [OF assms(1,2,4)] nullifiers [of txs] in
        \<open>simp_all add: nullifier_root_of_def compute_tx_root_def\<close>)
qed

section \<open>A concrete run\<close>

definition one_block_ledger :: ledger where
  "one_block_ledger = ledger_commit sample_codec (sample_block 0 [sample_tx 1]) [] [] empty_ledger"

definition one_block_store :: "mem_db state_store" where
  "one_block_store = snd (apply_block sample_codec mem_sled (sample_block 0 [sample_tx 1]) [] [] (fresh_store mem_empty))"

lemma one_block_represents: "represents sample_codec mem_sled one_block_store one_block_ledger"
  using mem.apply_block_accepts [OF fresh_store_represents [OF no_data_mem],
      of "sample_block 0 [sample_tx 1]" sample_codec "[]" "[]"]
  by (simp add: one_block_store_def one_block_ledger_def spendable_def next_height_def empty_ledger_def
      sample_block_lists)

lemma one_block_readable: "readable_ledger sample_codec one_block_ledger"
  using readable_sample_chain
  by (auto simp: readable_ledger_def one_block_ledger_def ledger_commit_def empty_ledger_def Let_def
      readable_chain_def sample_chain_def)

lemma one_block_simps:
  "next_height one_block_ledger = 1" "length (lg_leaves one_block_ledger) = 1"
  by (simp_all add: one_block_ledger_def empty_ledger_def sample_block_lists)

theorem builder_proposes_next_block_witness:
  "\<exists>b. build_block sample_codec mem_sled [sample_tx 2, sample_tx 3] [] [] 7 1 one_block_store = Some b \<and>
    bh_height (blk_header b) = 1 \<and> blk_transactions b = [sample_tx 2, sample_tx 3] \<and>
    bh_nullifier_root (blk_header b) =
      blake3 sample_codec (ascii ''NoirNet_NullifierRoot_v1'' @ replicate 32 2 @ replicate 32 3)"
proof -
  have small: "unat (tx_gas_limit (sample_tx n)) = 21000" for n
    by (simp add: sample_tx_def)
  have spends: "tx_spends (sample_tx n) = [sample_spend n]" "sd_nullifier (sample_spend n) = replicate 32 n" for n
    by (simp_all add: sample_tx_def sample_spend_def)
  have short: "length (lg_leaves one_block_ledger) < 2 ^ 32"
    by (simp add: one_block_simps)
  from small have "[sample_tx 2, sample_tx 3] = filter (\<lambda>tx. unat (tx_gas_limit tx) \<le> 10000000) [sample_tx 2, sample_tx 3]"
    by simp
  from builder_proposes_next_block [OF mem.sled_db_axioms one_block_represents one_block_readable short this, of "[]" "[]" 7 1]
  obtain b k where b: "build_block sample_codec mem_sled [sample_tx 2, sample_tx 3] [] [] 7 1 one_block_store = Some b"
    "bh_height (blk_header b) = 1" "blk_transactions b = take k [sample_tx 2, sample_tx 3]"
    "k < 2 \<longrightarrow> unat (bh_gas_used (blk_header b)) + unat (tx_gas_limit ([sample_tx 2, sample_tx 3] ! k)) > 100000000"
    "unat (bh_gas_used (blk_header b)) = sum_list (map (\<lambda>tx. unat (tx_gas_limit tx)) (blk_transactions b))"
    "bh_nullifier_root (blk_header b) =
      blake3 sample_codec (ascii ''NoirNet_NullifierRoot_v1'' @ replicate 32 2 @ replicate 32 3)"
    by (elim exE conjE, intro that) (assumption | simp add: one_block_simps spends)+
  have "\<not> k < 2"
    using b(3-5) small by (auto simp: less_2_cases_iff)
  with b show ?thesis
    by (intro exI [of _ b]) (simp add: not_less)
qed

end
