(* ===== verification/Bft.thy ===== *)
theory Bft
  imports Weighted_Choice Chain_Types "HOL-Library.FSet"
begin

text \<open>
  The state of one BFT round (crates/noirnet-consensus/src/bft.rs): the phase and, per block
  hash, the identifiers that prevoted and precommitted. The three operations are the code's;
  a step relation runs them in any order and records the votes delivered, and the invariants
  are proved by rule induction over it. Two quorums of one round overlap in an honest
  validator by the interface \<open>two_thirds\<close>.
\<close>

section \<open>State and operations\<close>

datatype bft_phase = Bft_Propose | Bft_Prevote | Bft_Precommit | Bft_Commit

record bft_round_state =
  brs_height :: u64
  brs_round :: u32
  brs_phase :: bft_phase
  brs_prevotes :: "hash32 \<rightharpoonup> bytes fset"
  brs_precommits :: "hash32 \<rightharpoonup> bytes fset"
  brs_total_validators :: usize

text \<open>\<open>BftRoundState::new\<close>\<close>

definition bft_round_new :: "u64 \<Rightarrow> u32 \<Rightarrow> usize \<Rightarrow> bft_round_state" where
  "bft_round_new height rnd total_validators =
     \<lparr>brs_height = height, brs_round = rnd, brs_phase = Bft_Propose, brs_prevotes = Map.empty,
      brs_precommits = Map.empty, brs_total_validators = total_validators\<rparr>"

text \<open>\<open>map.entry(hash).or_insert_with(HashSet::new).insert(id)\<close>: the new map, and whether the id is new.\<close>

definition record_voter ::
  "hash32 \<Rightarrow> bytes \<Rightarrow> (hash32 \<rightharpoonup> bytes fset) \<Rightarrow> bool \<times> (hash32 \<rightharpoonup> bytes fset)" where
  "record_voter hash vid m =
     (let voters = (case m hash of None \<Rightarrow> {||} | Some vs \<Rightarrow> vs)
      in (vid |\<notin>| voters, m(hash \<mapsto> finsert vid voters)))"

definition add_vote :: "vote \<Rightarrow> bft_round_state \<Rightarrow> bool \<times> bft_round_state" where
  "add_vote v s =
     (if vote_height v \<noteq> brs_height s \<or> vote_round v \<noteq> brs_round s then (False, s)
      else case vote_kind v of
        Prevote \<Rightarrow>
          (case record_voter (vote_block_hash v) (vote_validator_id v) (brs_prevotes s) of
             (new, m) \<Rightarrow> (new, s\<lparr>brs_prevotes := m\<rparr>))
      | Precommit \<Rightarrow>
          (case record_voter (vote_block_hash v) (vote_validator_id v) (brs_precommits s) of
             (new, m) \<Rightarrow> (new, s\<lparr>brs_precommits := m\<rparr>)))"

definition has_quorum_prevote :: "bft_round_state \<Rightarrow> hash32 \<Rightarrow> bool" where
  "has_quorum_prevote s hash =
     (case brs_prevotes s hash of
        Some voters \<Rightarrow> fcard voters * 3 > brs_total_validators s * 2
      | None \<Rightarrow> False)"

definition has_quorum_precommit :: "bft_round_state \<Rightarrow> hash32 \<Rightarrow> bool" where
  "has_quorum_precommit s hash =
     (case brs_precommits s hash of
        Some voters \<Rightarrow> fcard voters * 3 > brs_total_validators s * 2
      | None \<Rightarrow> False)"

definition try_advance_phase :: "hash32 \<Rightarrow> bft_round_state \<Rightarrow> bft_phase option \<times> bft_round_state" where
  "try_advance_phase hash s =
     (if brs_phase s = Bft_Propose then (Some Bft_Prevote, s\<lparr>brs_phase := Bft_Prevote\<rparr>)
      else if brs_phase s = Bft_Prevote \<and> has_quorum_prevote s hash
        then (Some Bft_Precommit, s\<lparr>brs_phase := Bft_Precommit\<rparr>)
      else if brs_phase s = Bft_Precommit \<and> has_quorum_precommit s hash
        then (Some Bft_Commit, s\<lparr>brs_phase := Bft_Commit\<rparr>)
      else (None, s))"

section \<open>Steps and reachable rounds\<close>

text \<open>
  A round state with the votes handed to \<open>add_vote\<close> so far, from a new rnd by any sequence of
  votes and attempts to advance.
\<close>

inductive bft_step :: "vote list \<times> bft_round_state \<Rightarrow> vote list \<times> bft_round_state \<Rightarrow> bool" where
  Vote: "bft_step (votes, s) (votes @ [v], snd (add_vote v s))"
| Advance: "bft_step (votes, s) (votes, snd (try_advance_phase hash s))"

inductive_cases bft_stepE: "bft_step (votes, s) (votes', s')"

inductive bft_reach :: "u64 \<Rightarrow> u32 \<Rightarrow> usize \<Rightarrow> vote list \<Rightarrow> bft_round_state \<Rightarrow> bool"
  for height rnd n where
  New: "bft_reach height rnd n [] (bft_round_new height rnd n)"
| Step: "bft_reach height rnd n votes s \<Longrightarrow> bft_step (votes, s) (votes', s') \<Longrightarrow>
    bft_reach height rnd n votes' s'"

text \<open>The voters a table holds under a hash.\<close>

definition voters :: "(hash32 \<rightharpoonup> bytes fset) \<Rightarrow> hash32 \<Rightarrow> bytes set" where
  "voters m hash = (case m hash of None \<Rightarrow> {} | Some vs \<Rightarrow> fset vs)"

definition voted :: "vote list \<Rightarrow> u64 \<Rightarrow> u32 \<Rightarrow> vote_type \<Rightarrow> hash32 \<Rightarrow> bytes set" where
  "voted votes height rnd kind hash =
     {vote_validator_id v |v. v \<in> set votes \<and> vote_height v = height \<and> vote_round v = rnd \<and>
        vote_kind v = kind \<and> vote_block_hash v = hash}"

lemma voters_record_voter:
  "voters (snd (record_voter hash vid m)) h = (if h = hash then insert vid (voters m h) else voters m h)"
  by (auto simp: voters_def record_voter_def Let_def split: option.splits)

lemma voted_snoc:
  "voted (votes @ [v]) height rnd kind hash = voted votes height rnd kind hash \<union>
     (if vote_height v = height \<and> vote_round v = rnd \<and> vote_kind v = kind \<and> vote_block_hash v = hash
      then {vote_validator_id v} else {})"
  by (auto simp: voted_def)

lemma quorum_prevote_voters:
  "has_quorum_prevote s hash \<Longrightarrow> 3 * card (voters (brs_prevotes s) hash) > 2 * brs_total_validators s"
  by (auto simp: has_quorum_prevote_def voters_def fcard.rep_eq mult.commute split: option.splits)

lemma quorum_precommit_voters:
  "has_quorum_precommit s hash \<Longrightarrow> 3 * card (voters (brs_precommits s) hash) > 2 * brs_total_validators s"
  by (auto simp: has_quorum_precommit_def voters_def fcard.rep_eq mult.commute split: option.splits)

lemma add_vote_frame [frame_simps]:
  "brs_height (snd (add_vote v s)) = brs_height s"
  "brs_round (snd (add_vote v s)) = brs_round s"
  "brs_phase (snd (add_vote v s)) = brs_phase s"
  "brs_total_validators (snd (add_vote v s)) = brs_total_validators s"
  by (simp_all add: add_vote_def split_beta split: vote_type.splits)

lemma try_advance_frame [frame_simps]:
  "brs_height (snd (try_advance_phase h s)) = brs_height s"
  "brs_round (snd (try_advance_phase h s)) = brs_round s"
  "brs_prevotes (snd (try_advance_phase h s)) = brs_prevotes s"
  "brs_precommits (snd (try_advance_phase h s)) = brs_precommits s"
  "brs_total_validators (snd (try_advance_phase h s)) = brs_total_validators s"
  by (simp_all add: try_advance_phase_def)

lemma add_vote_voters:
  "voters (brs_prevotes (snd (add_vote v s))) h = voters (brs_prevotes s) h \<union>
     (if vote_height v = brs_height s \<and> vote_round v = brs_round s \<and> vote_kind v = Prevote \<and>
         vote_block_hash v = h then {vote_validator_id v} else {})"
  "voters (brs_precommits (snd (add_vote v s))) h = voters (brs_precommits s) h \<union>
     (if vote_height v = brs_height s \<and> vote_round v = brs_round s \<and> vote_kind v = Precommit \<and>
         vote_block_hash v = h then {vote_validator_id v} else {})"
  by (auto simp: add_vote_def split_beta voters_record_voter split: vote_type.splits if_splits)

text \<open>The tables hold exactly the votes delivered for this height and round.\<close>

lemma bft_reach_tables:
  assumes "bft_reach height rnd n votes s"
  shows "brs_height s = height \<and> brs_round s = rnd \<and> brs_total_validators s = n \<and>
    (\<forall>h. voters (brs_prevotes s) h = voted votes height rnd Prevote h) \<and>
    (\<forall>h. voters (brs_precommits s) h = voted votes height rnd Precommit h)"
  using assms
proof (induction votes s rule: bft_reach.induct)
  case New
  show ?case by (simp add: bft_round_new_def voters_def voted_def)
next
  case (Step votes s votes' s')
  from Step.hyps(2) Step.IH show ?case
    by (cases rule: bft_stepE) (auto simp: frame_simps add_vote_voters voted_snoc)
qed

lemma fcard_mono_voters:
  "has_quorum_prevote s h \<Longrightarrow> has_quorum_prevote (snd (add_vote v s)) h"
  "has_quorum_precommit s h \<Longrightarrow> has_quorum_precommit (snd (add_vote v s)) h"
  by (auto simp: has_quorum_prevote_def has_quorum_precommit_def add_vote_def record_voter_def Let_def
      fcard_finsert_if split: vote_type.splits option.splits)

lemma phase_quorums [simp]:
  "has_quorum_prevote (s\<lparr>brs_phase := p\<rparr>) = has_quorum_prevote s"
  "has_quorum_precommit (s\<lparr>brs_phase := p\<rparr>) = has_quorum_precommit s"
  by (simp_all add: has_quorum_prevote_def has_quorum_precommit_def fun_eq_iff split: option.split)

lemma bft_reach_phase:
  assumes "bft_reach height rnd n votes s"
  shows "(brs_phase s \<in> {Bft_Precommit, Bft_Commit} \<longrightarrow> (\<exists>h. has_quorum_prevote s h)) \<and>
    (brs_phase s = Bft_Commit \<longrightarrow> (\<exists>h. has_quorum_precommit s h))"
  using assms
proof (induction votes s rule: bft_reach.induct)
  case New
  show ?case by (simp add: bft_round_new_def)
next
  case (Step votes s votes' s')
  have "bft_step (votes, s) (votes', s') \<Longrightarrow>
      (\<exists>v. s' = snd (add_vote v s)) \<or> (\<exists>h. s' = snd (try_advance_phase h s))"
    by (auto elim: bft_stepE)
  then consider v where "s' = snd (add_vote v s)" | h where "s' = snd (try_advance_phase h s)"
    using Step.hyps(2) by blast
  then show ?case
  proof cases
    case (1 v)
    then show ?thesis
      using Step.IH fcard_mono_voters [of s _ v] by (simp add: frame_simps) blast
  next
    case (2 h)
    then show ?thesis
      using Step.IH by (fastforce simp: try_advance_phase_def split: if_splits)
  qed
qed

text \<open>
  However votes arrive and whenever the node tries to advance, the tables of a round count
  exactly the distinct validators whose prevote (precommit) for the hash, height and round was
  delivered; a round in its precommit phase has a hash prevoted by more than two thirds, and a
  committed round also one precommitted by more than two thirds.
\<close>

theorem bft_round_invariant:
  assumes "bft_reach height rnd n votes s"
  shows "(\<forall>h. voters (brs_prevotes s) h = voted votes height rnd Prevote h) \<and>
    (\<forall>h. voters (brs_precommits s) h = voted votes height rnd Precommit h) \<and>
    (brs_phase s \<in> {Bft_Precommit, Bft_Commit} \<longrightarrow>
       (\<exists>h. 3 * card (voted votes height rnd Prevote h) > 2 * n)) \<and>
    (brs_phase s = Bft_Commit \<longrightarrow> (\<exists>h. 3 * card (voted votes height rnd Precommit h) > 2 * n))"
  using bft_reach_tables [OF assms] bft_reach_phase [OF assms]
    quorum_prevote_voters [of s] quorum_precommit_voters [of s] by metis

section \<open>Agreement\<close>

text \<open>The quorum of the code, on sets of identifiers out of a validator set \<open>M\<close>.\<close>

interpretation bft_votes: two_thirds "fset M" "\<lambda>_. 1 :: nat"
  "\<lambda>Q. has_quorum_precommit ((bft_round_new 0 0 (fcard M))\<lparr>brs_precommits := [[] \<mapsto> Abs_fset Q]\<rparr>) []"
  for M :: "bytes fset"
proof unfold_locales
  fix Q assume "Q \<subseteq> fset M"
  then have "finite Q" by (rule finite_subset) simp
  then show "has_quorum_precommit ((bft_round_new 0 0 (fcard M))\<lparr>brs_precommits := [[] \<mapsto> Abs_fset Q]\<rparr>) [] \<longleftrightarrow>
      3 * sum (\<lambda>_. 1 :: nat) Q > 2 * sum (\<lambda>_. 1) (fset M)"
    by (auto simp: has_quorum_precommit_def bft_round_new_def fcard.rep_eq Abs_fset_inverse)
qed simp

lemma bft_votes_quorum:
  assumes "has_quorum_precommit s h" "brs_total_validators s = fcard M"
  shows "has_quorum_precommit ((bft_round_new 0 0 (fcard M))
    \<lparr>brs_precommits := [[] \<mapsto> Abs_fset (voters (brs_precommits s) h)]\<rparr>) []"
  using assms by (auto simp: has_quorum_precommit_def bft_round_new_def voters_def fset_inverse split: option.splits)

text \<open>
  C3: agreement within a round. If every delivered vote names a validator of the set, no honest
  validator precommits two hashes in one round, and fewer than a third are faulty, then two
  nodes that both see a precommit quorum for the same height and round see it for the same hash.
\<close>

theorem bft_agreement:
  assumes "bft_reach height rnd (fcard M) votes1 s1" "bft_reach height rnd (fcard M) votes2 s2"
    and members: "\<forall>v \<in> set votes1 \<union> set votes2. vote_validator_id v |\<in>| M"
    and faulty: "faulty \<subseteq> fset M" "3 * card faulty \<le> fcard M"
    and honest: "\<forall>v \<in> set votes1 \<union> set votes2. \<forall>w \<in> set votes1 \<union> set votes2.
        vote_validator_id v = vote_validator_id w \<and> vote_validator_id v \<notin> faulty \<and>
        vote_kind v = Precommit \<and> vote_kind w = Precommit \<and>
        vote_height v = height \<and> vote_height w = height \<and> vote_round v = rnd \<and> vote_round w = rnd \<longrightarrow>
        vote_block_hash v = vote_block_hash w"
    and "has_quorum_precommit s1 h1" "has_quorum_precommit s2 h2"
  shows "h1 = h2"
proof -
  note t1 = bft_reach_tables [OF assms(1)] and t2 = bft_reach_tables [OF assms(2)]
  have mem: "voted votes height rnd Precommit h \<subseteq> fset M" if "set votes \<subseteq> set votes1 \<union> set votes2" for votes h
    using members that by (auto simp: voted_def)
  obtain i where "i \<in> voters (brs_precommits s1) h1" "i \<in> voters (brs_precommits s2) h2" "i \<notin> faulty"
    using bft_votes.quorums_share_honest [of "voters (brs_precommits s1) h1" M "voters (brs_precommits s2) h2" faulty]
      bft_votes_quorum [OF assms(7), of M] bft_votes_quorum [OF assms(8), of M] faulty t1 t2
      mem [of votes1] mem [of votes2]
    by (auto simp: fcard.rep_eq)
  then have "i \<in> voted votes1 height rnd Precommit h1" "i \<in> voted votes2 height rnd Precommit h2" "i \<notin> faulty"
    using t1 t2 by simp_all
  then show ?thesis
    using honest by (auto simp: voted_def)
qed

definition sample_vote :: "vote_type \<Rightarrow> u8 \<Rightarrow> vote" where
  "sample_vote kind n = \<lparr>vote_height = 1, vote_round = 0, vote_block_hash = Hash32_ZERO, vote_kind = kind,
     vote_validator_id = replicate 32 n, vote_signature = replicate 96 0\<rparr>"

lemma sample_round_reach:
  "bft_reach 1 0 1 [sample_vote Precommit 5] (snd (add_vote (sample_vote Precommit 5) (bft_round_new 1 0 1)))"
  using bft_reach.Step [OF bft_reach.New bft_step.Vote, of 1 0 1 "sample_vote Precommit 5"] by simp

theorem bft_round_invariant_witness:
  "voters (brs_precommits (snd (add_vote (sample_vote Precommit 5) (bft_round_new 1 0 1)))) Hash32_ZERO =
     {replicate 32 5}"
  using bft_round_invariant [OF sample_round_reach] by (simp add: voted_def sample_vote_def)

theorem bft_agreement_witness:
  "{h. has_quorum_precommit (snd (add_vote (sample_vote Precommit 5) (bft_round_new 1 0 1))) h} = {Hash32_ZERO}"
proof -
  let ?s = "snd (add_vote (sample_vote Precommit 5) (bft_round_new 1 0 1))"
  have "fcard {|replicate 32 5 :: bytes|} = 1"
    by (simp add: fcard.rep_eq)
  then have reach: "bft_reach 1 0 (fcard {|replicate 32 5 :: bytes|}) [sample_vote Precommit 5] ?s"
    using sample_round_reach by simp
  have zero: "has_quorum_precommit ?s Hash32_ZERO"
    by (simp add: has_quorum_precommit_def add_vote_def sample_vote_def bft_round_new_def record_voter_def
        fcard.rep_eq)
  have "h = Hash32_ZERO" if "has_quorum_precommit ?s h" for h
    using bft_agreement [OF reach reach, of "{}", OF _ _ _ _ that zero] by (simp add: sample_vote_def)
  with zero show ?thesis by blast
qed

end
