(* ===== verification/Vm_Host.thy ===== *)
theory Vm_Host
  imports Externals
begin

text \<open>
  The contract virtual machine (crates/noirnet-vm: runtime.rs, host.rs): the execution context,
  gas and memory access, the four host functions and \<open>WasmRuntime::execute\<close>. Wasmtime is a
  parameter: it compiles, instantiates and calls a module. What the node relies on is the
  locale \<open>wasm_engine\<close>: guest code reaches the context through the host functions only.
\<close>

section \<open>Execution context\<close>

text \<open>
  \<open>VmPanic\<close> marks \<open>expect("Memory not initialized")\<close>; it is no value of the Rust type. The
  uncommitted writes are an association list, the entries of the hash map in iteration order.
  The linear memory is part of the context here; in Rust the context holds a handle to it.
\<close>

datatype vm_error = Wasmtime string | OutOfGas | MemoryViolation | InvalidModule | VmPanic

record contract_event =
  ce_contract :: hash32
  ce_data :: bytes

record exec_ctx =
  ec_contract_id :: hash32
  ec_caller_commitment :: bytes
  ec_gas_remaining :: u64
  ec_state_diff :: "(bytes \<times> bytes) list"
  ec_existing_state :: "bytes \<rightharpoonup> bytes"
  ec_events :: "contract_event list"
  ec_memory :: "bytes option"

record execution_result =
  er_return_data :: bytes
  er_gas_used :: u64
  er_state_changes :: "(bytes \<times> bytes) list"
  er_events :: "contract_event list"

type_synonym 'a vm_op = "(exec_ctx, vm_error, 'a) fallible"

definition charge_gas :: "u64 \<Rightarrow> unit vm_op" where
  "charge_gas amount c =
     (if ec_gas_remaining c < amount then (Inl OutOfGas, c)
      else (Inr (), c\<lparr>ec_gas_remaining := ec_gas_remaining c - amount\<rparr>))"

definition read_memory :: "u32 \<Rightarrow> u32 \<Rightarrow> bytes vm_op" where
  "read_memory ptr len c =
     (case ec_memory c of
        None \<Rightarrow> (Inl VmPanic, c)
      | Some data \<Rightarrow>
          (if unat ptr + unat len > length data then (Inl MemoryViolation, c)
           else (Inr (take (unat len) (drop (unat ptr) data)), c)))"

definition write_memory :: "u32 \<Rightarrow> bytes \<Rightarrow> unit vm_op" where
  "write_memory ptr bs c =
     (case ec_memory c of
        None \<Rightarrow> (Inl VmPanic, c)
      | Some data \<Rightarrow>
          (if unat ptr + length bs > length data then (Inl MemoryViolation, c)
           else (Inr (), c\<lparr>ec_memory :=
             Some (take (unat ptr) data @ bs @ drop (unat ptr + length bs) data)\<rparr>)))"

section \<open>Host functions\<close>

text \<open>
  The part of each host function after its arguments have been read from memory. A value length
  enters the gas formula as \<open>u64\<close>.
\<close>

definition storage_set_bytes :: "bytes \<Rightarrow> bytes \<Rightarrow> unit vm_op" where
  "storage_set_bytes key v =
     andThen (charge_gas (500 + word_of_nat (length v) * 10)) (\<lambda>_ c.
       (Inr (), c\<lparr>ec_state_diff := AList.update key v (ec_state_diff c)\<rparr>))"

definition emit_event_bytes :: "bytes \<Rightarrow> unit vm_op" where
  "emit_event_bytes d =
     andThen (charge_gas (100 + word_of_nat (length d) * 5)) (\<lambda>_ c.
       (Inr (), c\<lparr>ec_events := ec_events c @ [\<lparr>ce_contract = ec_contract_id c, ce_data = d\<rparr>]\<rparr>))"

text \<open>What a key reads as: the uncommitted writes first, then the state loaded before.\<close>

definition ctx_view :: "exec_ctx \<Rightarrow> bytes \<rightharpoonup> bytes" where
  "ctx_view c key =
     (case map_of (ec_state_diff c) key of Some v \<Rightarrow> Some v | None \<Rightarrow> ec_existing_state c key)"

definition storage_get_bytes :: "bytes \<Rightarrow> bytes option vm_op" where
  "storage_get_bytes key =
     andThen (charge_gas (200 + word_of_nat (length key) * 5)) (\<lambda>_ c. (Inr (ctx_view c key), c))"

definition storage_set :: "u32 \<Rightarrow> u32 \<Rightarrow> u32 \<Rightarrow> u32 \<Rightarrow> unit vm_op" where
  "storage_set k_ptr k_len v_ptr v_len =
     andThen (read_memory k_ptr k_len) (\<lambda>key.
     andThen (read_memory v_ptr v_len) (\<lambda>v. storage_set_bytes key v))"

definition emit_event :: "u32 \<Rightarrow> u32 \<Rightarrow> unit vm_op" where
  "emit_event d_ptr d_len = andThen (read_memory d_ptr d_len) emit_event_bytes"

definition sha3_256 :: "ext \<Rightarrow> u32 \<Rightarrow> u32 \<Rightarrow> u32 \<Rightarrow> unit vm_op" where
  "sha3_256 X in_ptr in_len out_ptr =
     andThen (read_memory in_ptr in_len) (\<lambda>d.
     andThen (charge_gas (50 + word_of_nat (length d) * 5)) (\<lambda>_.
     write_memory out_ptr (blake3 X d)))"

definition storage_get :: "u32 \<Rightarrow> u32 \<Rightarrow> u32 \<Rightarrow> 32 word vm_op" where
  "storage_get k_ptr k_len out_ptr =
     andThen (read_memory k_ptr k_len) (\<lambda>key.
     andThen (storage_get_bytes key) (\<lambda>found.
       case found of
         Some v \<Rightarrow> andThen (write_memory out_ptr v) (\<lambda>_. ok (word_of_nat (length v)))
       | None \<Rightarrow> ok (- 1)))"

section \<open>Running a contract\<close>

text \<open>
  Wasmtime. Instantiation runs the module's start function on the context it is given; there a host
  call panics, because the context has no memory yet, and a panic of a host function ends the
  execution of the guest (\<open>WtPanic\<close>). A call returns its result, the context and the fuel left; a trap
  carries the text of its error.
\<close>

datatype wt_stop = WtError string | WtPanic

record wasmtime =
  wt_module :: "bytes \<Rightarrow> string + unit"
  wt_instantiate :: "bytes \<Rightarrow> u64 \<Rightarrow> exec_ctx \<Rightarrow> (wt_stop + bytes option) \<times> exec_ctx \<times> u64"
  wt_has_func :: "bytes \<Rightarrow> bytes \<Rightarrow> bool"
  wt_call :: "bytes \<Rightarrow> bytes \<Rightarrow> u64 \<Rightarrow> exec_ctx \<Rightarrow> (string + unit) \<times> exec_ctx \<times> u64"
  wt_out_of_fuel :: "string \<Rightarrow> bool"

definition sat_sub :: "u64 \<Rightarrow> u64 \<Rightarrow> u64" where
  "sat_sub a b = (if b \<le> a then a - b else 0)"

text \<open>
  \<open>WasmRuntime::execute\<close>; \<open>args\<close> is not used. \<open>VmPanic\<close> is no return: the release build aborts the
  process.
\<close>

definition vm_execute ::
  "wasmtime \<Rightarrow> bytes \<Rightarrow> bytes \<Rightarrow> bytes \<Rightarrow> exec_ctx \<Rightarrow> vm_error + execution_result" where
  "vm_execute W code method args ctx =
     (case wt_module W code of
        Inl e \<Rightarrow> Inl (Wasmtime e)
      | Inr _ \<Rightarrow>
          (let gas_limit = ec_gas_remaining ctx
           in case wt_instantiate W code gas_limit ctx of
                (Inl WtPanic, _) \<Rightarrow> Inl VmPanic
              | (Inl (WtError e), _) \<Rightarrow> Inl (Wasmtime e)
              | (Inr None, _) \<Rightarrow> Inl MemoryViolation
              | (Inr (Some mem), ctx1, fuel1) \<Rightarrow>
                  (let ctx2 = ctx1\<lparr>ec_memory := Some mem\<rparr>
                   in if \<not> wt_has_func W code method then Inl MemoryViolation
                      else case wt_call W code method fuel1 ctx2 of
                        (Inr _, ctx3, remaining) \<Rightarrow>
                          Inr \<lparr>er_return_data = [], er_gas_used = sat_sub gas_limit remaining,
                               er_state_changes = ec_state_diff ctx3, er_events = ec_events ctx3\<rparr>
                      | (Inl e, _, _) \<Rightarrow>
                          (if wt_out_of_fuel W e then Inl OutOfGas else Inl (Wasmtime e)))))"

section \<open>Steps of a guest\<close>

text \<open>
  What running guest code does to the context: it changes linear memory, and it calls host
  functions, whose effect beyond memory is to charge gas, to write a key, to emit an event or
  to read a key. What is written or emitted comes from memory, at most 2^32 - 1 bytes at once.
\<close>

inductive vm_step :: "exec_ctx \<Rightarrow> exec_ctx \<Rightarrow> bool" where
  Memory: "vm_step c (c\<lparr>ec_memory := m\<rparr>)"
| Charge: "vm_step c (snd (charge_gas g c))"
| Set: "length v < 2 ^ 32 \<Longrightarrow> vm_step c (snd (storage_set_bytes key v c))"
| Emit: "length d < 2 ^ 32 \<Longrightarrow> vm_step c (snd (emit_event_bytes d c))"
| Get: "vm_step c (snd (storage_get_bytes key c))"

inductive_cases vm_stepE: "vm_step c c'"

inductive vm_reach :: "exec_ctx \<Rightarrow> exec_ctx \<Rightarrow> bool" where
  Refl [intro]: "vm_reach c c"
| Step: "vm_reach c c' \<Longrightarrow> vm_step c' c'' \<Longrightarrow> vm_reach c c''"

lemma vm_reach_trans: "vm_reach c' c'' \<Longrightarrow> vm_reach c c' \<Longrightarrow> vm_reach c c''"
  by (induction rule: vm_reach.induct) (auto intro: vm_reach.Step)

lemma vm_step_reach: "vm_step c c' \<Longrightarrow> vm_reach c c'"
  by (rule vm_reach.Step [OF vm_reach.Refl])

text \<open>A host operation stays within the steps of a guest if each of its parts does.\<close>

definition guest_op :: "'a vm_op \<Rightarrow> bool" where
  "guest_op m \<longleftrightarrow> (\<forall>c. vm_reach c (snd (m c)))"

lemma guest_op_bind:
  assumes "guest_op m" "\<And>a c. fst (m c) = Inr a \<Longrightarrow> guest_op (f a)"
  shows "guest_op (andThen m f)"
  unfolding guest_op_def
proof
  fix c
  show "vm_reach c (snd (andThen m f c))"
    using assms(1) assms(2) [of c]
    by (cases "fst (m c)") (auto simp: guest_op_def andThen_Inl andThen_Inr intro: vm_reach_trans)
qed

lemma guest_op_andThen: "guest_op m \<Longrightarrow> (\<And>a. guest_op (f a)) \<Longrightarrow> guest_op (andThen m f)"
  by (rule guest_op_bind)

lemma guest_op_ok [intro]: "guest_op (ok a)" "guest_op (err e)"
  by (auto simp: guest_op_def)

lemma read_memory_snd [simp]: "snd (read_memory p l c) = c"
  by (auto simp: read_memory_def split: option.splits)

lemma read_memory_length: "fst (read_memory p l c) = Inr bs \<Longrightarrow> length bs < 2 ^ 32"
  using unsigned_less [of l, where ?'a = nat]
  by (auto simp: read_memory_def split: option.splits if_splits)

lemma guest_op_parts:
  "guest_op (read_memory p l)" "guest_op (write_memory p bs)" "guest_op (charge_gas g)"
  "length v < 2 ^ 32 \<Longrightarrow> guest_op (storage_set_bytes key v)" "length d < 2 ^ 32 \<Longrightarrow> guest_op (emit_event_bytes d)"
  "guest_op (storage_get_bytes key)"
  by (auto simp: guest_op_def write_memory_def
      intro: vm_reach.Refl vm_step_reach [OF vm_step.Memory] vm_step_reach [OF vm_step.Charge]
        vm_step_reach [OF vm_step.Set] vm_step_reach [OF vm_step.Emit] vm_step_reach [OF vm_step.Get]
      split: option.splits)

text \<open>All four host functions are made of guest steps.\<close>

lemma host_functions_guest:
  "guest_op (storage_set kp kl vp vl)" "guest_op (emit_event dp dl)"
  "guest_op (sha3_256 X ip il op)" "guest_op (storage_get kp kl op)"
  unfolding storage_set_def emit_event_def sha3_256_def storage_get_def
  by (auto intro!: guest_op_bind guest_op_parts dest: read_memory_length split: option.splits)

locale wasm_engine =
  fixes W :: wasmtime
  assumes instantiate_steps: "vm_reach c (fst (snd (wt_instantiate W code fuel c)))"
    and call_steps: "vm_reach c (fst (snd (wt_call W code method fuel c)))"
    and fuel_bound: "snd (snd (wt_instantiate W code fuel c)) \<le> fuel"
      "snd (snd (wt_call W code method fuel c)) \<le> fuel"

section \<open>What a context keeps\<close>

text \<open>
  The order of contexts during one execution: same contract, caller and loaded state, no more gas
  than before, events only added and only in the contract's own name.
\<close>

definition ctx_le :: "exec_ctx \<Rightarrow> exec_ctx \<Rightarrow> bool" where
  "ctx_le c c' \<longleftrightarrow> ec_contract_id c' = ec_contract_id c \<and>
     ec_caller_commitment c' = ec_caller_commitment c \<and>
     ec_existing_state c' = ec_existing_state c \<and>
     ec_gas_remaining c' \<le> ec_gas_remaining c \<and>
     (\<exists>es. ec_events c' = ec_events c @ es \<and> (\<forall>e \<in> set es. ce_contract e = ec_contract_id c)) \<and>
     (distinct (map fst (ec_state_diff c)) \<longrightarrow> distinct (map fst (ec_state_diff c')))"

lemma ctx_le_refl [simp, intro]: "ctx_le c c"
  by (simp add: ctx_le_def)

lemma ctx_le_trans: "ctx_le c c' \<Longrightarrow> ctx_le c' c'' \<Longrightarrow> ctx_le c c''"
  by (fastforce simp: ctx_le_def)

lemma ctx_le_memory [simp]: "ctx_le c (c\<lparr>ec_memory := m\<rparr>)"
  by (simp add: ctx_le_def)

lemma snd_andThen_le:
  assumes "ctx_le c (snd (m c))" "\<And>a. fst (m c) = Inr a \<Longrightarrow> ctx_le (snd (m c)) (snd (f a (snd (m c))))"
  shows "ctx_le c (snd (andThen m f c))"
  using assms by (cases "fst (m c)") (auto simp: andThen_Inl andThen_Inr intro: ctx_le_trans)

lemma charge_gas_le: "ctx_le c (snd (charge_gas g c))"
  by (auto simp: charge_gas_def ctx_le_def word_sub_le_iff not_less)

lemma vm_step_le: "vm_step c c' \<Longrightarrow> ctx_le c c'"
proof (induction rule: vm_step.induct)
  case (Set c key v)
  show ?case
    unfolding storage_set_bytes_def
    by (intro snd_andThen_le charge_gas_le) (auto simp: ctx_le_def distinct_update)
next
  case (Emit c d)
  show ?case
    unfolding emit_event_bytes_def by (intro snd_andThen_le charge_gas_le) (auto simp: ctx_le_def)
next
  case (Get c key)
  show ?case
    unfolding storage_get_bytes_def by (intro snd_andThen_le charge_gas_le) auto
qed (auto intro: charge_gas_le)

lemma vm_reach_le: "vm_reach c c' \<Longrightarrow> ctx_le c c'"
  by (induction rule: vm_reach.induct) (auto intro: ctx_le_trans vm_step_le)

section \<open>What writing costs\<close>

text \<open>
  The host's prices for what an execution leaves behind: 500 and 10 per byte for each value kept, 100
  and 5 per byte for each event. The gas that is left plus this cost never grows.
\<close>

definition written_cost :: "(bytes \<times> bytes) list \<Rightarrow> contract_event list \<Rightarrow> nat" where
  "written_cost changes events =
     sum_list (map (\<lambda>(k, v). 500 + 10 * length v) changes) + sum_list (map (\<lambda>e. 100 + 5 * length (ce_data e)) events)"

definition budget :: "exec_ctx \<Rightarrow> nat" where
  "budget c = unat (ec_gas_remaining c) + written_cost (ec_state_diff c) (ec_events c)"

lemma update_cost:
  "sum_list (map (\<lambda>(k, v). 500 + 10 * length v) (AList.update key v kvs)) \<le>
     sum_list (map (\<lambda>(k, v). 500 + 10 * length v) kvs) + (500 + 10 * length v)"
  by (induction kvs) auto

lemma budget_memory [simp]: "budget (c\<lparr>ec_memory := m\<rparr>) = budget c"
  by (simp add: budget_def)

lemma charge_gas_outcome:
  obtains (refused) "charge_gas g c = (Inl OutOfGas, c)"
    | (charged) "charge_gas g c = (Inr (), c\<lparr>ec_gas_remaining := ec_gas_remaining c - g\<rparr>)"
        "unat (ec_gas_remaining c - g) + unat g = unat (ec_gas_remaining c)"
  by (cases "ec_gas_remaining c < g") (auto simp: charge_gas_def unat_sub not_less word_le_nat_alt)

lemma len64: "LENGTH(64) = 64"
  by simp

lemma unat_gas_formula:
  assumes "base + k * n < 2 ^ 64"
  shows "unat (word_of_nat base + word_of_nat n * word_of_nat k :: u64) = base + k * n"
proof -
  have eq: "(word_of_nat base + word_of_nat n * word_of_nat k :: u64) = word_of_nat (base + k * n)"
    by (simp add: mult.commute)
  show ?thesis
    unfolding eq using assms by (simp only: unat_of_nat len64 mod_less)
qed

lemma unat_price:
  assumes "base < 1000" "k \<le> 10" "n < 2 ^ 32"
  shows "unat (word_of_nat base + word_of_nat n * word_of_nat k :: u64) = base + k * n"
proof (rule unat_gas_formula)
  have "k * n \<le> 10 * 2 ^ 32"
    using assms(2,3) by (intro mult_le_mono) simp_all
  then show "base + k * n < 2 ^ 64"
    using assms(1) by simp
qed

lemma charge_budget: "budget (snd (charge_gas g c)) \<le> budget c"
  by (rule charge_gas_outcome [of g c]) (simp_all add: budget_def)

lemma set_budget:
  assumes "length v < 2 ^ 32"
  shows "budget (snd (storage_set_bytes key v c)) \<le> budget c"
  using unat_price [of 500 10 "length v"] assms update_cost [of key v "ec_state_diff c"]
  by (rule_tac charge_gas_outcome [of "500 + word_of_nat (length v) * 10" c])
    (simp_all add: storage_set_bytes_def andThen_def budget_def written_cost_def)

lemma emit_budget:
  assumes "length d < 2 ^ 32"
  shows "budget (snd (emit_event_bytes d c)) \<le> budget c"
  using unat_price [of 100 5 "length d"] assms
  by (rule_tac charge_gas_outcome [of "100 + word_of_nat (length d) * 5" c])
    (simp_all add: emit_event_bytes_def andThen_def budget_def written_cost_def)

lemma vm_step_budget: "vm_step c c' \<Longrightarrow> budget c' \<le> budget c"
proof (induction rule: vm_step.induct)
  case (Get c key)
  show ?case
    by (rule charge_gas_outcome [of "200 + word_of_nat (length key) * 5" c])
      (simp_all add: storage_get_bytes_def andThen_def budget_def)
qed (simp_all add: charge_budget set_budget emit_budget)

lemma vm_reach_budget: "vm_reach c c' \<Longrightarrow> budget c' \<le> budget c"
  by (induction rule: vm_reach.induct) (auto intro: order_trans vm_step_budget)

context wasm_engine
begin

lemma execute_effect:
  assumes "vm_execute W code method args ctx = Inr r"
  shows "\<exists>c. vm_reach ctx c \<and> er_state_changes r = ec_state_diff c \<and> er_events r = ec_events c \<and>
    er_gas_used r \<le> ec_gas_remaining ctx"
proof -
  obtain mem ctx1 fuel1 ctx3 remaining where
    inst: "wt_instantiate W code (ec_gas_remaining ctx) ctx = (Inr (Some mem), ctx1, fuel1)" and
    call: "wt_call W code method fuel1 (ctx1\<lparr>ec_memory := Some mem\<rparr>) = (Inr (), ctx3, remaining)" and
    r: "r = \<lparr>er_return_data = [], er_gas_used = sat_sub (ec_gas_remaining ctx) remaining,
      er_state_changes = ec_state_diff ctx3, er_events = ec_events ctx3\<rparr>"
    using assms by (auto simp: vm_execute_def Let_def split: sum.splits prod.splits option.splits if_splits wt_stop.splits)
  have "vm_reach ctx ctx1"
    using instantiate_steps [of ctx code "ec_gas_remaining ctx"] inst by simp
  moreover have "vm_reach ctx1 (ctx1\<lparr>ec_memory := Some mem\<rparr>)"
    by (intro vm_step_reach vm_step.Memory)
  moreover have "vm_reach (ctx1\<lparr>ec_memory := Some mem\<rparr>) ctx3"
    using call_steps [of "ctx1\<lparr>ec_memory := Some mem\<rparr>" code "method" fuel1] call by simp
  ultimately have "vm_reach ctx ctx3"
    by (blast intro: vm_reach_trans)
  moreover have "sat_sub g remaining \<le> g" for g
    by (simp add: sat_sub_def word_sub_le)
  ultimately show ?thesis
    using r by auto
qed

end

text \<open>
  C31: what a contract leaves behind is paid for. If an execution on an empty context returns, the
  host's price of everything it returns - 500 gas and 10 per byte for every value written, 100 and 5
  per byte for every event - fits into the gas it was given; the reported gas is at most the limit, every key is written once, and every event
  carries the executed contract's identifier. The only panic is that of a host call during
  instantiation.
\<close>

theorem vm_execute_sound:
  assumes "wasm_engine W" "ec_events ctx = []" "ec_state_diff ctx = []"
  shows "case vm_execute W code method args ctx of
      Inr r \<Rightarrow> written_cost (er_state_changes r) (er_events r) \<le> unat (ec_gas_remaining ctx) \<and>
        unat (er_gas_used r) \<le> unat (ec_gas_remaining ctx) \<and>
        (\<forall>e \<in> set (er_events r). ce_contract e = ec_contract_id ctx) \<and>
        distinct (map fst (er_state_changes r))
    | Inl e \<Rightarrow> e \<noteq> InvalidModule \<and>
        (e = VmPanic \<longrightarrow> fst (wt_instantiate W code (ec_gas_remaining ctx) ctx) = Inl WtPanic)"
proof (cases "vm_execute W code method args ctx")
  case (Inl e)
  then show ?thesis
    by (auto simp: vm_execute_def Let_def split: sum.splits prod.splits option.splits if_splits wt_stop.splits)
next
  case (Inr r)
  with wasm_engine.execute_effect [OF assms(1) Inr] obtain c where
    c: "vm_reach ctx c" "er_state_changes r = ec_state_diff c" "er_events r = ec_events c"
      "er_gas_used r \<le> ec_gas_remaining ctx"
    by blast
  have "written_cost (ec_state_diff c) (ec_events c) \<le> unat (ec_gas_remaining ctx)"
    using vm_reach_budget [OF c(1)] assms(2,3) by (simp add: budget_def written_cost_def)
  with vm_reach_le [OF c(1)] c(2-4) assms(2,3) Inr show ?thesis
    by (auto simp: ctx_le_def word_le_nat_alt)
qed

section \<open>Storage and memory\<close>

lemma charge_gas_enough:
  assumes "unat g \<le> unat (ec_gas_remaining c)"
  shows "charge_gas g c = (Inr (), c\<lparr>ec_gas_remaining := ec_gas_remaining c - g\<rparr>)"
  using assms by (simp add: charge_gas_def word_less_nat_alt)

text \<open>
  Reading a key right after setting it returns the value: with enough gas and in-range
  pointers, \<open>storage_get\<close> after \<open>storage_set\<close> returns the value's length, memory changes exactly
  in the output range, which then holds the value, and the gas charged is
  500 + 10 per value byte for the write and 200 + 5 per key byte for the read.
\<close>

theorem storage_get_after_set:
  assumes "ec_memory c = Some m" "unat kp + unat kl \<le> length m" "unat vp + unat vl \<le> length m"
    and "unat op + unat vl \<le> length m" "700 + 10 * unat vl + 5 * unat kl \<le> unat (ec_gas_remaining c)"
    and "run = andThen (storage_set kp kl vp vl) (\<lambda>_. storage_get kp kl op) c"
  shows "fst run = Inr (word_of_nat (unat vl)) \<and>
    ec_memory (snd run) = Some (take (unat op) m @ take (unat vl) (drop (unat vp) m) @ drop (unat op + unat vl) m) \<and>
    unat (ec_gas_remaining (snd run)) = unat (ec_gas_remaining c) - (700 + 10 * unat vl + 5 * unat kl)"
proof -
  define key where "key = take (unat kl) (drop (unat kp) m)"
  define v where "v = take (unat vl) (drop (unat vp) m)"
  have len: "length key = unat kl" "length v = unat vl"
    using assms(2,3) by (simp_all add: key_def v_def)
  have bound: "700 + 10 * unat vl + 5 * unat kl < 2 ^ 64"
    by (rule le_less_trans [OF assms(5)]) (rule order.strict_trans2 [OF unsigned_less], simp)
  let ?g1 = "500 + word_of_nat (length v) * 10 :: u64"
  let ?g2 = "200 + word_of_nat (length key) * 5 :: u64"
  have g: "unat ?g1 = 500 + 10 * unat vl" "unat ?g2 = 200 + 5 * unat kl"
    using unat_gas_formula [of 500 10 "length v"] unat_gas_formula [of 200 5 "length key"] bound len
    by simp_all
  let ?c1 = "c\<lparr>ec_gas_remaining := ec_gas_remaining c - ?g1,
    ec_state_diff := AList.update key v (ec_state_diff c)\<rparr>"
  have gas1: "unat (ec_gas_remaining c - ?g1) = unat (ec_gas_remaining c) - (500 + 10 * unat vl)"
    using assms(5) g(1) by (subst unat_sub) (simp_all add: word_le_nat_alt)
  have set: "storage_set kp kl vp vl c = (Inr (), ?c1)"
    using assms(1-3,5) g(1)
    by (simp add: storage_set_def storage_set_bytes_def andThen_def read_memory_def charge_gas_enough
        flip: key_def v_def)
  have "ctx_view (?c1\<lparr>ec_gas_remaining := x\<rparr>) key = Some v" for x
    by (simp add: ctx_view_def update_conv')
  then have get: "storage_get kp kl op ?c1 = (Inr (word_of_nat (length v)),
      ?c1\<lparr>ec_gas_remaining := ec_gas_remaining c - ?g1 - ?g2,
        ec_memory := Some (take (unat op) m @ v @ drop (unat op + length v) m)\<rparr>)"
    using assms(1,2,4,5) g(2) gas1 len
    by (simp add: storage_get_def storage_get_bytes_def andThen_def read_memory_def charge_gas_enough
        write_memory_def flip: key_def)
  have "unat (ec_gas_remaining c - ?g1 - ?g2) = unat (ec_gas_remaining c) - (700 + 10 * unat vl + 5 * unat kl)"
    using assms(5) g(2) gas1 by (subst unat_sub) (simp_all add: word_le_nat_alt)
  then show ?thesis
    using set get len by (simp add: assms(6) andThen_def flip: v_def)
qed

text \<open>
  A host call that runs out of gas or reaches beyond memory stops without writing: the
  context keeps its uncommitted writes and events; before memory is set (while the module's
  start function runs) every host call panics.
\<close>

theorem host_call_fails_without_writing:
  "(\<forall>e. fst (storage_set kp kl vp vl c) = Inl e \<longrightarrow>
      snd (storage_set kp kl vp vl c) = c \<and> e \<in> {VmPanic, MemoryViolation, OutOfGas}) \<and>
    (ec_memory c = None \<longrightarrow> storage_set kp kl vp vl c = (Inl VmPanic, c) \<and>
      emit_event kp kl c = (Inl VmPanic, c) \<and> storage_get kp kl op c = (Inl VmPanic, c)) \<and>
    (\<forall>m. ec_memory c = Some m \<and> unat kp + unat kl > length m \<longrightarrow>
      storage_set kp kl vp vl c = (Inl MemoryViolation, c) \<and>
      storage_get kp kl op c = (Inl MemoryViolation, c) \<and> emit_event kp kl c = (Inl MemoryViolation, c))"
  by (auto simp: storage_set_def storage_set_bytes_def emit_event_def storage_get_def andThen_def read_memory_def
      charge_gas_def split: prod.splits sum.splits option.splits if_splits)

section \<open>A context for examples\<close>

definition sample_ctx :: "u64 \<Rightarrow> exec_ctx" where
  "sample_ctx gas = \<lparr>ec_contract_id = replicate 32 1, ec_caller_commitment = replicate 32 0,
     ec_gas_remaining = gas, ec_state_diff = [], ec_existing_state = Map.empty, ec_events = [], ec_memory = None\<rparr>"

theorem storage_get_after_set_witness:
  "fst (andThen (storage_set 0 2 2 3) (\<lambda>_. storage_get 0 2 5)
     ((sample_ctx 1000)\<lparr>ec_memory := Some [7, 8, 1, 2, 3, 0, 0, 0, 0]\<rparr>)) = Inr 3"
  using storage_get_after_set [of "(sample_ctx 1000)\<lparr>ec_memory := Some [7, 8, 1, 2, 3, 0, 0, 0, 0]\<rparr>"
      "[7, 8, 1, 2, 3, 0, 0, 0, 0]" 0 2 2 3 5]
  by (simp add: sample_ctx_def)

end
