(* ===== verification/Crypto.thy ===== *)
theory Crypto
  imports Externals
begin

text \<open>
  crates/noirnet-crypto: nullifiers and commitments (nullifier.rs, commitment.rs), the VRF
  (vrf.rs), memo encryption (encryption.rs), Ed25519 keys and binding signatures (keys.rs) and
  the BLS wrappers (bls.rs). Ed25519, ChaCha20-Poly1305, X25519 and BLS12-381 are parameters;
  keys and signatures are their byte encodings. The interface of a signature scheme is the
  locale \<open>signature_scheme\<close>; randomness is an argument.
\<close>

section \<open>Primitives the crate calls\<close>

record crypto_ext =
  ed_public :: "bytes \<Rightarrow> bytes"
  ed_sign :: "bytes \<Rightarrow> bytes \<Rightarrow> bytes"
  ed_key_ok :: "bytes \<Rightarrow> bool"
  ed_verify :: "bytes \<Rightarrow> bytes \<Rightarrow> bytes \<Rightarrow> bool"
  aead_encrypt :: "bytes \<Rightarrow> bytes \<Rightarrow> bytes \<Rightarrow> bytes option"
  aead_decrypt :: "bytes \<Rightarrow> bytes \<Rightarrow> bytes \<Rightarrow> bytes option"
  x25519_public :: "bytes \<Rightarrow> bytes"
  x25519_dh :: "bytes \<Rightarrow> bytes \<Rightarrow> bytes"
  blake3_keyed_xof :: "bytes \<Rightarrow> bytes \<Rightarrow> nat \<Rightarrow> bytes"
  bls_secret_ok :: "bytes \<Rightarrow> bool"
  bls_public_ok :: "bytes \<Rightarrow> bool"
  bls_signature_ok :: "bytes \<Rightarrow> bool"
  bls_public :: "bytes \<Rightarrow> bytes"
  bls_sign_raw :: "bytes \<Rightarrow> bytes \<Rightarrow> bytes \<Rightarrow> bytes"
  bls_verify_raw :: "bytes \<Rightarrow> bytes \<Rightarrow> bytes \<Rightarrow> bytes \<Rightarrow> bool"
  bls_aggregate_raw :: "bytes list \<Rightarrow> bytes option"
  bls_fast_aggregate_verify :: "bytes \<Rightarrow> bytes \<Rightarrow> bytes \<Rightarrow> bytes list \<Rightarrow> bool"

section \<open>Nullifiers and commitments\<close>

definition compute_nullifier :: "ext \<Rightarrow> bytes \<Rightarrow> bytes \<Rightarrow> hash32 \<Rightarrow> hash32" where
  "compute_nullifier X nk rho cm = blake3 X (ascii ''NoirNet_Nullifier_v1'' @ nk @ rho @ cm)"

definition verify_nullifier :: "ext \<Rightarrow> bytes \<Rightarrow> bytes \<Rightarrow> hash32 \<Rightarrow> hash32 \<Rightarrow> bool" where
  "verify_nullifier X nk rho cm claimed \<longleftrightarrow> compute_nullifier X nk rho cm = claimed"

definition value_commitment :: "ext \<Rightarrow> u64 \<Rightarrow> bytes \<Rightarrow> bytes" where
  "value_commitment X v rcv = blake3 X (ascii ''NoirNet_ValueCommit_v1'' @ u64_to_le v @ rcv)"

text \<open>The value commitments take no part in the balance check; the sums are 64-bit.\<close>

definition check_value_balance :: "bytes list \<Rightarrow> bytes list \<Rightarrow> u64 \<Rightarrow> u64 list \<Rightarrow> u64 list \<Rightarrow> bool" where
  "check_value_balance spend_cvs output_cvs fee spend_values output_values \<longleftrightarrow>
     (let total_in = sum_list spend_values; total_out = sum_list output_values
      in total_in = total_out + fee)"

definition crypto_note_commitment :: "ext \<Rightarrow> u64 \<Rightarrow> bytes \<Rightarrow> bytes \<Rightarrow> bytes \<Rightarrow> bytes \<Rightarrow> hash32" where
  "crypto_note_commitment X v pk_d rho rcm diversifier =
     blake3 X (ascii ''NoirNet_note_cm_v1'' @ u64_to_le v @ pk_d @ rho @ rcm @ diversifier)"

definition rerandomize_commitment :: "ext \<Rightarrow> hash32 \<Rightarrow> bytes \<Rightarrow> hash32" where
  "rerandomize_commitment X cm alpha = blake3 X (ascii ''NoirNet_rerandom_v1'' @ cm @ alpha)"

section \<open>VRF\<close>

record vrf_output =
  vo_output :: bytes
  vo_proof :: bytes

definition vrf_message :: "bytes \<Rightarrow> bytes" where
  "vrf_message input = ascii ''NoirNet_VRF_v1'' @ input"

definition vrf_prove :: "ext \<Rightarrow> crypto_ext \<Rightarrow> bytes \<Rightarrow> bytes \<Rightarrow> vrf_output" where
  "vrf_prove X K sk input =
     (let sig = ed_sign K sk (vrf_message input)
      in \<lparr>vo_output = blake3 X sig, vo_proof = sig\<rparr>)"

definition vrf_verify :: "ext \<Rightarrow> crypto_ext \<Rightarrow> bytes \<Rightarrow> bytes \<Rightarrow> vrf_output \<Rightarrow> bool" where
  "vrf_verify X K vk input out \<longleftrightarrow>
     (if \<not> ed_key_ok K vk then False
      else if length (vo_proof out) \<noteq> 64 then False
      else if \<not> ed_verify K vk (vrf_message input) (vo_proof out) then False
      else vo_output out = blake3 X (vo_proof out))"

definition compute_epoch_beacon :: "ext \<Rightarrow> bytes \<Rightarrow> u64 \<Rightarrow> bytes" where
  "compute_epoch_beacon X prev height =
     blake3 X (ascii ''NoirNet_epoch_beacon_v1'' @ prev @ u64_to_le height)"

section \<open>Memo encryption\<close>

text \<open>The random nonce is an argument.\<close>

definition encrypt_memo :: "crypto_ext \<Rightarrow> bytes \<Rightarrow> bytes \<Rightarrow> bytes \<Rightarrow> bytes option" where
  "encrypt_memo K nonce key memo =
     (if length memo > MAX_MEMO_SIZE then None
      else case aead_encrypt K key nonce memo of None \<Rightarrow> None | Some c \<Rightarrow> Some (nonce @ c))"

definition decrypt_memo :: "crypto_ext \<Rightarrow> bytes \<Rightarrow> bytes \<Rightarrow> bytes option" where
  "decrypt_memo K key ciphertext =
     (if length ciphertext < 12 then None
      else aead_decrypt K key (take 12 ciphertext) (drop 12 ciphertext))"

definition kdf :: "ext \<Rightarrow> crypto_ext \<Rightarrow> bytes \<Rightarrow> bytes \<Rightarrow> nat \<Rightarrow> bytes" where
  "kdf X K ikm info n = blake3_keyed_xof K (blake3 X ikm) info n"

definition ct_eq :: "bytes \<Rightarrow> bytes \<Rightarrow> bool" where
  "ct_eq a b \<longleftrightarrow> (if length a \<noteq> length b then False else a = b)"

section \<open>Binding signatures\<close>

definition binding_message :: "ext \<Rightarrow> bytes list \<Rightarrow> bytes list \<Rightarrow> bytes \<Rightarrow> bytes" where
  "binding_message X spend_cvs output_cvs tx_bytes =
     blake3 X (ascii ''NoirNet_binding_sig_v1'' @ concat spend_cvs @ concat output_cvs @ tx_bytes)"

definition create_binding_sig :: "ext \<Rightarrow> crypto_ext \<Rightarrow> bytes list \<Rightarrow> bytes list \<Rightarrow> bytes \<Rightarrow> bytes \<Rightarrow> bytes" where
  "create_binding_sig X K spend_cvs output_cvs sk tx_bytes =
     ed_sign K sk (binding_message X spend_cvs output_cvs tx_bytes)"

definition verify_binding_sig ::
  "ext \<Rightarrow> crypto_ext \<Rightarrow> bytes list \<Rightarrow> bytes list \<Rightarrow> bytes \<Rightarrow> bytes \<Rightarrow> bytes \<Rightarrow> bool" where
  "verify_binding_sig X K spend_cvs output_cvs sig vk tx_bytes \<longleftrightarrow>
     (let msg = binding_message X spend_cvs output_cvs tx_bytes
      in if \<not> ed_key_ok K vk then False else ed_verify K vk msg sig)"

section \<open>Ed25519 key pairs\<close>

text \<open>A signing key is its 32-byte seed; the entropy of \<open>generate\<close> is an argument.\<close>

record ed25519_keypair =
  kp_signing_key :: bytes
  kp_verifying_key :: bytes

definition keypair_from_seed :: "crypto_ext \<Rightarrow> bytes \<Rightarrow> ed25519_keypair" where
  "keypair_from_seed K seed = \<lparr>kp_signing_key = seed, kp_verifying_key = ed_public K seed\<rparr>"

definition keypair_generate :: "crypto_ext \<Rightarrow> bytes \<Rightarrow> ed25519_keypair" where
  "keypair_generate K entropy = \<lparr>kp_signing_key = entropy, kp_verifying_key = ed_public K entropy\<rparr>"

definition keypair_sign :: "crypto_ext \<Rightarrow> ed25519_keypair \<Rightarrow> bytes \<Rightarrow> bytes" where
  "keypair_sign K kp msg = ed_sign K (kp_signing_key kp) msg"

definition keypair_verify :: "crypto_ext \<Rightarrow> ed25519_keypair \<Rightarrow> bytes \<Rightarrow> bytes \<Rightarrow> bool" where
  "keypair_verify K kp msg sig \<longleftrightarrow> ed_verify K (kp_verifying_key kp) msg sig"

definition public_key_bytes :: "ed25519_keypair \<Rightarrow> bytes" where
  "public_key_bytes kp = kp_verifying_key kp"

section \<open>The interface of a signature scheme\<close>

text \<open>
  What signing clients rely on: what was signed verifies under the signer's public key. Ed25519
  as documented meets it, and gives it for the schemes built on top: VRF outputs and binding
  signatures.
\<close>

locale signature_scheme =
  fixes public :: "bytes \<Rightarrow> bytes"
    and sign :: "bytes \<Rightarrow> bytes \<Rightarrow> 'sig"
    and verify :: "bytes \<Rightarrow> bytes \<Rightarrow> 'sig \<Rightarrow> bool"
  assumes verify_sign: "verify (public sk) msg (sign sk msg)"

locale ed25519 =
  fixes K :: crypto_ext
  assumes ed_verify_sign: "ed_verify K (ed_public K sk) msg (ed_sign K sk msg)"
    and ed_public_ok: "ed_key_ok K (ed_public K sk)"
    and ed_sign_length: "length (ed_sign K sk msg) = 64"

sublocale ed25519 \<subseteq> ed: signature_scheme "ed_public K" "ed_sign K" "ed_verify K"
  by unfold_locales (rule ed_verify_sign)

sublocale ed25519 \<subseteq> vrf: signature_scheme "ed_public K" "vrf_prove X K" "vrf_verify X K"
  for X :: ext
  by unfold_locales (simp add: vrf_verify_def vrf_prove_def Let_def ed_public_ok ed_sign_length ed_verify_sign)

sublocale ed25519 \<subseteq> binding: signature_scheme "ed_public K"
    "\<lambda>sk tx_bytes. create_binding_sig X K spend_cvs output_cvs sk tx_bytes"
    "\<lambda>vk tx_bytes sig. verify_binding_sig X K spend_cvs output_cvs sig vk tx_bytes"
  for X :: ext and spend_cvs output_cvs
  by unfold_locales (simp add: verify_binding_sig_def create_binding_sig_def Let_def ed_public_ok ed_verify_sign)

sublocale ed25519 \<subseteq> keypair: signature_scheme "\<lambda>seed. public_key_bytes (keypair_from_seed K seed)"
    "\<lambda>seed. keypair_sign K (keypair_from_seed K seed)" "\<lambda>vk. keypair_verify K \<lparr>kp_signing_key = [], kp_verifying_key = vk\<rparr>"
  by unfold_locales (simp add: keypair_sign_def keypair_verify_def public_key_bytes_def keypair_from_seed_def ed_verify_sign)

section \<open>BLS\<close>

datatype bls_error = InvalidSecretKey | InvalidPublicKey | InvalidSignature | AggregationFailed | VerificationFailed

definition bls_dst :: bytes where
  "bls_dst = ascii ''BLS_SIG_BLS12381G2_XMD:SHA-256_SSWU_RO_NUL_''"

definition bls_secret_from_bytes :: "crypto_ext \<Rightarrow> bytes \<Rightarrow> bls_error + bytes" where
  "bls_secret_from_bytes K bs = (if bls_secret_ok K bs then Inr bs else Inl InvalidSecretKey)"

definition bls_public_from_bytes :: "crypto_ext \<Rightarrow> bytes \<Rightarrow> bls_error + bytes" where
  "bls_public_from_bytes K bs = (if bls_public_ok K bs then Inr bs else Inl InvalidPublicKey)"

definition bls_signature_from_bytes :: "crypto_ext \<Rightarrow> bytes \<Rightarrow> bls_error + bytes" where
  "bls_signature_from_bytes K bs = (if bls_signature_ok K bs then Inr bs else Inl InvalidSignature)"

definition bls_public_key :: "crypto_ext \<Rightarrow> bytes \<Rightarrow> bytes" where
  "bls_public_key K sk = bls_public K sk"

definition bls_sign :: "crypto_ext \<Rightarrow> bytes \<Rightarrow> bytes \<Rightarrow> bytes" where
  "bls_sign K sk msg = bls_sign_raw K sk msg bls_dst"

definition bls_verify :: "crypto_ext \<Rightarrow> bytes \<Rightarrow> bytes \<Rightarrow> bytes \<Rightarrow> bool" where
  "bls_verify K sig msg pk \<longleftrightarrow> bls_verify_raw K sig msg bls_dst pk"

definition bls_aggregate :: "crypto_ext \<Rightarrow> bytes list \<Rightarrow> bls_error + bytes" where
  "bls_aggregate K sigs =
     (if sigs = [] then Inl AggregationFailed
      else case bls_aggregate_raw K sigs of None \<Rightarrow> Inl AggregationFailed | Some agg \<Rightarrow> Inr agg)"

definition bls_verify_batch :: "crypto_ext \<Rightarrow> bytes \<Rightarrow> bytes \<Rightarrow> bytes list \<Rightarrow> bool" where
  "bls_verify_batch K agg msg pks \<longleftrightarrow>
     (if pks = [] then False else bls_fast_aggregate_verify K agg msg bls_dst pks)"

section \<open>A stand-in for the primitives\<close>

text \<open>
  Concrete functions with the interfaces of the primitives, for the witnesses: a signature is
  the signer's key followed by a digest of the message, encryption appends a 16-byte tag that
  carries the key, and Diffie-Hellman is bytewise addition.
\<close>

definition pad32 :: "bytes \<Rightarrow> bytes" where
  "pad32 bs = take 32 (bs @ replicate 32 0)"

lemma length_pad32 [simp]: "length (pad32 bs) = 32"
  by (simp add: pad32_def)

definition sample_crypto :: crypto_ext where
  "sample_crypto = \<lparr>
     ed_public = (\<lambda>sk. sk), ed_sign = (\<lambda>sk msg. pad32 sk @ pad32 (rev msg)), ed_key_ok = (\<lambda>_. True),
     ed_verify = (\<lambda>vk msg sig. sig = pad32 vk @ pad32 (rev msg)),
     aead_encrypt = (\<lambda>key nonce msg. Some (msg @ take 16 (key @ replicate 16 0))),
     aead_decrypt = (\<lambda>key nonce c. if length c < 16 \<or> drop (length c - 16) c \<noteq> take 16 (key @ replicate 16 0)
        then None else Some (take (length c - 16) c)),
     x25519_public = (\<lambda>sk. sk), x25519_dh = (\<lambda>sk pk. map2 (+) sk pk),
     blake3_keyed_xof = (\<lambda>key msg n. replicate n 0),
     bls_secret_ok = (\<lambda>_. True), bls_public_ok = (\<lambda>_. True), bls_signature_ok = (\<lambda>_. True),
     bls_public = (\<lambda>sk. sk), bls_sign_raw = (\<lambda>sk msg dst. sk @ msg),
     bls_verify_raw = (\<lambda>sig msg dst pk. sig = pk @ msg),
     bls_aggregate_raw = (\<lambda>sigs. Some (concat sigs)),
     bls_fast_aggregate_verify = (\<lambda>agg msg dst pks. agg = concat (map (\<lambda>pk. pk @ msg) pks))\<rparr>"

interpretation sample_ed: ed25519 sample_crypto
  by unfold_locales (simp_all add: sample_crypto_def)

section \<open>Properties\<close>

context ed25519
begin

lemma vrf_ok: "vrf_verify X K (ed_public K sk) input (vrf_prove X K sk input)"
  by (rule vrf.verify_sign)

lemma binding_ok:
  "verify_binding_sig X K scvs ocvs (create_binding_sig X K scvs ocvs sk txb) (ed_public K sk) txb"
  by (rule binding.verify_sign)

end

text \<open>
  A VRF output verifies under the key that produced it, for the input it was made for, and
  the output is determined by the proof: two accepted outputs with the same proof are equal.
\<close>

theorem vrf_prove_verifies:
  assumes "ed25519 K"
  shows "vrf_verify X K (ed_public K sk) input (vrf_prove X K sk input) \<and>
    (\<forall>vk i out. vrf_verify X K vk i out \<and> vo_proof out = vo_proof (vrf_prove X K sk input) \<longrightarrow>
       vo_output out = vo_output (vrf_prove X K sk input))"
proof
  show "vrf_verify X K (ed_public K sk) input (vrf_prove X K sk input)"
    by (rule ed25519.vrf_ok [OF assms])
qed (auto simp: vrf_verify_def vrf_prove_def Let_def split: if_splits)

theorem vrf_prove_verifies_witness:
  "\<forall>X. vrf_verify X sample_crypto [1] [2] (vrf_prove X sample_crypto [1] [2])"
  using vrf_prove_verifies [OF sample_ed.ed25519_axioms, of _ "[1]" "[2]"]
  by (simp add: sample_crypto_def)

text \<open>
  Binding signatures: one made with a key verifies under its public key over the same
  commitments and bytes; the message is the concatenation, so it also verifies when the last
  spend commitment is presented as the first output commitment instead.
\<close>

theorem binding_sig_verifies_and_boundary:
  assumes "ed25519 K"
  shows "verify_binding_sig X K scvs ocvs (create_binding_sig X K scvs ocvs sk txb) (ed_public K sk) txb \<and>
    verify_binding_sig X K scvs (cv # ocvs) (create_binding_sig X K (scvs @ [cv]) ocvs sk txb) (ed_public K sk) txb"
proof -
  have "create_binding_sig X K (scvs @ [cv]) ocvs sk txb = create_binding_sig X K scvs (cv # ocvs) sk txb"
    by (simp add: create_binding_sig_def binding_message_def)
  then show ?thesis
    using ed25519.binding_ok [OF assms] by simp
qed

theorem binding_sig_verifies_and_boundary_witness:
  "\<forall>X. verify_binding_sig X sample_crypto [] [[1]] (create_binding_sig X sample_crypto [[1]] [] [9] [2]) [9] [2]"
  using binding_sig_verifies_and_boundary [OF sample_ed.ed25519_axioms, of _ "[]" "[]" "[9]" "[2]" "[1]"]
  by (simp add: sample_crypto_def)

text \<open>
  Memo encryption round trip: with a cipher that decrypts what it encrypted, a memo of at
  most 512 bytes comes back from its ciphertext under the same key, a longer one is refused.
\<close>

theorem memo_roundtrip:
  assumes "\<And>c. aead_encrypt K key nonce memo = Some c \<Longrightarrow> aead_decrypt K key nonce c = Some memo"
    and "aead_encrypt K key nonce memo \<noteq> None" "length nonce = 12"
  shows "(length memo \<le> 512 \<longrightarrow>
      (\<exists>c. encrypt_memo K nonce key memo = Some c \<and> decrypt_memo K key c = Some memo)) \<and>
    (length memo > 512 \<longrightarrow> encrypt_memo K nonce key memo = None)"
proof -
  obtain c where "aead_encrypt K key nonce memo = Some c" "aead_decrypt K key nonce c = Some memo"
    using assms(1,2) by auto
  then show ?thesis
    using assms(3) by (auto simp: encrypt_memo_def decrypt_memo_def MAX_MEMO_SIZE_def intro!: exI [of _ "nonce @ c"])
qed

theorem memo_roundtrip_witness:
  "\<exists>c. encrypt_memo sample_crypto (replicate 12 0) [1] [5, 6] = Some c \<and> decrypt_memo sample_crypto [1] c = Some [5, 6]"
  using memo_roundtrip [of sample_crypto "[1]" "replicate 12 0" "[5, 6]"] by (simp add: sample_crypto_def)

text \<open>
  The balance check compares sums modulo 2^64 and never reads the value commitments: outputs
  whose sum exceeds the inputs by exactly 2^64 pass, for any commitments.
\<close>

theorem value_balance_wraps:
  assumes "unat i + 2 ^ 64 = unat a + unat b + unat fee"
  shows "check_value_balance scvs ocvs fee [i] [a, b]"
proof -
  have "(word_of_nat (unat i + 2 ^ 64) :: u64) = word_of_nat (unat a + unat b + unat fee)"
    using assms by simp
  then have "i + 18446744073709551616 = a + b + fee"
    by simp
  moreover have "(18446744073709551616 :: u64) = 0"
    by simp
  ultimately have "i = a + b + fee"
    by (simp only: add_0_right)
  then show ?thesis
    by (simp add: check_value_balance_def)
qed

theorem value_balance_wraps_witness:
  "check_value_balance [] [] 10 [5] [0xFFFFFFFFFFFFFFFF, 0xFFFFFFFFFFFFFFFC] \<or> check_value_balance [] [] 1 [0] [0xFFFFFFFFFFFFFFFF, 0]"
  using value_balance_wraps [of 0 "0xFFFFFFFFFFFFFFFF" 0 1] by simp

end
