(* ===== verification/Network.thy ===== *)
theory Network
  imports Externals
begin

text \<open>
  The network layer (crates/noirnet-network and noirnet-consensus/src/sync.rs): the commands of
  the node, the two priority queues, the dispatch of gossip and sync messages to the node's
  channels and the block download manager. libp2p, its swarm and its topic table are parameters;
  channels are queues of messages sent.
\<close>

type_synonym peer_id = bytes
type_synonym channel_id = nat

section \<open>Commands and priorities\<close>

datatype network_command =
    Dial bytes
  | BroadcastTx bytes
  | BroadcastBlock bytes
  | BroadcastVote bytes
  | SendSyncRequest peer_id sync_request
  | SendSyncResponse channel_id sync_response
  | GetStatus channel_id

record priority_sender =
  ps_high :: "network_command list"
  ps_low :: "network_command list"

text \<open>\<open>PriorityNetworkSender::send\<close>, on open channels.\<close>

definition priority_send :: "network_command \<Rightarrow> priority_sender \<Rightarrow> priority_sender" where
  "priority_send cmd q =
     (case cmd of
        BroadcastVote _ \<Rightarrow> q\<lparr>ps_high := ps_high q @ [cmd]\<rparr>
      | SendSyncResponse _ _ \<Rightarrow> q\<lparr>ps_high := ps_high q @ [cmd]\<rparr>
      | GetStatus _ \<Rightarrow> q\<lparr>ps_high := ps_high q @ [cmd]\<rparr>
      | Dial _ \<Rightarrow> q\<lparr>ps_high := ps_high q @ [cmd]\<rparr>
      | _ \<Rightarrow> q\<lparr>ps_low := ps_low q @ [cmd]\<rparr>)"

text \<open>
  One turn of \<open>NetworkService::run\<close>: the biased select takes a high-priority command if there is
  one, else a swarm event if one is ready, else a low-priority command.
\<close>

datatype 'ev service_turn = HandleCommand network_command | HandleEvent 'ev | Idle

definition service_select :: "'ev list \<Rightarrow> priority_sender \<Rightarrow> 'ev service_turn \<times> 'ev list \<times> priority_sender" where
  "service_select events q =
     (case ps_high q of
        cmd # rest \<Rightarrow> (HandleCommand cmd, events, q\<lparr>ps_high := rest\<rparr>)
      | [] \<Rightarrow>
          (case events of
             ev # evs \<Rightarrow> (HandleEvent ev, evs, q)
           | [] \<Rightarrow>
               (case ps_low q of
                  cmd # rest \<Rightarrow> (HandleCommand cmd, events, q\<lparr>ps_low := rest\<rparr>)
                | [] \<Rightarrow> (Idle, events, q))))"

section \<open>Events from the swarm\<close>

text \<open>
  \<open>bincode::DefaultOptions::new().with_limit(..)\<close> is another configuration than the one
  \<open>bincode::serialize\<close> uses, so its decoders are parameters of their own.
\<close>

record limited_codec =
  lc_tx :: "bytes \<Rightarrow> transaction option"
  lc_block :: "bytes \<Rightarrow> block option"
  lc_vote :: "bytes \<Rightarrow> vote option"

datatype swarm_event =
    NewListenAddr
  | ConnectionEstablished peer_id
  | ConnectionClosed peer_id
  | GossipMessage string bytes
  | SyncRequestMessage peer_id sync_request channel_id
  | SyncResponseMessage peer_id sync_response
  | OtherEvent

text \<open>What the service sends to the node.\<close>

datatype node_message =
    ToMempool transaction
  | ToConsensus block
  | ToVotes vote
  | ToSyncRequests peer_id sync_request channel_id
  | ToSyncResponses peer_id sync_response

definition handle_swarm_event :: "limited_codec \<Rightarrow> swarm_event \<Rightarrow> node_message list" where
  "handle_swarm_event C ev =
     (case ev of
        GossipMessage topic payload \<Rightarrow>
          (if length payload > unat MAX_P2P_MESSAGE_SIZE then []
           else if topic = ''noirnet-txs'' then
             (case lc_tx C payload of Some tx \<Rightarrow> [ToMempool tx] | None \<Rightarrow> [])
           else if topic = ''noirnet-blocks'' then
             (case lc_block C payload of Some b \<Rightarrow> [ToConsensus b] | None \<Rightarrow> [])
           else if topic = ''noirnet-votes'' then
             (case lc_vote C payload of Some v \<Rightarrow> [ToVotes v] | None \<Rightarrow> [])
           else [])
      | SyncRequestMessage peer req ch \<Rightarrow> [ToSyncRequests peer req ch]
      | SyncResponseMessage peer res \<Rightarrow> [ToSyncResponses peer res]
      | _ \<Rightarrow> [])"

section \<open>Handling commands\<close>

text \<open>
  What a command does to the swarm. The topic of a broadcast is the first, second or third of
  the swarm's topic list; indexing past its end panics (\<open>unwrap\<close>).
\<close>

datatype swarm_action =
    SwarmDial bytes
  | Publish string bytes
  | SwarmSendRequest peer_id sync_request
  | SwarmSendResponse channel_id sync_response
  | ReplyStatus channel_id usize bool

definition nth_topic :: "string list \<Rightarrow> nat \<Rightarrow> string option" where
  "nth_topic topics i = (if i < length topics then Some (topics ! i) else None)"

definition handle_command :: "string list \<Rightarrow> usize \<Rightarrow> network_command \<Rightarrow> swarm_action option" where
  "handle_command topics connected cmd =
     (case cmd of
        Dial addr \<Rightarrow> Some (SwarmDial addr)
      | BroadcastTx bs \<Rightarrow> map_option (\<lambda>t. Publish t bs) (nth_topic topics 0)
      | BroadcastBlock bs \<Rightarrow> map_option (\<lambda>t. Publish t bs) (nth_topic topics 1)
      | BroadcastVote bs \<Rightarrow> map_option (\<lambda>t. Publish t bs) (nth_topic topics 2)
      | SendSyncRequest peer req \<Rightarrow> Some (SwarmSendRequest peer req)
      | SendSyncResponse ch res \<Rightarrow> Some (SwarmSendResponse ch res)
      | GetStatus ch \<Rightarrow> Some (ReplyStatus ch connected True))"

section \<open>Block download\<close>

record sync_manager =
  sm_is_syncing :: bool
  sm_target_height :: u64
  sm_current_request :: "(peer_id \<times> sync_request) option"
  sm_buffered_blocks :: "u64 \<rightharpoonup> block"
  sm_active_peers :: "peer_id set"

definition sync_manager_new :: sync_manager where
  "sync_manager_new = \<lparr>sm_is_syncing = False, sm_target_height = 0, sm_current_request = None,
     sm_buffered_blocks = Map.empty, sm_active_peers = {}\<rparr>"

definition start_sync :: "u64 \<Rightarrow> peer_id \<Rightarrow> u64 \<Rightarrow> sync_manager \<Rightarrow> sync_request \<times> sync_manager" where
  "start_sync target_height peer start_height m =
     (let request = \<lparr>sreq_start_height = start_height, sreq_limit = 50\<rparr>
      in (request, m\<lparr>sm_is_syncing := True, sm_target_height := max (sm_target_height m) target_height,
            sm_current_request := Some (peer, request)\<rparr>))"

definition check_sync_status :: "u64 \<Rightarrow> sync_manager \<Rightarrow> bool \<times> sync_manager" where
  "check_sync_status current_height m =
     (let m' = (if sm_is_syncing m \<and> current_height \<ge> sm_target_height m
                then m\<lparr>sm_is_syncing := False, sm_current_request := None, sm_buffered_blocks := Map.empty\<rparr>
                else m)
      in (sm_is_syncing m', m'))"

definition handle_peer_height :: "peer_id \<Rightarrow> u64 \<Rightarrow> u64 \<Rightarrow> sync_manager \<Rightarrow> sync_request option \<times> sync_manager" where
  "handle_peer_height peer peer_height current_height m =
     (let m' = m\<lparr>sm_active_peers := insert peer (sm_active_peers m)\<rparr>
      in if peer_height > current_height + 5 \<and> \<not> sm_is_syncing m'
         then case start_sync peer_height peer (current_height + 1) m' of (req, m'') \<Rightarrow> (Some req, m'')
         else (None, m'))"

section \<open>Properties of the service\<close>

lemma unat_MAX_P2P_MESSAGE_SIZE: "unat MAX_P2P_MESSAGE_SIZE = 10485760"
  by (simp add: MAX_P2P_MESSAGE_SIZE_def)

text \<open>
  Votes, sync answers, status queries and dials overtake transactions, blocks and sync
  requests: a queued high-priority command is always the next one handled, and within each queue
  commands are handled in the order they were sent.
\<close>

theorem priority_commands_first:
  "(ps_high q = cmd # rest \<longrightarrow> service_select events q = (HandleCommand cmd, events, q\<lparr>ps_high := rest\<rparr>)) \<and>
    (service_select events q = (HandleCommand c, events', q') \<and> c \<notin> set (ps_high q) \<longrightarrow>
       ps_high q = [] \<and> events = [] \<and> ps_low q = c # ps_low q') \<and>
    ps_high (priority_send cmd' q) @ ps_low (priority_send cmd' q) \<in>
      {ps_high q @ cmd' # ps_low q, ps_high q @ ps_low q @ [cmd']}"
  by (auto simp: service_select_def priority_send_def split: list.splits network_command.splits)

text \<open>
  Whatever arrives by gossip, at most one message reaches the node, it is the decoding of
  the payload at the topic's type, and payloads above 10 MiB are dropped.
\<close>

theorem gossip_dispatch:
  "(length payload > 10485760 \<longrightarrow> handle_swarm_event C (GossipMessage topic payload) = []) \<and>
    (\<forall>m \<in> set (handle_swarm_event C (GossipMessage topic payload)).
      (\<exists>tx. m = ToMempool tx \<and> topic = ''noirnet-txs'' \<and> lc_tx C payload = Some tx) \<or>
      (\<exists>b. m = ToConsensus b \<and> topic = ''noirnet-blocks'' \<and> lc_block C payload = Some b) \<or>
      (\<exists>v. m = ToVotes v \<and> topic = ''noirnet-votes'' \<and> lc_vote C payload = Some v)) \<and>
    length (handle_swarm_event C ev) \<le> 1"
proof -
  have big: "length payload > 10485760 \<longrightarrow> handle_swarm_event C (GossipMessage topic payload) = []"
    by (simp add: handle_swarm_event_def unat_MAX_P2P_MESSAGE_SIZE)
  have dispatched: "\<forall>m \<in> set (handle_swarm_event C (GossipMessage topic payload)).
      (\<exists>tx. m = ToMempool tx \<and> topic = ''noirnet-txs'' \<and> lc_tx C payload = Some tx) \<or>
      (\<exists>b. m = ToConsensus b \<and> topic = ''noirnet-blocks'' \<and> lc_block C payload = Some b) \<or>
      (\<exists>v. m = ToVotes v \<and> topic = ''noirnet-votes'' \<and> lc_vote C payload = Some v)"
  proof (intro ballI)
    fix m
    assume "m \<in> set (handle_swarm_event C (GossipMessage topic payload))"
    then show "(\<exists>tx. m = ToMempool tx \<and> topic = ''noirnet-txs'' \<and> lc_tx C payload = Some tx) \<or>
      (\<exists>b. m = ToConsensus b \<and> topic = ''noirnet-blocks'' \<and> lc_block C payload = Some b) \<or>
      (\<exists>v. m = ToVotes v \<and> topic = ''noirnet-votes'' \<and> lc_vote C payload = Some v)"
      by (cases "length payload > unat MAX_P2P_MESSAGE_SIZE"; cases "topic = ''noirnet-txs''";
          cases "topic = ''noirnet-blocks''"; cases "topic = ''noirnet-votes''")
         (simp_all add: handle_swarm_event_def split: option.split_asm, metis+)
  qed
  have single: "length (handle_swarm_event C ev) \<le> 1"
    by (cases ev) (simp_all add: handle_swarm_event_def split: option.split)
  show ?thesis
    using big dispatched single by blast
qed

section \<open>Concrete runs\<close>

theorem priority_commands_first_witness:
  "service_select [0 :: nat] (priority_send (BroadcastVote [2]) (priority_send (BroadcastTx [1])
      \<lparr>ps_high = [], ps_low = []\<rparr>)) =
     (HandleCommand (BroadcastVote [2]), [0], \<lparr>ps_high = [], ps_low = [BroadcastTx [1]]\<rparr>) \<and>
    ps_low \<lparr>ps_high = [], ps_low = [BroadcastTx [1]]\<rparr> = [BroadcastTx [1]]"
  using priority_commands_first [of "\<lparr>ps_high = [BroadcastVote [2]], ps_low = [BroadcastTx [1]]\<rparr>"
      "BroadcastVote [2]" "[]" "[0]" "BroadcastTx [1]" "[]" "\<lparr>ps_high = [], ps_low = []\<rparr>" "Dial []"]
    priority_commands_first [of "\<lparr>ps_high = [], ps_low = [BroadcastTx [1]]\<rparr>"
      "BroadcastVote [2]" "[]" "[] :: nat list" "BroadcastTx [1]" "[]" "\<lparr>ps_high = [], ps_low = []\<rparr>" "Dial []"]
  by (simp add: service_select_def priority_send_def)

definition sample_gossip_codec :: limited_codec where
  "sample_gossip_codec = \<lparr>lc_tx = (\<lambda>_. None), lc_block = (\<lambda>_. None),
     lc_vote = (\<lambda>bs. Some \<lparr>vote_height = 1, vote_round = 0, vote_block_hash = bs, vote_kind = Prevote,
       vote_validator_id = [], vote_signature = []\<rparr>)\<rparr>"

theorem gossip_dispatch_witness:
  "\<exists>v. ToVotes v \<in> set (handle_swarm_event sample_gossip_codec (GossipMessage ''noirnet-votes'' [7])) \<and>
    lc_vote sample_gossip_codec [7] = Some v"
proof -
  have "handle_swarm_event sample_gossip_codec (GossipMessage ''noirnet-votes'' [7]) \<noteq> []"
    by (simp add: handle_swarm_event_def unat_MAX_P2P_MESSAGE_SIZE sample_gossip_codec_def)
  then obtain m where m: "m \<in> set (handle_swarm_event sample_gossip_codec (GossipMessage ''noirnet-votes'' [7]))"
    by (meson list.set_sel(1))
  with gossip_dispatch [of "[7]" sample_gossip_codec "''noirnet-votes''" NewListenAddr]
  have "\<exists>v. m = ToVotes v \<and> lc_vote sample_gossip_codec [7] = Some v"
    by auto
  with m show ?thesis by blast
qed

end
