(* ===== verification/Zk.thy ===== *)
theory Zk
  imports Rust_Prelude Complex_Main
begin

text \<open>
  The zero-knowledge layer (crates/noirnet-zk): the two step circuits and the wrappers around
  Nova's recursive SNARK. The scalar field and Nova are parameters. A constraint system in its
  proving mode is the list of the constraints enforced so far, each the values of its three
  linear combinations; running it is checking that every product is right.
\<close>

section \<open>Step circuits\<close>

datatype synthesis_error = AssignmentMissing | SynthesisPanic

record 'f spend_circuit =
  sc_note_value :: "'f option"
  sc_secret_key :: "'f option"
  sc_public_nullifier :: "'f option"

record 'f output_circuit =
  oc_note_value :: "'f option"
  oc_rcm :: "'f option"
  oc_public_commitment :: "'f option"

type_synonym 'f constraint_system = "('f \<times> 'f \<times> 'f) list"

definition cs_satisfied :: "'f::field constraint_system \<Rightarrow> bool" where
  "cs_satisfied cs \<longleftrightarrow> (\<forall>(a, b, c) \<in> set cs. a * b = c)"

text \<open>\<open>AllocatedNum::alloc\<close> on a witness: the value, or the missing assignment.\<close>

definition alloc :: "'f option \<Rightarrow> ('f constraint_system, synthesis_error, 'f) fallible" where
  "alloc x = (case x of None \<Rightarrow> err AssignmentMissing | Some v \<Rightarrow> ok v)"

definition enforce :: "'f \<Rightarrow> 'f \<Rightarrow> 'f \<Rightarrow> ('f constraint_system, synthesis_error, unit) fallible" where
  "enforce a b c cs = (Inr (), cs @ [(a, b, c)])"

text \<open>\<open>SpendCircuit::synthesize\<close>; \<open>z[0]\<close> panics on an empty state.\<close>

definition spend_synthesize ::
  "'f::field spend_circuit \<Rightarrow> 'f list \<Rightarrow> ('f constraint_system, synthesis_error, 'f list) fallible" where
  "spend_synthesize c z =
     (case z of
        [] \<Rightarrow> err SynthesisPanic
      | z_i # _ \<Rightarrow>
          andThen (alloc (sc_note_value c)) (\<lambda>val_var.
          andThen (alloc (sc_secret_key c)) (\<lambda>sk_var.
          andThen (alloc (sc_public_nullifier c)) (\<lambda>nullifier_var.
          andThen (enforce sk_var val_var nullifier_var) (\<lambda>_. ok [z_i])))))"

definition output_synthesize ::
  "'f::field output_circuit \<Rightarrow> 'f list \<Rightarrow> ('f constraint_system, synthesis_error, 'f list) fallible" where
  "output_synthesize c z =
     (case z of
        [] \<Rightarrow> err SynthesisPanic
      | z_i # _ \<Rightarrow>
          andThen (alloc (oc_note_value c)) (\<lambda>val_var.
          andThen (alloc (oc_rcm c)) (\<lambda>rcm_var.
          andThen (alloc (oc_public_commitment c)) (\<lambda>cm_var.
          andThen (enforce (val_var + rcm_var) 1 cm_var) (\<lambda>_. ok [z_i])))))"

section \<open>Nova\<close>

text \<open>
  \<open>'pp\<close> are public parameters and \<open>'p\<close> recursive proofs. \<open>nv_scalar\<close> is the embedding of
  64-bit integers into the field.
\<close>

record ('f, 'pp, 'p) nova =
  nv_scalar :: "u64 \<Rightarrow> 'f"
  nv_setup :: "'f spend_circuit \<Rightarrow> string + 'pp"
  nv_new :: "'pp \<Rightarrow> 'f spend_circuit \<Rightarrow> 'f list \<Rightarrow> string + 'p"
  nv_prove_step :: "'pp \<Rightarrow> 'p \<Rightarrow> 'f spend_circuit \<Rightarrow> string + 'p"
  nv_verify :: "'pp \<Rightarrow> 'p \<Rightarrow> nat \<Rightarrow> 'f list \<Rightarrow> string + unit"
  nv_encode :: "'p \<Rightarrow> string + bytes"
  nv_decode :: "bytes \<Rightarrow> string + 'p"

datatype zk_error = ZkProvingFailed string | ZkVerificationFailed string | ZkSetupFailed string

text \<open>\<open>setup_nova\<close>; an error of the setup is a panic there.\<close>

definition setup_nova :: "('f, 'pp, 'p) nova \<Rightarrow> string + 'pp" where
  "setup_nova N =
     nv_setup N \<lparr>sc_note_value = None, sc_secret_key = None, sc_public_nullifier = None\<rparr>"

definition circuit_of :: "('f, 'pp, 'p) nova \<Rightarrow> u64 \<times> u64 \<times> u64 \<Rightarrow> 'f spend_circuit" where
  "circuit_of N = (\<lambda>(value, sk, nullifier).
     \<lparr>sc_note_value = Some (nv_scalar N value), sc_secret_key = Some (nv_scalar N sk),
      sc_public_nullifier = Some (nv_scalar N nullifier)\<rparr>)"

fun prove_steps :: "('f, 'pp, 'p) nova \<Rightarrow> 'pp \<Rightarrow> (u64 \<times> u64 \<times> u64) list \<Rightarrow> 'p \<Rightarrow> zk_error + 'p" where
  "prove_steps N pp [] snark = Inr snark"
| "prove_steps N pp (w # ws) snark =
     (case nv_prove_step N pp snark (circuit_of N w) of
        Inl e \<Rightarrow> Inl (ZkProvingFailed e)
      | Inr snark' \<Rightarrow> prove_steps N pp ws snark')"

definition generate_multi_spend_proof ::
  "('f, 'pp, 'p) nova \<Rightarrow> 'pp \<Rightarrow> u64 list \<Rightarrow> u64 list \<Rightarrow> u64 list \<Rightarrow> zk_error + bytes" where
  "generate_multi_spend_proof N pp values sks nullifiers =
     (if values = [] \<or> length values \<noteq> length sks \<or> length values \<noteq> length nullifiers
      then Inl (ZkProvingFailed ''Invalid input lengths'')
      else
        let ws = zip values (zip sks nullifiers);
            z0_primary = [nv_scalar N 0]
        in case nv_new N pp (circuit_of N (hd ws)) z0_primary of
             Inl e \<Rightarrow> Inl (ZkProvingFailed e)
           | Inr snark \<Rightarrow>
               (case prove_steps N pp ws snark of
                  Inl e \<Rightarrow> Inl e
                | Inr snark' \<Rightarrow>
                    (case nv_encode N snark' of
                       Inl e \<Rightarrow> Inl (ZkProvingFailed e)
                     | Inr bs \<Rightarrow> Inr bs)))"

definition verify_spend_proof ::
  "('f, 'pp, 'p) nova \<Rightarrow> 'pp \<Rightarrow> bytes \<Rightarrow> usize \<Rightarrow> zk_error + bool" where
  "verify_spend_proof N pp proof_bytes num_steps =
     (case nv_decode N proof_bytes of
        Inl e \<Rightarrow> Inl (ZkVerificationFailed e)
      | Inr recursive_snark \<Rightarrow>
          Inr (case nv_verify N pp recursive_snark num_steps [nv_scalar N 0] of Inl _ \<Rightarrow> False | Inr _ \<Rightarrow> True))"

section \<open>What the circuits state\<close>

lemma spend_synthesize_run:
  assumes "sc_note_value c = Some v" "sc_secret_key c = Some sk" "sc_public_nullifier c = Some nf"
  shows "spend_synthesize c (z # zs) cs = (Inr [z], cs @ [(sk, v, nf)])"
  using assms by (simp add: spend_synthesize_def alloc_def enforce_def andThen_def)

lemma spend_synthesize_Inr:
  "spend_synthesize c (z # zs) cs = (Inr out, cs') \<longleftrightarrow>
     (\<exists>v sk nf. sc_note_value c = Some v \<and> sc_secret_key c = Some sk \<and> sc_public_nullifier c = Some nf \<and>
        out = [z] \<and> cs' = cs @ [(sk, v, nf)])"
  by (auto simp: spend_synthesize_def alloc_def enforce_def andThen_def split: option.splits)

text \<open>
  One spend step proves exactly that the nullifier is the product of a key and a value, and
  passes the folding state through unchanged: whatever is folded in, what the verifier compares
  is the initial state. For every nullifier and every key but zero some value makes the step
  satisfied, so the statement ties a spend neither to a note nor to a commitment nor to the
  nullifier listed in the transaction.
\<close>

theorem spend_circuit_statement:
  fixes c :: "'f::field spend_circuit"
  shows "(\<forall>out cs'. spend_synthesize c [z] cs = (Inr out, cs') \<longrightarrow>
      out = [z] \<and>
      (cs_satisfied cs' \<longleftrightarrow> cs_satisfied cs \<and>
         the (sc_secret_key c) * the (sc_note_value c) = the (sc_public_nullifier c))) \<and>
    (\<forall>nf sk. sk \<noteq> 0 \<longrightarrow> (\<exists>v. cs_satisfied
       (snd (spend_synthesize \<lparr>sc_note_value = Some v, sc_secret_key = Some sk, sc_public_nullifier = Some nf\<rparr> [z] []))))"
proof (intro conjI allI impI)
  fix out cs'
  assume run: "spend_synthesize c [z] cs = (Inr out, cs')"
  then show "out = [z]"
    by (auto simp: spend_synthesize_Inr)
  show "cs_satisfied cs' \<longleftrightarrow> cs_satisfied cs \<and>
      the (sc_secret_key c) * the (sc_note_value c) = the (sc_public_nullifier c)"
    using run by (auto simp: spend_synthesize_Inr cs_satisfied_def)
next
  fix nf sk :: 'f
  assume "sk \<noteq> 0"
  then show "\<exists>v. cs_satisfied (snd (spend_synthesize
      \<lparr>sc_note_value = Some v, sc_secret_key = Some sk, sc_public_nullifier = Some nf\<rparr> [z] []))"
    by (intro exI [where x = "nf / sk"]) (simp add: spend_synthesize_run cs_satisfied_def)
qed

theorem spend_circuit_statement_witness:
  "cs_satisfied (snd (spend_synthesize
     \<lparr>sc_note_value = Some (5 :: rat), sc_secret_key = Some 4, sc_public_nullifier = Some 20\<rparr> [0] []))"
  using spend_circuit_statement [of "\<lparr>sc_note_value = Some (5 :: rat), sc_secret_key = Some 4, sc_public_nullifier = Some 20\<rparr>"
      0 "[]"]
  by (simp add: spend_synthesize_run cs_satisfied_def)

section \<open>Proving and verifying\<close>

text \<open>
  What Nova's own calls have folded: \<open>RecursiveSNARK::new\<close> takes the circuit of the first step, which
  the first \<open>prove_step\<close> executes; every later \<open>prove_step\<close> adds its circuit. The relation mentions no
  code of the crate.
\<close>

inductive folded :: "('f, 'pp, 'p) nova \<Rightarrow> 'pp \<Rightarrow> 'f spend_circuit list \<Rightarrow> 'p \<Rightarrow> bool" for N pp where
  First: "nv_new N pp c [nv_scalar N 0] = Inr p \<Longrightarrow> nv_prove_step N pp p c = Inr p' \<Longrightarrow> folded N pp [c] p'"
| Next: "folded N pp cs p \<Longrightarrow> nv_prove_step N pp p c = Inr p' \<Longrightarrow> folded N pp (cs @ [c]) p'"

definition circuit_satisfied :: "('f::field, 'pp, 'p) nova \<Rightarrow> 'f spend_circuit \<Rightarrow> bool" where
  "circuit_satisfied N c \<longleftrightarrow> cs_satisfied (snd (spend_synthesize c [nv_scalar N 0] []))"

definition step_satisfied :: "('f::field, 'pp, 'p) nova \<Rightarrow> u64 \<times> u64 \<times> u64 \<Rightarrow> bool" where
  "step_satisfied N w \<longleftrightarrow> circuit_satisfied N (circuit_of N w)"

text \<open>
  Nova as documented: a decoded encoding is the proof again, and a proof verifies for a number of
  steps exactly if that many circuits were folded into it and each was satisfied.
\<close>

locale nova_snark =
  fixes N :: "('f::field, 'pp, 'p) nova" and pp :: 'pp
  assumes decode_encode: "nv_encode N p = Inr bs \<Longrightarrow> nv_decode N bs = Inr p"
    and verdict: "folded N pp cs p \<Longrightarrow> nv_verify N pp p n [nv_scalar N 0] = Inr () \<longleftrightarrow>
      n = length cs \<and> (\<forall>c \<in> set cs. circuit_satisfied N c)"

text \<open>The loop of the prover folds the circuit of each witness, in order.\<close>

lemma prove_steps_folded:
  "folded N pp cs p \<Longrightarrow> prove_steps N pp ws p = Inr p' \<Longrightarrow> folded N pp (cs @ map (circuit_of N) ws) p'"
proof (induction ws arbitrary: cs p)
  case (Cons w ws)
  then obtain p1 where "nv_prove_step N pp p (circuit_of N w) = Inr p1" "prove_steps N pp ws p1 = Inr p'"
    by (auto split: sum.splits)
  then show ?case
    using Cons.IH [of "cs @ [circuit_of N w]" p1] folded.Next [OF Cons.prems(1)] by simp
qed simp

lemma generated_folded:
  assumes "ws \<noteq> []" "nv_new N pp (circuit_of N (hd ws)) [nv_scalar N 0] = Inr p" "prove_steps N pp ws p = Inr p'"
  shows "folded N pp (map (circuit_of N) ws) p'"
proof -
  obtain w ws' where ws: "ws = w # ws'"
    using assms(1) by (cases ws) auto
  then obtain p1 where p1: "nv_prove_step N pp p (circuit_of N w) = Inr p1" "prove_steps N pp ws' p1 = Inr p'"
    using assms(3) by (auto split: sum.splits)
  have "folded N pp [circuit_of N w] p1"
    using folded.First [OF _ p1(1)] assms(2) by (simp add: ws)
  from prove_steps_folded [OF this p1(2)] show ?thesis
    by (simp add: ws)
qed

lemma step_satisfied_iff:
  "step_satisfied N (value, sk, nullifier) \<longleftrightarrow> nv_scalar N sk * nv_scalar N value = nv_scalar N nullifier"
  by (simp add: step_satisfied_def circuit_satisfied_def circuit_of_def spend_synthesize_run cs_satisfied_def)

context nova_snark
begin

lemma generated_proof_verdict:
  assumes "generate_multi_spend_proof N pp values sks nullifiers = Inr bs"
  shows "verify_spend_proof N pp bs n =
    Inr (n = length values \<and> (\<forall>w \<in> set (zip values (zip sks nullifiers)). step_satisfied N w))"
proof -
  let ?ws = "zip values (zip sks nullifiers)"
  have len: "length ?ws = length values" "?ws \<noteq> []"
    using assms by (auto simp: generate_multi_spend_proof_def zip_eq_Nil_iff split: if_splits)
  obtain p p' where run: "nv_new N pp (circuit_of N (hd ?ws)) [nv_scalar N 0] = Inr p"
      "prove_steps N pp ?ws p = Inr p'" "nv_encode N p' = Inr bs"
    using assms by (auto simp: generate_multi_spend_proof_def Let_def split: if_splits sum.splits)
  have "nv_verify N pp p' n [nv_scalar N 0] = Inr () \<longleftrightarrow>
      n = length values \<and> (\<forall>w \<in> set ?ws. step_satisfied N w)"
    using verdict [OF generated_folded [OF len(2) run(1,2)]] len(1) by (simp add: step_satisfied_def)
  then show ?thesis
    by (cases "nv_verify N pp p' n [nv_scalar N 0]")
      (simp_all add: verify_spend_proof_def decode_encode [OF run(3)])
qed

end

text \<open>
  C29: a proof generated for lists of values, keys and nullifiers verifies for exactly the number
  of spends it was made for, and only if every nullifier is the product of its key and value in
  the scalar field; empty lists and lists of different lengths are refused by the prover.
\<close>

theorem multi_spend_proof_roundtrip:
  assumes "nova_snark N pp"
  shows "(values = [] \<or> length values \<noteq> length sks \<or> length values \<noteq> length nullifiers \<longrightarrow>
      generate_multi_spend_proof N pp values sks nullifiers = Inl (ZkProvingFailed ''Invalid input lengths'')) \<and>
    (\<forall>bs. generate_multi_spend_proof N pp values sks nullifiers = Inr bs \<longrightarrow>
      verify_spend_proof N pp bs n = Inr (n = length values \<and>
        (\<forall>i < length values. nv_scalar N (sks ! i) * nv_scalar N (values ! i) = nv_scalar N (nullifiers ! i))))"
proof (intro conjI allI impI)
  assume "values = [] \<or> length values \<noteq> length sks \<or> length values \<noteq> length nullifiers"
  then show "generate_multi_spend_proof N pp values sks nullifiers = Inl (ZkProvingFailed ''Invalid input lengths'')"
    by (simp add: generate_multi_spend_proof_def)
next
  fix bs
  assume gen: "generate_multi_spend_proof N pp values sks nullifiers = Inr bs"
  then have "length values = length sks" "length values = length nullifiers"
    by (auto simp: generate_multi_spend_proof_def split: if_splits)
  then have "(\<forall>w \<in> set (zip values (zip sks nullifiers)). step_satisfied N w) \<longleftrightarrow>
      (\<forall>i < length values. nv_scalar N (sks ! i) * nv_scalar N (values ! i) = nv_scalar N (nullifiers ! i))"
    by (simp add: all_set_conv_all_nth step_satisfied_iff)
  with nova_snark.generated_proof_verdict [OF assms gen, of n]
  show "verify_spend_proof N pp bs n = Inr (n = length values \<and>
      (\<forall>i < length values. nv_scalar N (sks ! i) * nv_scalar N (values ! i) = nv_scalar N (nullifiers ! i)))"
    by simp
qed

section \<open>A scheme that satisfies the interface\<close>

text \<open>
  Over the rationals, a proof that counts its steps and remembers whether all were satisfied.
  It shows that the laws of \<open>nova_snark\<close> can hold together; the witnesses run on it.
\<close>

definition counting_nova :: "(rat, unit, nat \<times> bool) nova" where
  "counting_nova = \<lparr>
     nv_scalar = (\<lambda>w. of_nat (unat w)),
     nv_setup = (\<lambda>_. Inr ()),
     nv_new = (\<lambda>_ _ _. Inr (0, True)),
     nv_prove_step = (\<lambda>_ (n, sat) c. Inr (Suc n, sat \<and> cs_satisfied (snd (spend_synthesize c [0] [])))),
     nv_verify = (\<lambda>_ (n, sat) k _. if sat \<and> n = k then Inr () else Inl ''invalid''),
     nv_encode = (\<lambda>(n, sat). Inr ((if sat then 1 else 0) # replicate n 0)),
     nv_decode = (\<lambda>bs. case bs of [] \<Rightarrow> Inl ''empty'' | b # rest \<Rightarrow> Inr (length rest, b = 1))\<rparr>"

lemma counting_nova_steps:
  "prove_steps counting_nova () ws (n, sat) =
     Inr (n + length ws, sat \<and> (\<forall>w \<in> set ws. step_satisfied counting_nova w))"
  by (induction ws arbitrary: n sat) (auto simp: counting_nova_def step_satisfied_def circuit_satisfied_def)

lemma counting_nova_folded:
  "folded counting_nova () cs p \<Longrightarrow> p = (length cs, \<forall>c \<in> set cs. circuit_satisfied counting_nova c)"
  by (induction rule: folded.induct) (auto simp: counting_nova_def circuit_satisfied_def)

interpretation counting: nova_snark counting_nova "()"
proof (unfold_locales, goal_cases)
  case (2 cs p n)
  from counting_nova_folded [OF this] show ?case
    by (auto simp: counting_nova_def)
qed (auto simp: counting_nova_def)

lemma counting_nova_generate:
  assumes "values \<noteq> []" "length sks = length values" "length nullifiers = length values"
  shows "generate_multi_spend_proof counting_nova () values sks nullifiers =
    Inr ((if \<forall>w \<in> set (zip values (zip sks nullifiers)). step_satisfied counting_nova w then 1 else 0)
      # replicate (length values) 0)"
proof -
  have "nv_new counting_nova () c z = Inr (0, True)" for c z
    by (simp add: counting_nova_def)
  moreover have "nv_encode counting_nova (n, sat) = Inr ((if sat then 1 else 0) # replicate n 0)" for n sat
    by (simp add: counting_nova_def)
  ultimately show ?thesis
    using assms by (simp add: generate_multi_spend_proof_def counting_nova_steps Let_def)
qed

theorem multi_spend_proof_roundtrip_witness:
  "verify_spend_proof counting_nova () [1, 0, 0] 2 = Inr True"
proof -
  have scalar: "nv_scalar counting_nova w = of_nat (unat w)" for w
    by (simp add: counting_nova_def)
  have "replicate 2 (0 :: u8) = [0, 0]"
    by (simp add: numeral_2_eq_2)
  then have "generate_multi_spend_proof counting_nova () [100, 200] [5, 6] [500, 1200] = Inr [1, 0, 0]"
    by (simp add: counting_nova_generate step_satisfied_iff scalar)
  then show ?thesis
    using multi_spend_proof_roundtrip [OF counting.nova_snark_axioms, of "[100, 200]" "[5, 6]" "[500, 1200]" 2]
    by (simp add: scalar less_Suc_eq nth_Cons')
qed

end
