(* ===== verification/Engine.thy ===== *)
theory Engine
  imports Block_Builder Bft Vm_Host Crypto Network Zk
begin

text \<open>
  The consensus engine (crates/noirnet-consensus/src/engine.rs): execution of a block's
  contracts, validation and application of a block, the start of a height and the five arms of
  the event loop. The parameters of a node (hash and codecs, database, virtual machine, BLS,
  proof verifier, shuffle) are the record \<open>node_env\<close>; clock readings and the random peer id of a
  block arrival are arguments. A panic of the task is \<open>None\<close>. \<open>last_block_time\<close> and the
  floating-point field of the slashing conditions are never read and not modelled; what
  \<open>record_slashing_event\<close> logs is the list \<open>en_slashing\<close>.
\<close>

section \<open>State\<close>

record slashing_conditions =
  sl_max_consecutive_missed_blocks :: u64
  sl_double_sign_slashing :: bool
  sl_equivocation_slashing :: bool

definition slashing_conditions_default :: slashing_conditions where
  "slashing_conditions_default = \<lparr>sl_max_consecutive_missed_blocks = 10,
     sl_double_sign_slashing = True, sl_equivocation_slashing = True\<rparr>"

record 'db node_env =
  nd_ext :: ext
  nd_sled :: "'db sled"
  nd_vm :: wasmtime
  nd_crypto :: crypto_ext
  nd_verify_spend :: "bytes \<Rightarrow> usize \<Rightarrow> zk_error + bool"
  nd_shuffle :: "transaction list \<Rightarrow> transaction list"

record 'db engine =
  en_store :: "'db state_store"
  en_pool :: mempool
  en_local_id :: bytes
  en_secret_key :: "bytes option"
  en_is_validator :: bool
  en_sync :: sync_manager
  en_conditions :: slashing_conditions
  en_missed :: u64
  en_out :: priority_sender
  en_slashing :: "string list"

text \<open>\<open>ConsensusEngine::new\<close>\<close>

definition engine_new :: "'db state_store \<Rightarrow> mempool \<Rightarrow> (bytes \<times> bytes) option \<Rightarrow> priority_sender \<Rightarrow> 'db engine" where
  "engine_new store pool validator_id network_tx =
     \<lparr>en_store = store, en_pool = pool,
      en_local_id = (case validator_id of Some (vid, sk) \<Rightarrow> vid | None \<Rightarrow> replicate 32 0),
      en_secret_key = map_option snd validator_id, en_is_validator = (validator_id \<noteq> None),
      en_sync = sync_manager_new, en_conditions = slashing_conditions_default, en_missed = 0,
      en_out = network_tx, en_slashing = []\<rparr>"

definition record_slashing_event :: "string \<Rightarrow> 'db engine \<Rightarrow> 'db engine" where
  "record_slashing_event event_type en = en\<lparr>en_slashing := en_slashing en @ [event_type]\<rparr>"

definition send_command :: "network_command \<Rightarrow> 'db engine \<Rightarrow> 'db engine" where
  "send_command cmd en = en\<lparr>en_out := priority_send cmd (en_out en)\<rparr>"

section \<open>Phase 1: validation of the transactions\<close>

datatype block_rejection = MissingProof | InvalidProof | BadFormat tx_format_error | TxGasTooHigh

definition check_tx :: "'db node_env \<Rightarrow> transaction \<Rightarrow> block_rejection option" where
  "check_tx E tx =
     (if tx_spends tx \<noteq> [] \<and> tx_aggregate_spend_proof tx = [] then Some MissingProof
      else if tx_spends tx \<noteq> [] \<and>
        nd_verify_spend E (tx_aggregate_spend_proof tx) (length (tx_spends tx)) \<noteq> Inr True
        then Some InvalidProof
      else case validate_format (nd_ext E) tx of
        Inl e \<Rightarrow> Some (BadFormat e)
      | Inr _ \<Rightarrow> if tx_gas_limit tx > MAX_TX_GAS then Some TxGasTooHigh else None)"

fun check_txs :: "'db node_env \<Rightarrow> transaction list \<Rightarrow> block_rejection option" where
  "check_txs E [] = None"
| "check_txs E (tx # txs) = (case check_tx E tx of Some r \<Rightarrow> Some r | None \<Rightarrow> check_txs E txs)"

section \<open>Phase 2: contract execution\<close>

text \<open>
  The state changes collected so far, keyed by contract id and key, and the new contracts. A
  \<open>VmPanic\<close> aborts the process in the release build; what the engine does is defined for
  executions that end otherwise, and the branches below take that value for an error.
\<close>

type_synonym contract_effects = "(bytes \<times> bytes) list \<times> (hash32 \<times> bytes) list"

definition merge_changes :: "hash32 \<Rightarrow> (bytes \<times> bytes) list \<Rightarrow> (bytes \<times> bytes) list \<Rightarrow> (bytes \<times> bytes) list" where
  "merge_changes contract_id diff changes = fold (\<lambda>(k, v). AList.update (contract_id @ k) v) diff changes"

definition new_ctx :: "hash32 \<Rightarrow> bytes \<Rightarrow> u64 \<Rightarrow> (bytes \<rightharpoonup> bytes) \<Rightarrow> exec_ctx" where
  "new_ctx contract_id caller gas existing =
     \<lparr>ec_contract_id = contract_id, ec_caller_commitment = caller, ec_gas_remaining = gas,
      ec_state_diff = [], ec_existing_state = existing, ec_events = [], ec_memory = None\<rparr>"

definition run_deploy :: "'db node_env \<Rightarrow> 'db \<Rightarrow> transaction \<Rightarrow> bytes \<Rightarrow> contract_effects \<Rightarrow> contract_effects" where
  "run_deploy E db tx bytecode = (\<lambda>(changes, contracts).
     let contract_id = blake3 (nd_ext E) bytecode;
         existing = unwrap_or (get_contract_state_all (nd_sled E) contract_id db) Map.empty
     in case vm_execute (nd_vm E) bytecode (ascii ''init'') []
            (new_ctx contract_id (replicate 32 0) (tx_gas_limit tx) existing) of
          Inr r \<Rightarrow> (merge_changes contract_id (er_state_changes r) changes, contracts @ [(contract_id, bytecode)])
        | Inl _ \<Rightarrow> (changes, contracts))"

definition run_call :: "'db node_env \<Rightarrow> 'db \<Rightarrow> contract_call \<Rightarrow> contract_effects \<Rightarrow> contract_effects" where
  "run_call E db call = (\<lambda>(changes, contracts).
     case get_contract_code (nd_sled E) (cc_contract_id call) db of
       Inr (Some code) \<Rightarrow>
         (let existing = unwrap_or (get_contract_state_all (nd_sled E) (cc_contract_id call) db) Map.empty
          in case vm_execute (nd_vm E) code (cc_method call) (cc_args call)
                (new_ctx (cc_contract_id call) (cc_caller_commitment call) (cc_gas_limit call) existing) of
               Inr r \<Rightarrow> (merge_changes (cc_contract_id call) (er_state_changes r) changes, contracts)
             | Inl _ \<Rightarrow> (changes, contracts))
     | _ \<Rightarrow> (changes, contracts))"

text \<open>The body of the loop; an oversized deployment skips the call of the transaction too.\<close>

definition run_tx :: "'db node_env \<Rightarrow> 'db \<Rightarrow> transaction \<Rightarrow> contract_effects \<Rightarrow> contract_effects" where
  "run_tx E db tx eff =
     (let call = (\<lambda>eff. case tx_contract_call tx of None \<Rightarrow> eff | Some c \<Rightarrow> run_call E db c eff)
      in case tx_deploy_contract tx of
           None \<Rightarrow> call eff
         | Some bytecode \<Rightarrow>
             if length bytecode > MAX_CONTRACT_SIZE then eff else call (run_deploy E db tx bytecode eff))"

definition run_contracts :: "'db node_env \<Rightarrow> 'db \<Rightarrow> transaction list \<Rightarrow> contract_effects" where
  "run_contracts E db txs = fold (run_tx E db) txs ([], [])"

section \<open>Executing and applying a block\<close>

definition execute_and_apply_block :: "'db node_env \<Rightarrow> u64 \<Rightarrow> block \<Rightarrow> 'db engine \<Rightarrow> 'db engine" where
  "execute_and_apply_block E now b en =
     (if en_is_validator en \<and> blk_bls_aggregate_sig b = [] then en
      else if bh_timestamp (blk_header b) > now + 60 then en
      else case check_txs E (blk_transactions b) of
        Some InvalidProof \<Rightarrow> record_slashing_event ''invalid_zk_proof'' en
      | Some _ \<Rightarrow> en
      | None \<Rightarrow>
          (case run_contracts E (ss_db (en_store en)) (blk_transactions b) of
             (changes, contracts) \<Rightarrow>
               (case apply_block (nd_ext E) (nd_sled E) b changes contracts (en_store en) of
                  (Inl _, store) \<Rightarrow> record_slashing_event ''apply_block_failed'' (en\<lparr>en_store := store\<rparr>)
                | (Inr new_root, store) \<Rightarrow>
                    (let en' = en\<lparr>en_store := store\<rparr>
                     in if new_root \<noteq> bh_state_root (blk_header b)
                        then record_slashing_event ''state_root_mismatch'' en'
                        else en'\<lparr>en_missed := 0,
                               en_pool := remove_mined (nd_ext E) (blk_transactions b) (en_pool en)\<rparr>))))"

section \<open>The start of a height\<close>

text \<open>The local variables of the loop over heights.\<close>

record round_vars =
  rv_height :: u64
  rv_epoch :: u64
  rv_round :: u32
  rv_val_set :: validator_set
  rv_total_validators :: usize
  rv_bft :: bft_round_state
  rv_current_block :: "block option"

definition pseudo_vrf :: "ext \<Rightarrow> u64 \<Rightarrow> u32 \<Rightarrow> bytes" where
  "pseudo_vrf X height rnd = blake3 X (u64_to_le height @ u32_to_le rnd @ replicate 20 0)"

definition is_leader :: "'db engine \<Rightarrow> validator_set \<Rightarrow> bytes \<Rightarrow> u64 \<Rightarrow> bool" where
  "is_leader en val_set vrf_hash epoch =
     (if vset_is_empty val_set then en_is_validator en
      else case elect_leader val_set vrf_hash epoch of
        Some leader \<Rightarrow> se_id leader = en_local_id en
      | None \<Rightarrow> False)"

text \<open>The parent hash passed to the builder; any storage error panics (\<open>unwrap\<close>).\<close>

definition proposal_parent :: "'db node_env \<Rightarrow> u64 \<Rightarrow> 'db \<Rightarrow> hash32 option" where
  "proposal_parent E height db =
     (if height > 1 then
        (case get_block_by_height (nd_ext E) (nd_sled E) (height - 1) db of
           Inl _ \<Rightarrow> None
         | Inr None \<Rightarrow> Some (replicate 32 0)
         | Inr (Some b) \<Rightarrow> Some (header_hash (nd_ext E) (blk_header b)))
      else Some (replicate 32 0))"

definition propose :: "'db node_env \<Rightarrow> u64 \<Rightarrow> u64 \<Rightarrow> 'db engine \<Rightarrow> 'db engine option" where
  "propose E now height en =
     (let X = nd_ext E;
          txs = select_for_block X (nd_shuffle E) 10000 MAX_BLOCK_GAS (en_pool en)
      in case proposal_parent E height (ss_db (en_store en)) of
           None \<Rightarrow> None
         | Some parent_hash \<Rightarrow>
             (case build_block X (nd_sled E) txs (en_local_id en) parent_hash now height (en_store en) of
                None \<Rightarrow> None
              | Some b \<Rightarrow> Some (send_command (BroadcastBlock (bincode_block X b)) en)))"

definition begin_height :: "'db node_env \<Rightarrow> u64 \<Rightarrow> 'db engine \<Rightarrow> (round_vars \<times> 'db engine) option" where
  "begin_height E now en =
     (let db = ss_db (en_store en);
          height = unwrap_or (get_chain_height (nd_sled E) db) 0 + 1;
          epoch = height div EPOCH_BLOCKS;
          val_set = unwrap_or (get_validator_set (nd_ext E) (nd_sled E) epoch db) validator_set_default;
          total = (if vset_is_empty val_set then 4 else vset_len val_set)
      in case check_sync_status (sat_sub height 1) (en_sync en) of
           (is_syncing, sync') \<Rightarrow>
             (let rv = \<lparr>rv_height = height, rv_epoch = epoch, rv_round = 0, rv_val_set = val_set,
                    rv_total_validators = total, rv_bft = bft_round_new height 0 total, rv_current_block = None\<rparr>;
                  en' = en\<lparr>en_sync := sync'\<rparr>
              in if is_leader en' val_set (pseudo_vrf (nd_ext E) height 0) epoch \<and> \<not> is_syncing
                 then map_option (\<lambda>en''. (rv, en'')) (propose E now height en')
                 else Some (rv, en')))"

section \<open>The events of a height\<close>

datatype engine_event =
    BlockArrived peer_id block
  | VoteArrived vote
  | SyncRequested peer_id sync_request channel_id
  | SyncAnswered peer_id sync_response
  | RoundTimeout

text \<open>Whether the event loop goes on or breaks to the next height.\<close>

datatype loop_control = Continue | Break

text \<open>Signing a vote, broadcasting it and counting it.\<close>

definition cast_vote :: "'db node_env \<Rightarrow> hash32 \<Rightarrow> vote_type \<Rightarrow> round_vars \<times> 'db engine \<Rightarrow> round_vars \<times> 'db engine" where
  "cast_vote E hash kind = (\<lambda>(rv, en).
     case en_secret_key en of
       None \<Rightarrow> (rv, en)
     | Some sk \<Rightarrow>
         (let v = \<lparr>vote_height = rv_height rv, vote_round = rv_round rv, vote_block_hash = hash, vote_kind = kind,
                vote_validator_id = en_local_id en, vote_signature = bls_sign (nd_crypto E) sk hash\<rparr>
          in (rv\<lparr>rv_bft := snd (add_vote v (rv_bft rv))\<rparr>,
              send_command (BroadcastVote (bincode_vote (nd_ext E) v)) en)))"

definition handle_block :: "'db node_env \<Rightarrow> peer_id \<Rightarrow> block \<Rightarrow> round_vars \<times> 'db engine \<Rightarrow> round_vars \<times> 'db engine" where
  "handle_block E peer b = (\<lambda>(rv, en).
     let bh = bh_height (blk_header b);
         hash = header_hash (nd_ext E) (blk_header b)
     in case handle_peer_height peer bh (sat_sub (rv_height rv) 1) (en_sync en) of
          (started, sync') \<Rightarrow>
            (let en1 = en\<lparr>en_sync := sync'\<rparr>;
                 en2 = (case started of
                     None \<Rightarrow> en1
                   | Some _ \<Rightarrow>
                       (case sm_current_request sync' of
                          None \<Rightarrow> en1
                        | Some (p, req) \<Rightarrow> send_command (SendSyncRequest p req) en1))
             in if bh = rv_height rv \<and> \<not> sm_is_syncing sync'
                then cast_vote E hash Prevote
                  (rv\<lparr>rv_current_block := Some b, rv_bft := snd (try_advance_phase hash (rv_bft rv))\<rparr>, en2)
                else (rv, en2)))"

text \<open>The signature check of a vote: over the block hash alone, and waived when there are no validators.\<close>

definition vote_is_valid :: "'db node_env \<Rightarrow> validator_set \<Rightarrow> vote \<Rightarrow> bool" where
  "vote_is_valid E val_set v =
     (case get_by_id val_set (vote_validator_id v) of
        Some val \<Rightarrow>
          (case bls_public_from_bytes (nd_crypto E) (se_bls_pubkey val) of
             Inl _ \<Rightarrow> False
           | Inr pk \<Rightarrow>
               (case bls_signature_from_bytes (nd_crypto E) (vote_signature v) of
                  Inl _ \<Rightarrow> False
                | Inr sg \<Rightarrow> bls_verify (nd_crypto E) sg (vote_block_hash v) pk))
      | None \<Rightarrow> vset_is_empty val_set)"

definition handle_vote ::
  "'db node_env \<Rightarrow> u64 \<Rightarrow> vote \<Rightarrow> round_vars \<times> 'db engine \<Rightarrow> loop_control \<times> round_vars \<times> 'db engine" where
  "handle_vote E now v = (\<lambda>(rv, en).
     if vote_height v \<noteq> rv_height rv \<or> vote_round v \<noteq> rv_round rv \<or> \<not> vote_is_valid E (rv_val_set rv) v
     then (Continue, rv, en)
     else case add_vote v (rv_bft rv) of
       (new, bft1) \<Rightarrow>
         if \<not> new then (Continue, rv\<lparr>rv_bft := bft1\<rparr>, en)
         else case try_advance_phase (vote_block_hash v) bft1 of
           (phase, bft2) \<Rightarrow>
             (let rv' = rv\<lparr>rv_bft := bft2\<rparr>
              in case phase of
                   Some Bft_Precommit \<Rightarrow> (Continue, cast_vote E (vote_block_hash v) Precommit (rv', en))
                 | Some Bft_Commit \<Rightarrow>
                     (case rv_current_block rv' of
                        Some b \<Rightarrow> (Break, rv', execute_and_apply_block E now b en)
                      | None \<Rightarrow> (Continue, rv', en))
                 | _ \<Rightarrow> (Continue, rv', en)))"

text \<open>The loop that collects blocks for an answer; \<open>None\<close> is the panic of a malformed stored hash.\<close>

fun collect_blocks :: "'db node_env \<Rightarrow> 'db \<Rightarrow> u64 list \<Rightarrow> block list option" where
  "collect_blocks E db [] = Some []"
| "collect_blocks E db (h # hs) =
     (case get_block_by_height (nd_ext E) (nd_sled E) h db of
        Inl StoragePanic \<Rightarrow> None
      | Inr (Some b) \<Rightarrow> map_option (\<lambda>bs. b # bs) (collect_blocks E db hs)
      | _ \<Rightarrow> Some [])"

definition requested_heights :: "sync_request \<Rightarrow> u64 \<Rightarrow> u64 list" where
  "requested_heights req chain_height =
     (let max_h = min (sreq_start_height req + ucast (sreq_limit req)) (chain_height + 1)
      in map word_of_nat [unat (sreq_start_height req)..<unat max_h])"

definition handle_sync_request :: "'db node_env \<Rightarrow> sync_request \<Rightarrow> channel_id \<Rightarrow> 'db engine \<Rightarrow> 'db engine option" where
  "handle_sync_request E req channel en =
     (let db = ss_db (en_store en);
          chain_height = unwrap_or (get_chain_height (nd_sled E) db) 0
      in map_option (\<lambda>bs. send_command (SendSyncResponse channel \<lparr>sres_blocks = bs\<rparr>) en)
           (collect_blocks E db (requested_heights req chain_height)))"

definition apply_synced :: "'db node_env \<Rightarrow> u64 \<Rightarrow> u64 \<Rightarrow> block list \<Rightarrow> 'db engine \<Rightarrow> 'db engine" where
  "apply_synced E now height bs en =
     fold (\<lambda>b en. if bh_height (blk_header b) \<ge> height then execute_and_apply_block E now b en else en) bs en"

definition handle_sync_response ::
  "'db node_env \<Rightarrow> u64 \<Rightarrow> sync_response \<Rightarrow> round_vars \<times> 'db engine \<Rightarrow> loop_control \<times> round_vars \<times> 'db engine" where
  "handle_sync_response E now res = (\<lambda>(rv, en).
     if \<not> sm_is_syncing (en_sync en) then (Continue, rv, en)
     else
       let en1 = apply_synced E now (rv_height rv) (sres_blocks res) en;
           ch = unwrap_or (get_chain_height (nd_sled E) (ss_db (en_store en1))) 0
       in case check_sync_status ch (en_sync en1) of
            (syncing, sync') \<Rightarrow>
              (let en2 = en1\<lparr>en_sync := sync'\<rparr>
               in if \<not> syncing then (Continue, rv, en2)
                  else case sm_current_request sync' of
                    Some (p, r) \<Rightarrow> (Continue, rv, send_command (SendSyncRequest p (r\<lparr>sreq_start_height := ch + 1\<rparr>)) en2)
                  | None \<Rightarrow> (Break, rv, en2)))"

definition handle_timeout :: "round_vars \<times> 'db engine \<Rightarrow> round_vars \<times> 'db engine" where
  "handle_timeout = (\<lambda>(rv, en).
     let rnd = rv_round rv + 1;
         en1 = en\<lparr>en_missed := en_missed en + 1\<rparr>;
         en2 = (if en_missed en1 \<ge> sl_max_consecutive_missed_blocks (en_conditions en1)
                then record_slashing_event ''excessive_downtime'' en1 else en1)
     in (rv\<lparr>rv_round := rnd, rv_bft := bft_round_new (rv_height rv) rnd (rv_total_validators rv)\<rparr>, en2))"

text \<open>One turn of the event loop, at clock reading \<open>now\<close>.\<close>

definition engine_turn ::
  "'db node_env \<Rightarrow> u64 \<Rightarrow> engine_event \<Rightarrow> round_vars \<times> 'db engine \<Rightarrow> (loop_control \<times> round_vars \<times> 'db engine) option" where
  "engine_turn E now ev = (\<lambda>(rv, en).
     case ev of
       BlockArrived peer b \<Rightarrow> Some (Continue, handle_block E peer b (rv, en))
     | VoteArrived v \<Rightarrow> Some (handle_vote E now v (rv, en))
     | SyncRequested peer req ch \<Rightarrow> map_option (\<lambda>en'. (Continue, rv, en')) (handle_sync_request E req ch en)
     | SyncAnswered peer res \<Rightarrow> Some (handle_sync_response E now res (rv, en))
     | RoundTimeout \<Rightarrow> Some (Continue, handle_timeout (rv, en)))"

text \<open>The loop over heights: a broken event loop starts the next height at once.\<close>

definition engine_run_step ::
  "'db node_env \<Rightarrow> u64 \<Rightarrow> engine_event \<Rightarrow> round_vars \<times> 'db engine \<Rightarrow> (round_vars \<times> 'db engine) option" where
  "engine_run_step E now ev s =
     (case engine_turn E now ev s of
        None \<Rightarrow> None
      | Some (Continue, s') \<Rightarrow> Some s'
      | Some (Break, rv, en) \<Rightarrow> begin_height E now en)"

text \<open>
  The states the engine can be in: after the start of the first height, and after any event at
  any clock reading, for as long as the task does not panic.
\<close>

inductive engine_reach :: "'db node_env \<Rightarrow> 'db engine \<Rightarrow> round_vars \<times> 'db engine \<Rightarrow> bool" for E en0 where
  Start: "begin_height E now en0 = Some s \<Longrightarrow> engine_reach E en0 s"
| Event: "engine_reach E en0 s \<Longrightarrow> engine_run_step E now ev s = Some s' \<Longrightarrow> engine_reach E en0 s'"

section \<open>What a vote can do\<close>

text \<open>
  A vote is ignored, or counted in one of four ways: already known; new without reaching a
  quorum the phase waits for; reaching the prevote quorum; reaching the precommit quorum.
\<close>

lemma handle_vote_cases [consumes 0, case_names ignored known counted precommit commit]:
  obtains "handle_vote E now v (rv, en) = (Continue, rv, en)"
  | "vote_is_valid E (rv_val_set rv) v"
    "handle_vote E now v (rv, en) = (Continue, rv\<lparr>rv_bft := snd (add_vote v (rv_bft rv))\<rparr>, en)"
  | s where "vote_is_valid E (rv_val_set rv) v"
    "s = snd (try_advance_phase (vote_block_hash v) (snd (add_vote v (rv_bft rv))))"
    "handle_vote E now v (rv, en) = (Continue, rv\<lparr>rv_bft := s\<rparr>, en)"
  | s where "vote_is_valid E (rv_val_set rv) v"
    "s = snd (try_advance_phase (vote_block_hash v) (snd (add_vote v (rv_bft rv))))"
    "handle_vote E now v (rv, en) = (Continue, cast_vote E (vote_block_hash v) Precommit (rv\<lparr>rv_bft := s\<rparr>, en))"
  | s b where "vote_is_valid E (rv_val_set rv) v"
    "try_advance_phase (vote_block_hash v) (snd (add_vote v (rv_bft rv))) = (Some Bft_Commit, s)"
    "rv_current_block rv = Some b"
    "handle_vote E now v (rv, en) = (Break, rv\<lparr>rv_bft := s\<rparr>, execute_and_apply_block E now b en)"
proof (cases "vote_height v \<noteq> rv_height rv \<or> vote_round v \<noteq> rv_round rv \<or> \<not> vote_is_valid E (rv_val_set rv) v")
  case True
  then show ?thesis
    by (intro that(1)) (simp add: handle_vote_def)
next
  case False
  obtain new bft1 where add: "add_vote v (rv_bft rv) = (new, bft1)" by fastforce
  obtain phase bft2 where adv: "try_advance_phase (vote_block_hash v) bft1 = (phase, bft2)" by fastforce
  show ?thesis
  proof (cases new)
    case seen: False
    show ?thesis
      using False seen add by (intro that(2)) (simp_all add: handle_vote_def)
  next
    case True
    consider (pre) "phase = Some Bft_Precommit" | (commit) b where "phase = Some Bft_Commit" "rv_current_block rv = Some b"
      | (other) "phase \<noteq> Some Bft_Precommit" "phase = Some Bft_Commit \<Longrightarrow> rv_current_block rv = None"
      by (cases "rv_current_block rv") auto
    then show ?thesis
    proof cases
      case pre
      then show ?thesis
        using False add adv True by (intro that(4) [of bft2]) (simp_all add: handle_vote_def)
    next
      case (commit b)
      then show ?thesis
        using False add adv True by (intro that(5) [of bft2 b]) (simp_all add: handle_vote_def)
    next
      case other
      then show ?thesis
        using False add adv True
        by (intro that(3) [of bft2]) (auto simp: handle_vote_def Let_def split: option.split bft_phase.split)
    qed
  qed
qed

end
