(* ===== verification/Engine_Blocks.thy ===== *)
theory Engine_Blocks
  imports Engine
begin

text \<open>
  What the engine does with a block: which blocks it applies and to what effect on store and
  pool, the fate of the builder's own blocks, of a chain without a genesis block, and of pooled
  transactions that conflict with a mined one.
\<close>

section \<open>The checks before application\<close>

definition block_checked :: "'db node_env \<Rightarrow> u64 \<Rightarrow> block \<Rightarrow> 'db engine \<Rightarrow> bool" where
  "block_checked E now b en \<longleftrightarrow>
     \<not> (en_is_validator en \<and> blk_bls_aggregate_sig b = []) \<and>
     \<not> bh_timestamp (blk_header b) > now + 60 \<and> check_txs E (blk_transactions b) = None"

lemma record_slashing_event_simps [simp]:
  "en_store (record_slashing_event e en) = en_store en" "en_pool (record_slashing_event e en) = en_pool en"
  "en_sync (record_slashing_event e en) = en_sync en" "en_missed (record_slashing_event e en) = en_missed en"
  "en_local_id (record_slashing_event e en) = en_local_id en"
  "en_secret_key (record_slashing_event e en) = en_secret_key en"
  "en_is_validator (record_slashing_event e en) = en_is_validator en"
  "en_slashing (record_slashing_event e en) = en_slashing en @ [e]"
  by (simp_all add: record_slashing_event_def)

lemma send_command_simps [simp]:
  "en_store (send_command c en) = en_store en" "en_pool (send_command c en) = en_pool en"
  "en_sync (send_command c en) = en_sync en" "en_local_id (send_command c en) = en_local_id en"
  "en_secret_key (send_command c en) = en_secret_key en"
  "en_is_validator (send_command c en) = en_is_validator en"
  by (simp_all add: send_command_def)

lemma check_txs_None: "check_txs E txs = None \<longleftrightarrow> (\<forall>tx \<in> set txs. check_tx E tx = None)"
  by (induction txs) (auto split: option.splits)

lemma check_tx_None:
  "check_tx E tx = None \<longleftrightarrow> well_formatted (nd_ext E) tx \<and>
     (tx_spends tx \<noteq> [] \<longrightarrow> tx_aggregate_spend_proof tx \<noteq> [] \<and>
        nd_verify_spend E (tx_aggregate_spend_proof tx) (length (tx_spends tx)) = Inr True)"
proof -
  have "validate_format (nd_ext E) tx = Inr u \<Longrightarrow> \<not> MAX_TX_GAS < tx_gas_limit tx" for u
    using validate_format_gas [of "nd_ext E" tx u] by (simp add: word_less_nat_alt unat_MAX_TX_GAS)
  then show ?thesis
    by (auto simp: check_tx_def validate_format_Inr [of "nd_ext E" tx "()", symmetric] split: sum.splits)
qed

text \<open>A block that fails a check changes neither store nor pool.\<close>

lemma execute_unchecked:
  assumes "\<not> block_checked E now b en" "en' = execute_and_apply_block E now b en"
  shows "en_store en' = en_store en \<and> en_pool en' = en_pool en \<and> en_missed en' = en_missed en"
  using assms
  by (auto simp: execute_and_apply_block_def block_checked_def split: option.splits block_rejection.splits)

lemma execute_checked:
  assumes "block_checked E now b en"
    and "run_contracts E (ss_db (en_store en)) (blk_transactions b) = (changes, contracts)"
  shows "execute_and_apply_block E now b en =
    (case apply_block (nd_ext E) (nd_sled E) b changes contracts (en_store en) of
       (Inl _, store) \<Rightarrow> record_slashing_event ''apply_block_failed'' (en\<lparr>en_store := store\<rparr>)
     | (Inr new_root, store) \<Rightarrow>
         (if new_root \<noteq> bh_state_root (blk_header b)
          then record_slashing_event ''state_root_mismatch'' (en\<lparr>en_store := store\<rparr>)
          else en\<lparr>en_store := store, en_missed := 0,
                 en_pool := remove_mined (nd_ext E) (blk_transactions b) (en_pool en)\<rparr>))"
  using assms
  by (cases "apply_block (nd_ext E) (nd_sled E) b changes contracts (en_store en)")
    (auto simp: execute_and_apply_block_def block_checked_def Let_def split: sum.split)

text \<open>Fields no block changes.\<close>

lemma execute_frame [simp]:
  "en_sync (execute_and_apply_block E now b en) = en_sync en"
  "en_local_id (execute_and_apply_block E now b en) = en_local_id en"
  "en_secret_key (execute_and_apply_block E now b en) = en_secret_key en"
  "en_is_validator (execute_and_apply_block E now b en) = en_is_validator en"
  by (simp_all add: execute_and_apply_block_def Let_def
      split: option.split block_rejection.split prod.split sum.split)

text \<open>
  C4: executing a block implements the ledger's step behind the node's checks. A block that fails
  a check leaves store and pool alone. A checked block the ledger accepts takes the store to the
  ledger's next state, with the contract effects of running its transactions on the state
  before; the pool drops the mined transactions only if the header carries the root after the
  block. If the header carries another root the block is kept in the store all the same and
  only an event is logged. A checked block the ledger refuses leaves the pool alone.
\<close>

theorem execute_refines_ledger:
  assumes "sled_db (nd_sled E)" "represents (nd_ext E) (nd_sled E) (en_store en) L"
    and "length (lg_leaves L) + length (block_commitments b) < 2 ^ 32"
    and "run_contracts E (ss_db (en_store en)) (blk_transactions b) = (changes, contracts)"
    and "en' = execute_and_apply_block E now b en"
  shows "if \<not> block_checked E now b en then en_store en' = en_store en \<and> en_pool en' = en_pool en
    else case ledger_apply (nd_ext E) b changes contracts L of
      None \<Rightarrow> en_pool en' = en_pool en \<and> en_slashing en' = en_slashing en @ [''apply_block_failed'']
    | Some L' \<Rightarrow> represents (nd_ext E) (nd_sled E) (en_store en') L' \<and>
        (if ledger_root (nd_ext E) L' = bh_state_root (blk_header b)
         then en_pool en' = remove_mined (nd_ext E) (blk_transactions b) (en_pool en) \<and> en_missed en' = 0
         else en_pool en' = en_pool en \<and> en_slashing en' = en_slashing en @ [''state_root_mismatch''])"
proof (cases "block_checked E now b en")
  case False
  then show ?thesis
    using execute_unchecked [OF False assms(5)] by simp
next
  case True
  let ?run = "apply_block (nd_ext E) (nd_sled E) b changes contracts (en_store en)"
  obtain r store where run: "?run = (r, store)" by fastforce
  have en': "en' = (case (r, store) of
       (Inl _, store) \<Rightarrow> record_slashing_event ''apply_block_failed'' (en\<lparr>en_store := store\<rparr>)
     | (Inr new_root, store) \<Rightarrow>
         (if new_root \<noteq> bh_state_root (blk_header b)
          then record_slashing_event ''state_root_mismatch'' (en\<lparr>en_store := store\<rparr>)
          else en\<lparr>en_store := store, en_missed := 0,
                 en_pool := remove_mined (nd_ext E) (blk_transactions b) (en_pool en)\<rparr>))"
    unfolding assms(5) execute_checked [OF True assms(4)] run ..
  show ?thesis
    using True sled_db.apply_block_refines [OF assms(1-3), of changes contracts]
    by (cases "ledger_apply (nd_ext E) b changes contracts L") (auto simp: run en')
qed

section \<open>The node's own proposals\<close>

text \<open>
  C38: a validator never applies a block its own builder or that of any node made: the builder
  leaves the aggregate signature empty, and validators drop such a block without any effect. A
  node that is not a validator, is on the builder's ledger, finds nothing wrong with the block's
  transactions and its time stamp, and has its nullifiers unspent and room for its notes, applies
  it, but unless the roots before and after coincide it logs a state root mismatch and keeps the
  mined transactions in its pool.
\<close>

theorem built_blocks_are_not_accepted:
  assumes "sled_db (nd_sled E)" "represents (nd_ext E) (nd_sled E) s L" "readable_ledger (nd_ext E) L"
    and "length (lg_leaves L) < 2 ^ 32"
    and "build_block (nd_ext E) (nd_sled E) txs proposer vrf_out timestamp epoch s = Some b"
  shows "(en_is_validator en \<longrightarrow> execute_and_apply_block E now b en = en) \<and>
    (\<not> en_is_validator en \<and> represents (nd_ext E) (nd_sled E) (en_store en) L \<and> block_checked E now b en \<and>
       spendable (lg_spent L) b \<and> length (lg_leaves L) + length (block_commitments b) < 2 ^ 32 \<and>
       ledger_root (nd_ext E) (L\<lparr>lg_leaves := lg_leaves L @ block_commitments b\<rparr>) \<noteq> ledger_root (nd_ext E) L \<longrightarrow>
     en_pool (execute_and_apply_block E now b en) = en_pool en \<and>
     ''state_root_mismatch'' \<in> set (en_slashing (execute_and_apply_block E now b en)) \<and>
     get_chain_height (nd_sled E) (ss_db (en_store (execute_and_apply_block E now b en))) =
       Inr (bh_height (blk_header b)))"
proof (intro conjI impI)
  have b: "blk_bls_aggregate_sig b = []" "bh_height (blk_header b) = next_height L"
      "bh_state_root (blk_header b) = ledger_root (nd_ext E) L"
    using assms(5) sled_db.build_block_ledger [OF assms(1-3)] sled_db.state_root_ledger [OF assms(1,2,4)]
    by auto
  show "execute_and_apply_block E now b en = en" if "en_is_validator en"
    using that b(1) by (simp add: execute_and_apply_block_def)
  assume run: "\<not> en_is_validator en \<and> represents (nd_ext E) (nd_sled E) (en_store en) L \<and> block_checked E now b en \<and>
       spendable (lg_spent L) b \<and> length (lg_leaves L) + length (block_commitments b) < 2 ^ 32 \<and>
       ledger_root (nd_ext E) (L\<lparr>lg_leaves := lg_leaves L @ block_commitments b\<rparr>) \<noteq> ledger_root (nd_ext E) L"
  obtain changes contracts where eff: "run_contracts E (ss_db (en_store en)) (blk_transactions b) = (changes, contracts)"
    by fastforce
  have root: "ledger_root (nd_ext E) (ledger_commit (nd_ext E) b changes contracts L) =
      ledger_root (nd_ext E) (L\<lparr>lg_leaves := lg_leaves L @ block_commitments b\<rparr>)"
    by (simp add: ledger_root_def ledger_commit_def Let_def)
  let ?run = "apply_block (nd_ext E) (nd_sled E) b changes contracts (en_store en)"
  obtain store where store: "?run = (Inr (ledger_root (nd_ext E) (ledger_commit (nd_ext E) b changes contracts L)), store)"
      "represents (nd_ext E) (nd_sled E) store (ledger_commit (nd_ext E) b changes contracts L)"
    using sled_db.apply_block_accepts [OF assms(1), of "nd_ext E" "en_store en" L b changes contracts] run b(2)
    by (metis prod.collapse)
  have en': "execute_and_apply_block E now b en = record_slashing_event ''state_root_mismatch'' (en\<lparr>en_store := store\<rparr>)"
    using run b(3) root by (simp add: execute_checked [OF _ eff] store(1))
  then show "en_pool (execute_and_apply_block E now b en) = en_pool en"
      "''state_root_mismatch'' \<in> set (en_slashing (execute_and_apply_block E now b en))"
    by simp_all
  have "ledger_trees (nd_ext E) (nd_sled E) (db_view (nd_sled E) (ss_db store)) (ledger_commit (nd_ext E) b changes contracts L)"
    using store(2) by (simp add: represents_def)
  from sled_db.get_chain_height_eq [OF assms(1) this]
  show "get_chain_height (nd_sled E) (ss_db (en_store (execute_and_apply_block E now b en))) =
      Inr (bh_height (blk_header b))"
    by (simp add: en' ledger_commit_def Let_def)
qed

section \<open>Conflicts with mined transactions\<close>

lemma remove_mined_other:
  "txid \<notin> set (map (tx_id_of X) txs) \<Longrightarrow> map_of (mp_txs (remove_mined X txs p)) txid = map_of (mp_txs p) txid"
  by (induction txs arbitrary: p) (simp_all add: remove_mined_def delete_conv')

text \<open>
  Mining a transaction does not drop its rivals. A pooled transaction that spends the
  nullifier of a mined one under another identifier is still in the pool after the block is
  applied, and from then on the store refuses every block that contains it: a proposal that
  selects it can never be applied.
\<close>

theorem mined_conflict_stays_pooled:
  assumes "sled_db (nd_sled E)" "represents (nd_ext E) (nd_sled E) (en_store en) L"
    and "length (lg_leaves L) + length (block_commitments b) + length (block_commitments b') < 2 ^ 32"
    and "block_checked E now b en" "bh_height (blk_header b) = next_height L" "spendable (lg_spent L) b"
    and "map_of (mp_txs (en_pool en)) (tx_id_of (nd_ext E) rival) = Some rival"
    and "tx_id_of (nd_ext E) rival \<notin> set (map (tx_id_of (nd_ext E)) (blk_transactions b))"
    and "nf \<in> set (tx_nullifiers rival)" "nf \<in> set (block_nullifiers b)"
    and "rival \<in> set (blk_transactions b')" "en' = execute_and_apply_block E now b en"
  shows "map_of (mp_txs (en_pool en')) (tx_id_of (nd_ext E) rival) = Some rival \<and>
    (\<exists>e. fst (apply_block (nd_ext E) (nd_sled E) b' changes contracts (en_store en')) = Inl e)"
proof -
  obtain ch co where eff: "run_contracts E (ss_db (en_store en)) (blk_transactions b) = (ch, co)"
    by fastforce
  let ?L = "ledger_commit (nd_ext E) b ch co L"
  let ?run = "apply_block (nd_ext E) (nd_sled E) b ch co (en_store en)"
  have accepted: "fst ?run = Inr (ledger_root (nd_ext E) ?L)" "represents (nd_ext E) (nd_sled E) (snd ?run) ?L"
    using sled_db.apply_block_accepts [OF assms(1,2,5) _ assms(6), of ch co] assms(3) by simp_all
  then have en': "en_store en' = snd ?run"
      "en_pool en' = en_pool en \<or> en_pool en' = remove_mined (nd_ext E) (blk_transactions b) (en_pool en)"
    unfolding assms(12) execute_checked [OF assms(4) eff] by (cases ?run, auto)+
  have pooled: "map_of (mp_txs (en_pool en')) (tx_id_of (nd_ext E) rival) = Some rival"
    using en'(2) assms(7) remove_mined_other [OF assms(8), of "en_pool en"] by auto
  have "nf \<in> lg_spent ?L" "nf \<in> set (block_nullifiers b')"
    using assms(9-11) by (auto simp: ledger_commit_def Let_def block_nullifiers_def)
  then have "ledger_apply (nd_ext E) b' changes contracts ?L = None"
    by (auto simp: ledger_apply_def spendable_def)
  moreover have "length (lg_leaves ?L) + length (block_commitments b') < 2 ^ 32"
    using assms(3) by (simp add: ledger_commit_def Let_def)
  ultimately show ?thesis
    using sled_db.apply_block_refines [OF assms(1) accepted(2), of b' changes contracts] pooled en'(1) by auto
qed

section \<open>A chain without a genesis block\<close>

text \<open>
  On an empty store the chain height reads 0, so the engine works on height 1, while the store
  accepts height 0 only.
\<close>

definition waits_for_genesis :: "'db node_env \<Rightarrow> 'db state_store \<Rightarrow> round_vars \<times> 'db engine \<Rightarrow> bool" where
  "waits_for_genesis E store = (\<lambda>(rv, en). en_store en = store \<and> rv_height rv = 1 \<and>
     (\<forall>b. rv_current_block rv = Some b \<longrightarrow> bh_height (blk_header b) = 1))"

context sled_db
begin

lemma empty_store_height:
  assumes "no_data S db"
  shows "get_chain_height S db = Inr 0" and "has_blocks S db = Inr False"
  using assms by (simp_all add: no_data_def get_chain_height_def has_blocks_def cf_get_eq)

lemma empty_store_refuses:
  assumes "no_data S db" "bh_height (blk_header b) \<noteq> 0"
  shows "apply_block X S b changes contracts (fresh_store db) =
    (Inl (InvalidTransition 0 (bh_height (blk_header b))), fresh_store db)"
  using apply_block_wrong_height [OF fresh_store_represents [OF assms(1)],
      where X = X and b = b and changes = changes and contracts = contracts] assms(2)
  by (simp add: next_height_def empty_ledger_def)

end

lemma execute_on_empty:
  assumes "sled_db (nd_sled E)" "no_data (nd_sled E) db" "bh_height (blk_header b) \<noteq> 0"
    and "en_store en = fresh_store db"
  shows "en_store (execute_and_apply_block E now b en) = fresh_store db"
proof (cases "block_checked E now b en")
  case False
  then show ?thesis
    using execute_unchecked [OF False refl] assms(4) by simp
next
  case True
  obtain changes contracts where eff: "run_contracts E (ss_db (en_store en)) (blk_transactions b) = (changes, contracts)"
    by fastforce
  show ?thesis
    using execute_checked [OF True eff] assms(4)
    by (simp add: sled_db.empty_store_refuses [OF assms(1-3)])
qed

lemma apply_synced_on_empty:
  assumes "sled_db (nd_sled E)" "no_data (nd_sled E) db"
  shows "en_store en = fresh_store db \<Longrightarrow> en_store (apply_synced E now 1 bs en) = fresh_store db"
proof (induction bs arbitrary: en)
  case (Cons b bs)
  have "bh_height (blk_header b) \<ge> 1 \<Longrightarrow> bh_height (blk_header b) \<noteq> 0"
    by auto
  then show ?case
    using Cons execute_on_empty [OF assms, of b en now]
    by (simp add: apply_synced_def)
qed (simp add: apply_synced_def)

lemma propose_store: "propose E now h en = Some en' \<Longrightarrow> en_store en' = en_store en"
  by (auto simp: propose_def Let_def split: option.splits)

lemma begin_height_store:
  assumes "begin_height E now en = Some (rv, en')"
  shows "en_store en' = en_store en" and "rv_current_block rv = None"
    and "rv_height rv = unwrap_or (get_chain_height (nd_sled E) (ss_db (en_store en))) 0 + 1"
  using assms by (auto simp: begin_height_def Let_def dest!: propose_store split: prod.splits if_splits)

lemma cast_vote_simps [simp]:
  "en_store (snd (cast_vote E h k s)) = en_store (snd s)"
  "rv_height (fst (cast_vote E h k s)) = rv_height (fst s)"
  "rv_current_block (fst (cast_vote E h k s)) = rv_current_block (fst s)"
  "en_sync (snd (cast_vote E h k s)) = en_sync (snd s)"
  by (simp_all add: cast_vote_def split_beta Let_def split: option.split)

lemma waits_for_genesis_turn:
  assumes "sled_db (nd_sled E)" "no_data (nd_sled E) db"
    and wait: "waits_for_genesis E (fresh_store db) (rv, en)"
    and turn: "engine_turn E now ev (rv, en) = Some (ctl, rv', en')"
  shows "waits_for_genesis E (fresh_store db) (rv', en')"
proof -
  have st: "en_store en = fresh_store db" "rv_height rv = 1"
    "\<And>b. rv_current_block rv = Some b \<Longrightarrow> bh_height (blk_header b) = 1"
    using wait by (auto simp: waits_for_genesis_def)
  note exec = execute_on_empty [OF assms(1,2)] and synced = apply_synced_on_empty [OF assms(1,2)]
  show ?thesis
  proof (cases ev)
    case (BlockArrived peer b)
    have "waits_for_genesis E (fresh_store db) (handle_block E peer b (rv, en))"
      using st
      by (auto simp: waits_for_genesis_def handle_block_def Let_def split_beta split: prod.split option.split)
    then show ?thesis
      using turn BlockArrived by (auto simp: engine_turn_def)
  next
    case (VoteArrived v)
    have "waits_for_genesis E (fresh_store db) (snd (handle_vote E now v (rv, en)))"
    proof (cases E now v rv en rule: handle_vote_cases)
      case (commit s b)
      moreover have "en_store (execute_and_apply_block E now b en) = fresh_store db"
        using st(3) [OF commit(3)] st(1) by (intro exec) auto
      ultimately show ?thesis
        using st by (simp add: waits_for_genesis_def)
    qed (use st in \<open>simp_all add: waits_for_genesis_def split_beta\<close>)
    then show ?thesis
      using turn VoteArrived by (simp add: engine_turn_def)
  next
    case (SyncRequested peer req ch)
    then show ?thesis
      using turn st by (auto simp: engine_turn_def handle_sync_request_def Let_def waits_for_genesis_def)
  next
    case (SyncAnswered peer res)
    have "waits_for_genesis E (fresh_store db) (snd (handle_sync_response E now res (rv, en)))"
      using st synced [OF st(1), of now "sres_blocks res"]
      by (auto simp: handle_sync_response_def waits_for_genesis_def Let_def split: prod.split option.split)
    then show ?thesis
      using turn SyncAnswered by (simp add: engine_turn_def)
  next
    case RoundTimeout
    then show ?thesis
      using turn st by (auto simp: engine_turn_def handle_timeout_def Let_def waits_for_genesis_def)
  qed
qed

lemma waits_for_genesis_begin:
  assumes "sled_db (nd_sled E)" "no_data (nd_sled E) db" "en_store en = fresh_store db"
    and "begin_height E now en = Some s"
  shows "waits_for_genesis E (fresh_store db) s"
  using begin_height_store [of E now en "fst s" "snd s"] assms(3,4) sled_db.empty_store_height(1) [OF assms(1,2)]
  by (simp add: waits_for_genesis_def split_beta fresh_store_def)

lemma waits_for_genesis_reach:
  assumes "sled_db (nd_sled E)" "no_data (nd_sled E) db" "en_store en0 = fresh_store db"
    and "engine_reach E en0 s"
  shows "waits_for_genesis E (fresh_store db) s"
  using assms(4)
proof (induction rule: engine_reach.induct)
  case (Start now s)
  then show ?case
    by (rule waits_for_genesis_begin [OF assms(1-3)])
next
  case (Event s now ev s')
  obtain rv en where s: "s = (rv, en)" by fastforce
  obtain ctl rv1 en1 where turn: "engine_turn E now ev (rv, en) = Some (ctl, rv1, en1)"
    using Event.hyps(2) by (auto simp: engine_run_step_def s split: option.splits)
  have wait: "waits_for_genesis E (fresh_store db) (rv1, en1)"
    using waits_for_genesis_turn [OF assms(1,2) _ turn] Event.IH s by simp
  show ?case
  proof (cases ctl)
    case Continue
    then show ?thesis
      using Event.hyps(2) turn wait by (simp add: engine_run_step_def s)
  next
    case Break
    then have "begin_height E now en1 = Some s'"
      using Event.hyps(2) turn by (simp add: engine_run_step_def s)
    then show ?thesis
      using wait by (intro waits_for_genesis_begin [OF assms(1,2)]) (auto simp: waits_for_genesis_def)
  qed
qed

text \<open>
  C37: a chain cannot start. A node whose store is empty stays at height 1 with an empty store
  whatever blocks, votes, sync messages and timeouts arrive and however often a block is
  committed: the engine offers the store height 1 or higher only, and the store expects the
  genesis block at height 0, which nothing in the engine applies.
\<close>

theorem empty_chain_never_starts:
  assumes "sled_db (nd_sled E)" "no_data (nd_sled E) db" "en_store en0 = fresh_store db"
    and "engine_reach E en0 (rv, en)"
  shows "en_store en = fresh_store db \<and> rv_height rv = 1 \<and>
    has_blocks (nd_sled E) (ss_db (en_store en)) = Inr False"
  using waits_for_genesis_reach [OF assms] sled_db.empty_store_height(2) [OF assms(1,2)]
  by (simp add: waits_for_genesis_def fresh_store_def)

section \<open>A concrete node\<close>

text \<open>An engine over the in-memory store; the virtual machine refuses every module.\<close>

definition sample_node :: "mem_db node_env" where
  "sample_node = \<lparr>nd_ext = sample_codec, nd_sled = mem_sled,
     nd_vm = \<lparr>wt_module = (\<lambda>_. Inl ''invalid''), wt_instantiate = (\<lambda>_ fuel c. (Inl (WtError ''invalid''), c, fuel)),
       wt_has_func = (\<lambda>_ _. False), wt_call = (\<lambda>_ _ fuel c. (Inl ''invalid'', c, fuel)),
       wt_out_of_fuel = (\<lambda>_. False)\<rparr>,
     nd_crypto = sample_crypto, nd_verify_spend = verify_spend_proof counting_nova (), nd_shuffle = id\<rparr>"

lemma sample_node_simps [simp]:
  "nd_ext sample_node = sample_codec" "nd_sled sample_node = mem_sled"
  "nd_crypto sample_node = sample_crypto" "nd_verify_spend sample_node = verify_spend_proof counting_nova ()"
  by (simp_all add: sample_node_def)

definition proven_tx :: "u8 \<Rightarrow> transaction" where
  "proven_tx n = (sample_tx n)\<lparr>tx_aggregate_spend_proof := [1, 0]\<rparr>"

definition sample_engine :: "mem_db state_store \<Rightarrow> mempool \<Rightarrow> (bytes \<times> bytes) option \<Rightarrow> mem_db engine" where
  "sample_engine store pool validator = engine_new store pool validator \<lparr>ps_high = [], ps_low = []\<rparr>"

lemma sample_engine_simps [simp]:
  "en_store (sample_engine store pool validator) = store" "en_pool (sample_engine store pool validator) = pool"
  "en_is_validator (sample_engine store pool validator) = (validator \<noteq> None)"
  "en_secret_key (sample_engine store pool validator) = map_option snd validator"
  "en_sync (sample_engine store pool validator) = sync_manager_new"
  by (simp_all add: sample_engine_def engine_new_def)

lemma proven_tx_simps [simp]:
  "tx_nullifiers (proven_tx n) = [replicate 32 n]" "tx_commitments (proven_tx n) = [replicate 32 (n + 1)]"
  "tx_deploy_contract (proven_tx n) = None" "tx_contract_call (proven_tx n) = None"
  "tx_id_of sample_codec (proven_tx n) = replicate 32 n"
  by (simp_all add: proven_tx_def sample_tx_def tx_nullifiers_def sample_spend_def tx_commitments_def
      sample_output_def tx_id_of_def sample_codec_def sample_ext_def sample_hash_def)

lemma check_proven_tx: "check_tx sample_node (proven_tx n) = None"
proof -
  have "well_formatted sample_codec (proven_tx n)"
    by (simp add: well_formatted_def proven_tx_def sample_tx_def sample_codec_def sample_ext_def)
  moreover have "verify_spend_proof counting_nova () [1, 0] 1 = Inr True"
    by (simp add: verify_spend_proof_def counting_nova_def)
  ultimately show ?thesis
    by (simp add: check_tx_None) (simp add: proven_tx_def sample_tx_def)
qed

lemma empty_ledger_simps [simp]:
  "lg_leaves empty_ledger = []" "lg_spent empty_ledger = {}" "next_height empty_ledger = 0"
  by (simp_all add: empty_ledger_def next_height_def)

lemma empty_represents: "represents X mem_sled (fresh_store mem_empty) empty_ledger"
  by (rule fresh_store_represents [OF no_data_mem])

lemma run_contracts_proven: "run_contracts sample_node db (map proven_tx ns) = ([], [])"
proof -
  have "fold (run_tx sample_node db) (map proven_tx ns) eff = eff" for eff
    by (induction ns) (simp_all add: run_tx_def)
  then show ?thesis
    by (simp add: run_contracts_def)
qed

lemma block_checked_proven:
  "\<not> en_is_validator en \<Longrightarrow> block_checked sample_node 0 (sample_block h (map proven_tx ns)) en"
  by (simp add: block_checked_def check_txs_None check_proven_tx sample_block_def sample_header_def)

theorem execute_refines_ledger_witness:
  "represents sample_codec mem_sled
     (en_store (execute_and_apply_block sample_node 0 (sample_block 0 [proven_tx 1])
       (sample_engine (fresh_store mem_empty) mempool_new None)))
     (ledger_commit sample_codec (sample_block 0 [proven_tx 1]) [] [] empty_ledger)"
proof -
  let ?b = "sample_block 0 (map proven_tx [1])"
  let ?en = "sample_engine (fresh_store mem_empty) mempool_new None"
  have "ledger_apply sample_codec ?b [] [] empty_ledger = Some (ledger_commit sample_codec ?b [] [] empty_ledger)"
    by (simp add: ledger_apply_def spendable_def block_nullifiers_def)
  with execute_refines_ledger [of sample_node ?en empty_ledger ?b "[]" "[]" _ 0, OF _ _ _ _ refl]
  show ?thesis
    using block_checked_proven [of ?en 0 "[1]"] run_contracts_proven [of _ "[1]"]
    by (simp add: mem.sled_db_axioms empty_represents block_commitments_def)
qed

theorem built_blocks_are_not_accepted_witness:
  "execute_and_apply_block sample_node 0
     (the (build_block sample_codec mem_sled [proven_tx 2] [] [] 0 1 one_block_store))
     (sample_engine one_block_store mempool_new (Some ([1], [2]))) =
   sample_engine one_block_store mempool_new (Some ([1], [2]))"
proof -
  obtain b where b: "build_block sample_codec mem_sled [proven_tx 2] [] [] 0 1 one_block_store = Some b"
    using mem.build_block_ledger [OF one_block_represents one_block_readable] by blast
  then show ?thesis
    using built_blocks_are_not_accepted [of sample_node one_block_store one_block_ledger "[proven_tx 2]" "[]" "[]" 0 1 b
        "sample_engine one_block_store mempool_new (Some ([1], [2]))" 0]
    by (simp add: mem.sled_db_axioms one_block_represents one_block_readable one_block_simps)
qed

lemma no_validators_mem: "get_validator_set X mem_sled epoch mem_empty = Inr (validator_set_new epoch [])"
  by (simp add: get_validator_set_def get_all_validators_def mem_empty_def)

lemma begin_height_observer:
  "begin_height sample_node 0 (sample_engine (fresh_store mem_empty) mempool_new None) \<noteq> None"
proof -
  have "is_leader en (validator_set_new epoch []) vrf e = en_is_validator en" for en :: "mem_db engine" and epoch vrf e
    by (simp add: is_leader_def vset_is_empty_def)
  then show ?thesis
    by (simp add: begin_height_def fresh_store_def no_validators_mem Let_def split: prod.split)
qed

theorem empty_chain_never_starts_witness:
  "rv_height (fst (the (begin_height sample_node 0 (sample_engine (fresh_store mem_empty) mempool_new None)))) = 1"
proof -
  obtain rv en where s: "begin_height sample_node 0 (sample_engine (fresh_store mem_empty) mempool_new None) = Some (rv, en)"
    using begin_height_observer by fastforce
  then have reach: "engine_reach sample_node (sample_engine (fresh_store mem_empty) mempool_new None) (rv, en)"
    by (rule engine_reach.Start)
  have "rv_height rv = 1"
    using empty_chain_never_starts [OF _ _ _ reach, of mem_empty]
    by (simp add: mem.sled_db_axioms no_data_mem)
  then show ?thesis
    by (simp add: s)
qed

definition rival_tx :: transaction where
  "rival_tx = (proven_tx 2)\<lparr>tx_spends := [sample_spend 2, sample_spend 1]\<rparr>"

theorem mined_conflict_stays_pooled_witness:
  "map_of (mp_txs (en_pool (execute_and_apply_block sample_node 0 (sample_block 0 [proven_tx 1])
     (sample_engine (fresh_store mem_empty) \<lparr>mp_txs = [(replicate 32 2, rival_tx)], mp_pending = Map.empty\<rparr> None))))
     (replicate 32 2) = Some rival_tx"
proof -
  let ?b = "sample_block 0 (map proven_tx [1])"
  let ?en = "sample_engine (fresh_store mem_empty) \<lparr>mp_txs = [(replicate 32 2, rival_tx)], mp_pending = Map.empty\<rparr> None"
  have rival: "tx_id_of sample_codec rival_tx = replicate 32 2"
      "tx_nullifiers rival_tx = [replicate 32 2, replicate 32 1]" "tx_commitments rival_tx = [replicate 32 3]"
    by (simp_all add: rival_tx_def proven_tx_def sample_tx_def tx_nullifiers_def sample_spend_def tx_commitments_def
      sample_output_def tx_id_of_def sample_codec_def sample_ext_def sample_hash_def)
  have checked: "block_checked sample_node 0 ?b ?en"
    by (rule block_checked_proven) simp
  have "map_of (mp_txs (en_pool (execute_and_apply_block sample_node 0 ?b ?en))) (tx_id_of (nd_ext sample_node) rival_tx) =
      Some rival_tx \<and>
    (\<exists>e. fst (apply_block (nd_ext sample_node) (nd_sled sample_node) (sample_block 1 [rival_tx]) [] []
        (en_store (execute_and_apply_block sample_node 0 ?b ?en))) = Inl e)"
    by (rule mined_conflict_stays_pooled [where L = empty_ledger and nf = "replicate 32 1", OF _ _ _ checked _ _ _ _ _ _ _ refl])
      (simp_all add: mem.sled_db_axioms empty_represents block_commitments_def spendable_def block_nullifiers_def rival)
  then show ?thesis
    by (simp add: rival)
qed

end
