(* ===== verification/Engine_Rounds.thy ===== *)
theory Engine_Rounds
  imports Engine_Blocks
begin

text \<open>
  The rounds of the engine: the invariant that ties its round variables to the BFT round of
  theory Bft and to valid votes, the only way out of a height, the votes that suffice to get
  there, and the block download.
\<close>

section \<open>The invariant of the event loop\<close>

text \<open>A download is under way exactly if there is a current request.\<close>

definition sync_ok :: "sync_manager \<Rightarrow> bool" where
  "sync_ok m \<longleftrightarrow> (sm_is_syncing m \<longleftrightarrow> sm_current_request m \<noteq> None)"

lemma sync_ok_new: "sync_ok sync_manager_new"
  by (simp add: sync_ok_def sync_manager_new_def)

lemma sync_ok_check: "sync_ok m \<Longrightarrow> sync_ok (snd (check_sync_status h m))"
  by (simp add: sync_ok_def check_sync_status_def Let_def)

lemma sync_ok_peer: "sync_ok m \<Longrightarrow> sync_ok (snd (handle_peer_height p ph h m))"
  by (simp add: sync_ok_def handle_peer_height_def start_sync_def Let_def)

text \<open>
  The BFT state is one the votes delivered in this round lead to; each of those votes passed the
  signature check or is the node's own.
\<close>

definition votes_vouched :: "'db node_env \<Rightarrow> round_vars \<times> 'db engine \<Rightarrow> vote list \<Rightarrow> bool" where
  "votes_vouched E = (\<lambda>(rv, en) votes.
     bft_reach (rv_height rv) (rv_round rv) (rv_total_validators rv) votes (rv_bft rv) \<and>
     (\<forall>v \<in> set votes. vote_is_valid E (rv_val_set rv) v \<or>
        vote_validator_id v = en_local_id en \<and> en_secret_key en \<noteq> None))"

definition round_inv :: "'db node_env \<Rightarrow> round_vars \<times> 'db engine \<Rightarrow> bool" where
  "round_inv E = (\<lambda>(rv, en).
     (\<exists>votes. votes_vouched E (rv, en) votes) \<and>
     (\<forall>b. rv_current_block rv = Some b \<longrightarrow> bh_height (blk_header b) = rv_height rv) \<and>
     sync_ok (en_sync en) \<and>
     rv_total_validators rv = (if vset_is_empty (rv_val_set rv) then 4 else vset_len (rv_val_set rv)) \<and>
     rv_epoch rv = rv_height rv div EPOCH_BLOCKS)"

lemmas reach_vote = bft_reach.Step [OF _ bft_step.Vote]
lemmas reach_advance = bft_reach.Step [OF _ bft_step.Advance]

lemma vouched_advance:
  "votes_vouched E (rv, en) votes \<Longrightarrow>
   votes_vouched E (rv\<lparr>rv_bft := snd (try_advance_phase h (rv_bft rv))\<rparr>, en) votes"
  by (auto simp: votes_vouched_def intro: reach_advance)

lemma vouched_vote:
  assumes "votes_vouched E (rv, en) votes"
    and "vote_is_valid E (rv_val_set rv) v \<or> vote_validator_id v = en_local_id en \<and> en_secret_key en \<noteq> None"
  shows "votes_vouched E (rv\<lparr>rv_bft := snd (add_vote v (rv_bft rv))\<rparr>, en) (votes @ [v])"
  using assms by (auto simp: votes_vouched_def intro: reach_vote)

lemma vouched_engine:
  "en_local_id en' = en_local_id en \<Longrightarrow> en_secret_key en' = en_secret_key en \<Longrightarrow>
   votes_vouched E (rv, en') votes = votes_vouched E (rv, en) votes"
  by (simp add: votes_vouched_def)

lemma vouched_cast:
  assumes "votes_vouched E (rv, en) votes"
  shows "\<exists>votes'. votes_vouched E (cast_vote E h k (rv, en)) votes'"
proof (cases "en_secret_key en")
  case None
  then show ?thesis
    using assms by (auto simp: cast_vote_def)
next
  case (Some sk)
  let ?v = "\<lparr>vote_height = rv_height rv, vote_round = rv_round rv, vote_block_hash = h, vote_kind = k,
    vote_validator_id = en_local_id en, vote_signature = bls_sign (nd_crypto E) sk h\<rparr>"
  have "votes_vouched E (cast_vote E h k (rv, en)) (votes @ [?v])"
    using vouched_vote [OF assms, of ?v] vouched_engine [of "send_command c en" en for c] Some
    by (simp add: cast_vote_def Let_def)
  then show ?thesis ..
qed

lemma cast_vote_frame [simp]:
  "rv_round (fst (cast_vote E h k s)) = rv_round (fst s)"
  "rv_val_set (fst (cast_vote E h k s)) = rv_val_set (fst s)"
  "rv_epoch (fst (cast_vote E h k s)) = rv_epoch (fst s)"
  "rv_total_validators (fst (cast_vote E h k s)) = rv_total_validators (fst s)"
  "en_pool (snd (cast_vote E h k s)) = en_pool (snd s)"
  "en_local_id (snd (cast_vote E h k s)) = en_local_id (snd s)"
  by (simp_all add: cast_vote_def split_beta Let_def split: option.split)

text \<open>The invariant, up to the votes that vouch for the BFT state.\<close>

lemma round_inv_cast:
  assumes "round_inv E (rv, en)"
  shows "round_inv E (cast_vote E h k (rv, en))"
proof -
  obtain votes where "votes_vouched E (rv, en) votes"
    using assms by (auto simp: round_inv_def)
  from vouched_cast [OF this] assms show ?thesis
    by (simp add: round_inv_def split_beta)
qed

lemma round_inv_bft:
  assumes "round_inv E (rv, en)" "votes_vouched E (rv\<lparr>rv_bft := s\<rparr>, en) votes"
  shows "round_inv E (rv\<lparr>rv_bft := s\<rparr>, en)"
  using assms by (auto simp: round_inv_def)

lemma round_inv_engine:
  assumes "round_inv E (rv, en)" "en_local_id en' = en_local_id en" "en_secret_key en' = en_secret_key en"
    and "sync_ok (en_sync en')"
  shows "round_inv E (rv, en')"
  using assms vouched_engine [OF assms(2,3)] by (auto simp: round_inv_def)

lemma apply_synced_frame [simp]:
  "en_sync (apply_synced E now h bs en) = en_sync en"
  "en_local_id (apply_synced E now h bs en) = en_local_id en"
  "en_secret_key (apply_synced E now h bs en) = en_secret_key en"
  by (induction bs arbitrary: en) (simp_all add: apply_synced_def)

lemma round_inv_block:
  assumes "round_inv E (rv, en)"
  shows "round_inv E (handle_block E peer b (rv, en))"
proof -
  let ?hash = "header_hash (nd_ext E) (blk_header b)"
  obtain started sync' where hp: "handle_peer_height peer (bh_height (blk_header b)) (sat_sub (rv_height rv) 1) (en_sync en) = (started, sync')"
    by fastforce
  have ok: "sync_ok sync'"
    using sync_ok_peer [of "en_sync en" peer "bh_height (blk_header b)" "sat_sub (rv_height rv) 1"] assms hp
    by (simp add: round_inv_def)
  define en2 where "en2 = (case started of None \<Rightarrow> en\<lparr>en_sync := sync'\<rparr>
    | Some _ \<Rightarrow> (case sm_current_request sync' of None \<Rightarrow> en\<lparr>en_sync := sync'\<rparr>
      | Some (p, req) \<Rightarrow> send_command (SendSyncRequest p req) (en\<lparr>en_sync := sync'\<rparr>)))"
  have same: "en_local_id en2 = en_local_id en" "en_secret_key en2 = en_secret_key en" "en_sync en2 = sync'"
    by (simp_all add: en2_def split: option.split prod.split)
  have inv: "round_inv E (rv, en2)"
    using round_inv_engine [OF assms same(1,2)] ok same(3) by simp
  have "round_inv E (rv\<lparr>rv_current_block := Some b, rv_bft := snd (try_advance_phase ?hash (rv_bft rv))\<rparr>, en2)"
    if "bh_height (blk_header b) = rv_height rv"
  proof -
    obtain votes where "votes_vouched E (rv, en2) votes"
      using inv by (auto simp: round_inv_def)
    then have "votes_vouched E (rv\<lparr>rv_current_block := Some b, rv_bft := snd (try_advance_phase ?hash (rv_bft rv))\<rparr>, en2) votes"
      using vouched_advance [of E rv en2 votes ?hash] by (simp add: votes_vouched_def)
    with inv that show ?thesis
      by (auto simp: round_inv_def)
  qed
  moreover have "handle_block E peer b (rv, en) =
      (if bh_height (blk_header b) = rv_height rv \<and> \<not> sm_is_syncing sync'
       then cast_vote E ?hash Prevote (rv\<lparr>rv_current_block := Some b, rv_bft := snd (try_advance_phase ?hash (rv_bft rv))\<rparr>, en2)
       else (rv, en2))"
    by (simp add: handle_block_def hp Let_def en2_def)
  ultimately show ?thesis
    using inv by (simp add: round_inv_cast)
qed

lemma round_inv_vote:
  assumes "round_inv E (rv, en)" "handle_vote E now v (rv, en) = (ctl, rv', en')"
  shows "round_inv E (rv', en')"
proof -
  obtain votes where votes: "votes_vouched E (rv, en) votes"
    using assms(1) by (auto simp: round_inv_def)
  have upd: "round_inv E (rv\<lparr>rv_bft := s\<rparr>, en)"
    if "vote_is_valid E (rv_val_set rv) v"
      "s = snd (add_vote v (rv_bft rv)) \<or> s = snd (try_advance_phase h (snd (add_vote v (rv_bft rv))))" for s h
    using that(2)
  proof
    assume "s = snd (add_vote v (rv_bft rv))"
    then show ?thesis
      using round_inv_bft [OF assms(1) vouched_vote [OF votes]] that(1) by simp
  next
    assume "s = snd (try_advance_phase h (snd (add_vote v (rv_bft rv))))"
    then show ?thesis
      using round_inv_bft [OF assms(1)] vouched_advance [OF vouched_vote [OF votes], of v h] that(1) by simp
  qed
  show ?thesis
  proof (cases E now v rv en rule: handle_vote_cases)
    case ignored
    then show ?thesis using assms by simp
  next
    case known
    then show ?thesis using assms(2) upd by simp
  next
    case (counted s)
    then show ?thesis using assms(2) upd [OF counted(1) disjI2 [OF counted(2)]] by simp
  next
    case (precommit s)
    then show ?thesis
      using assms(2) round_inv_cast [OF upd [OF precommit(1) disjI2 [OF precommit(2)]]] by simp
  next
    case (commit s b)
    then have "round_inv E (rv\<lparr>rv_bft := s\<rparr>, en)"
      using upd [of s "vote_block_hash v"] by simp
    from round_inv_engine [OF this] commit assms show ?thesis
      by (simp add: round_inv_def)
  qed
qed

text \<open>What an answer to a sync request does while a download is under way.\<close>

lemma handle_sync_response_run:
  assumes "sm_is_syncing (en_sync en)" "handle_sync_response E now res (rv, en) = (ctl, rv', en')"
    and "ch = unwrap_or (get_chain_height (nd_sled E) (ss_db (en_store (apply_synced E now (rv_height rv) (sres_blocks res) en)))) 0"
  shows "rv' = rv" and "en_sync en' = snd (check_sync_status ch (en_sync en))"
    and "en_local_id en' = en_local_id en" and "en_secret_key en' = en_secret_key en"
    and "en_store en' = en_store (apply_synced E now (rv_height rv) (sres_blocks res) en)"
    and "ctl = Break \<longleftrightarrow> fst (check_sync_status ch (en_sync en)) \<and>
      sm_current_request (snd (check_sync_status ch (en_sync en))) = None"
proof -
  obtain syncing sync' where check: "check_sync_status ch (en_sync en) = (syncing, sync')" by fastforce
  note run = assms(1,2) check
  have "rv' = rv \<and> en_sync en' = sync' \<and> en_local_id en' = en_local_id en \<and> en_secret_key en' = en_secret_key en \<and>
      en_store en' = en_store (apply_synced E now (rv_height rv) (sres_blocks res) en) \<and>
      (ctl = Break \<longleftrightarrow> syncing \<and> sm_current_request sync' = None)"
    using run
    by (cases syncing; cases "sm_current_request sync'")
      (auto simp: handle_sync_response_def Let_def simp flip: assms(3))
  then show "rv' = rv" "en_sync en' = snd (check_sync_status ch (en_sync en))"
      "en_local_id en' = en_local_id en" "en_secret_key en' = en_secret_key en"
      "en_store en' = en_store (apply_synced E now (rv_height rv) (sres_blocks res) en)"
      "ctl = Break \<longleftrightarrow> fst (check_sync_status ch (en_sync en)) \<and>
        sm_current_request (snd (check_sync_status ch (en_sync en))) = None"
    by (simp_all add: check)
qed

lemma round_inv_sync:
  assumes "round_inv E (rv, en)" "handle_sync_response E now res (rv, en) = (ctl, rv', en')"
  shows "round_inv E (rv', en')"
proof (cases "sm_is_syncing (en_sync en)")
  case False
  then show ?thesis
    using assms by (simp add: handle_sync_response_def)
next
  case True
  note eff = handle_sync_response_run [OF True assms(2) refl]
  have "sync_ok (en_sync en')"
    using sync_ok_check assms(1) unfolding eff(2) by (simp add: round_inv_def)
  then show ?thesis
    using round_inv_engine [OF assms(1) eff(3,4)] eff(1) by simp
qed

lemma round_inv_timeout:
  assumes "round_inv E (rv, en)"
  shows "round_inv E (handle_timeout (rv, en))"
proof -
  obtain rv' en' where run: "handle_timeout (rv, en) = (rv', en')"
    by fastforce
  have rv': "rv' = rv\<lparr>rv_round := rv_round rv + 1,
      rv_bft := bft_round_new (rv_height rv) (rv_round rv + 1) (rv_total_validators rv)\<rparr>"
    and en': "en_local_id en' = en_local_id en" "en_secret_key en' = en_secret_key en" "en_sync en' = en_sync en"
    using run by (auto simp: handle_timeout_def Let_def)
  have "votes_vouched E (rv', en) []"
    by (simp add: votes_vouched_def rv' bft_reach.New)
  then have "round_inv E (rv', en)"
    using assms by (auto simp: round_inv_def rv')
  then show ?thesis
    using round_inv_engine [OF _ en'(1,2)] en'(3) by (simp add: round_inv_def run)
qed

lemma round_inv_turn:
  assumes "round_inv E (rv, en)" "engine_turn E now ev (rv, en) = Some (ctl, rv', en')"
  shows "round_inv E (rv', en')"
proof (cases ev)
  case (BlockArrived peer b)
  then show ?thesis
    using assms(2) round_inv_block [OF assms(1), of peer b] by (simp add: engine_turn_def)
next
  case (VoteArrived v)
  then show ?thesis
    using assms(2) by (auto simp: engine_turn_def intro: round_inv_vote [OF assms(1)])
next
  case (SyncRequested peer req ch)
  then show ?thesis
    using assms round_inv_engine [OF assms(1), of "send_command c en" for c]
    by (auto simp: engine_turn_def handle_sync_request_def Let_def round_inv_def)
next
  case (SyncAnswered peer res)
  then show ?thesis
    using assms(2) by (auto simp: engine_turn_def intro: round_inv_sync [OF assms(1)])
next
  case RoundTimeout
  then show ?thesis
    using assms(2) round_inv_timeout [OF assms(1)] by (simp add: engine_turn_def)
qed

lemma propose_frame:
  "propose E now h en = Some en' \<Longrightarrow>
   en_sync en' = en_sync en \<and> en_local_id en' = en_local_id en \<and> en_secret_key en' = en_secret_key en"
  by (auto simp: propose_def Let_def split: option.splits)

lemma round_inv_begin:
  assumes "begin_height E now en = Some (rv, en')" "sync_ok (en_sync en)"
  shows "round_inv E (rv, en')"
proof -
  have "en_sync en' = snd (check_sync_status (sat_sub (rv_height rv) 1) (en_sync en))"
    using assms(1) by (auto simp: begin_height_def Let_def split_beta dest!: propose_frame split: if_splits)
  then have ok: "sync_ok (en_sync en')"
    using sync_ok_check [OF assms(2)] by simp
  have rv: "rv_round rv = 0" "rv_bft rv = bft_round_new (rv_height rv) 0 (rv_total_validators rv)"
      "rv_current_block rv = None"
      "rv_total_validators rv = (if vset_is_empty (rv_val_set rv) then 4 else vset_len (rv_val_set rv))"
      "rv_epoch rv = rv_height rv div EPOCH_BLOCKS"
    using assms(1) by (auto simp: begin_height_def Let_def split: prod.splits if_splits)
  have "votes_vouched E (rv, en') []"
    by (simp add: votes_vouched_def rv(1,2) bft_reach.New)
  then show ?thesis
    using ok rv(3-5) by (auto simp: round_inv_def)
qed

lemma round_inv_reach:
  assumes "engine_reach E en0 s" "sync_ok (en_sync en0)"
  shows "round_inv E s"
  using assms(1)
proof (induction rule: engine_reach.induct)
  case (Start now s)
  then show ?case
    using round_inv_begin [OF _ assms(2)] by (cases s) simp
next
  case (Event s now ev s')
  obtain rv en ctl rv1 en1 where turn: "s = (rv, en)" "engine_turn E now ev (rv, en) = Some (ctl, rv1, en1)"
    using Event.hyps(2) by (cases s) (auto simp: engine_run_step_def split: option.splits)
  have inv: "round_inv E (rv1, en1)"
    using round_inv_turn [OF _ turn(2)] Event.IH turn(1) by simp
  show ?case
  proof (cases ctl)
    case Continue
    then show ?thesis
      using Event.hyps(2) turn inv by (simp add: engine_run_step_def)
  next
    case Break
    then have "begin_height E now en1 = Some s'"
      using Event.hyps(2) turn by (simp add: engine_run_step_def)
    then show ?thesis
      using round_inv_begin [of E now en1 "fst s'" "snd s'"] inv by (simp add: round_inv_def)
  qed
qed

text \<open>
  C9: in every state the engine can be in, the round variables are consistent: the vote tables are
  the result of the votes of this height and round that passed the signature check or are the
  node's own, a held proposal is for this height, the validator count is the set's (4 on an
  empty set), and a download is flagged exactly while a request is outstanding.
\<close>

theorem engine_round_invariant:
  assumes "engine_reach E en0 s" "sync_ok (en_sync en0)"
  shows "round_inv E s"
  by (rule round_inv_reach [OF assms])

section \<open>Leaving a height\<close>

text \<open>The validators with a vouched precommit for a hash, in the round the variables describe.\<close>

definition vouched_precommits :: "'db node_env \<Rightarrow> round_vars \<times> 'db engine \<Rightarrow> vote list \<Rightarrow> hash32 \<Rightarrow> bytes set" where
  "vouched_precommits E = (\<lambda>(rv, en) votes hash. {vote_validator_id v |v. v \<in> set votes \<and>
     vote_height v = rv_height rv \<and> vote_round v = rv_round rv \<and> vote_kind v = Precommit \<and>
     vote_block_hash v = hash \<and>
     (vote_is_valid E (rv_val_set rv) v \<or> vote_validator_id v = en_local_id en)})"

lemma advance_to_commit:
  "try_advance_phase h s = (Some Bft_Commit, s') \<Longrightarrow>
   has_quorum_precommit s h \<and> brs_phase s = Bft_Precommit"
  by (auto simp: try_advance_phase_def split: if_splits)

lemma sync_answer_continues:
  assumes "sync_ok (en_sync en)" "handle_sync_response E now res (rv, en) = (ctl, rv', en')"
  shows "ctl = Continue \<and> rv' = rv"
proof (cases "sm_is_syncing (en_sync en)")
  case False
  then show ?thesis
    using assms(2) by (simp add: handle_sync_response_def)
next
  case True
  note run = handle_sync_response_run [OF True assms(2) refl]
  have "sync_ok (snd (check_sync_status h (en_sync en)))" for h
    by (rule sync_ok_check [OF assms(1)])
  then have "fst (check_sync_status h (en_sync en)) \<longleftrightarrow>
      sm_current_request (snd (check_sync_status h (en_sync en))) \<noteq> None" for h
    by (simp add: sync_ok_def check_sync_status_def Let_def)
  with run(1,6) show ?thesis
    by (cases ctl) auto
qed

lemma commit_step:
  assumes inv: "round_inv E (rv, en)" and turn: "engine_turn E now ev (rv, en) = Some (Break, rv', en')"
  obtains v b votes where "ev = VoteArrived v" "rv_current_block rv = Some b"
    "en' = execute_and_apply_block E now b en" "votes_vouched E (rv, en) votes"
    "3 * card (vouched_precommits E (rv, en) (votes @ [v]) (vote_block_hash v)) > 2 * rv_total_validators rv"
proof -
  have "\<exists>v. ev = VoteArrived v"
  proof (cases ev)
    case (SyncAnswered peer res)
    then have "handle_sync_response E now res (rv, en) = (Break, rv', en')"
      using turn by (simp add: engine_turn_def)
    then show ?thesis
      using sync_answer_continues [of en E now res rv Break rv' en'] inv by (simp add: round_inv_def)
  qed (use turn in \<open>auto simp: engine_turn_def\<close>)
  then obtain v where v: "ev = VoteArrived v" "handle_vote E now v (rv, en) = (Break, rv', en')"
    using turn by (auto simp: engine_turn_def)
  show ?thesis
  proof (cases E now v rv en rule: handle_vote_cases)
    case (commit s b)
    obtain votes where votes: "votes_vouched E (rv, en) votes"
      using inv by (auto simp: round_inv_def)
    let ?s = "snd (add_vote v (rv_bft rv))"
    have vouched: "votes_vouched E (rv\<lparr>rv_bft := ?s\<rparr>, en) (votes @ [v])"
      by (rule vouched_vote [OF votes disjI1 [OF commit(1)]])
    then have reach: "bft_reach (rv_height rv) (rv_round rv) (rv_total_validators rv) (votes @ [v]) ?s"
      by (simp add: votes_vouched_def)
    have "3 * card (voters (brs_precommits ?s) (vote_block_hash v)) > 2 * rv_total_validators rv"
      using quorum_precommit_voters [of ?s] advance_to_commit [OF commit(2)] bft_reach_tables [OF reach] by simp
    moreover have "voters (brs_precommits ?s) (vote_block_hash v) =
        vouched_precommits E (rv, en) (votes @ [v]) (vote_block_hash v)"
      using bft_reach_tables [OF reach] vouched
      by (auto simp: voted_def vouched_precommits_def votes_vouched_def)
    ultimately show ?thesis
      using commit v votes by (intro that [of v b votes]) auto
  next
    case (precommit s)
    then show ?thesis using v by simp
  qed (use v in simp_all)
qed

text \<open>
  C6: the engine leaves a height in one way only: a valid vote arrives that makes the distinct
  validators with a precommit for its hash, in this height and round, more than two thirds of
  all, every one of those precommits being correctly signed (or the node's own, or unsigned when
  there are no validators). What is then executed is the block that arrived last at this
  height, whatever its hash: the voted hash is not compared with it.
\<close>

theorem height_left_by_precommit_quorum:
  assumes "engine_reach E en0 (rv, en)" "sync_ok (en_sync en0)"
    and "engine_turn E now ev (rv, en) = Some (Break, rv', en')"
  shows "\<exists>v b votes. ev = VoteArrived v \<and> rv_current_block rv = Some b \<and>
    bh_height (blk_header b) = rv_height rv \<and> en' = execute_and_apply_block E now b en \<and>
    votes_vouched E (rv, en) votes \<and>
    3 * card (vouched_precommits E (rv, en) (votes @ [v]) (vote_block_hash v)) > 2 * rv_total_validators rv"
proof -
  have inv: "round_inv E (rv, en)"
    by (rule round_inv_reach [OF assms(1,2)])
  show ?thesis
    by (rule commit_step [OF inv assms(3)]) (use inv in \<open>auto simp: round_inv_def\<close>)
qed

section \<open>The block download\<close>

text \<open>
  A finished download does not bring the engine to the new height. Whatever a sync answer
  contains, the event loop goes on with the round variables it had, also when the target has
  been reached and the node stops syncing; and while it stays there, a block of any height but
  the old one is neither stored as the proposal nor voted for.
\<close>

theorem sync_keeps_old_height:
  assumes "engine_reach E en0 (rv, en)" "sync_ok (en_sync en0)"
    and "engine_turn E now (SyncAnswered peer res) (rv, en) = Some (ctl, rv', en')"
  shows "ctl = Continue \<and> rv' = rv \<and>
    (sm_is_syncing (en_sync en) \<and>
       unwrap_or (get_chain_height (nd_sled E) (ss_db (en_store en'))) 0 \<ge> sm_target_height (en_sync en) \<longrightarrow>
     \<not> sm_is_syncing (en_sync en')) \<and>
    (\<forall>p b. bh_height (blk_header b) \<noteq> rv_height rv \<longrightarrow> fst (handle_block E p b (rv', en')) = rv)"
proof -
  have run: "handle_sync_response E now res (rv, en) = (ctl, rv', en')"
    using assms(3) by (simp add: engine_turn_def)
  have ctl: "ctl = Continue \<and> rv' = rv"
    using sync_answer_continues [OF _ run] round_inv_reach [OF assms(1,2)] by (simp add: round_inv_def)
  moreover have "\<not> sm_is_syncing (en_sync en')"
    if "sm_is_syncing (en_sync en)" "unwrap_or (get_chain_height (nd_sled E) (ss_db (en_store en'))) 0 \<ge> sm_target_height (en_sync en)"
    using handle_sync_response_run(2,5) [OF that(1) run refl] that
    by (simp add: check_sync_status_def Let_def)
  moreover have "fst (handle_block E p b (rv, en')) = rv" if "bh_height (blk_header b) \<noteq> rv_height rv" for p b
    using that by (simp add: handle_block_def Let_def split: prod.split)
  ultimately show ?thesis
    by simp
qed

section \<open>Votes that suffice\<close>

text \<open>Votes delivered one after the other, until the loop breaks.\<close>

fun deliver_votes ::
  "'db node_env \<Rightarrow> u64 \<Rightarrow> vote list \<Rightarrow> round_vars \<times> 'db engine \<Rightarrow> loop_control \<times> round_vars \<times> 'db engine" where
  "deliver_votes E now [] s = (Continue, s)"
| "deliver_votes E now (v # vs) s =
     (case handle_vote E now v s of (Break, s') \<Rightarrow> (Break, s') | (Continue, s') \<Rightarrow> deliver_votes E now vs s')"

lemma has_quorum_voters:
  "has_quorum_prevote s h \<longleftrightarrow> 3 * card (voters (brs_prevotes s) h) > 2 * brs_total_validators s"
  "has_quorum_precommit s h \<longleftrightarrow> 3 * card (voters (brs_precommits s) h) > 2 * brs_total_validators s"
  by (auto simp: has_quorum_prevote_def has_quorum_precommit_def voters_def fcard.rep_eq mult.commute
      split: option.splits)

lemma add_vote_new:
  "fst (add_vote v s) \<longleftrightarrow> vote_height v = brs_height s \<and> vote_round v = brs_round s \<and>
     vote_validator_id v \<notin> voters (case vote_kind v of Prevote \<Rightarrow> brs_prevotes s | Precommit \<Rightarrow> brs_precommits s)
       (vote_block_hash v)"
  by (auto simp: add_vote_def record_voter_def voters_def Let_def split: vote_type.split option.split)

text \<open>What the rest of a delivery relies on: the fixed part of the round, and the tables for one hash.\<close>

definition round_at :: "'db engine \<Rightarrow> round_vars \<Rightarrow> block \<Rightarrow> round_vars \<times> 'db engine \<Rightarrow> bool" where
  "round_at en0 rv0 b = (\<lambda>(rv, en).
     rv_height rv = rv_height rv0 \<and> rv_round rv = rv_round rv0 \<and> rv_val_set rv = rv_val_set rv0 \<and>
     rv_current_block rv = Some b \<and> brs_height (rv_bft rv) = rv_height rv0 \<and>
     brs_round (rv_bft rv) = rv_round rv0 \<and> brs_total_validators (rv_bft rv) = rv_total_validators rv0 \<and>
     en_local_id en = en_local_id en0 \<and> en_store en = en_store en0 \<and> en_pool en = en_pool en0)"

definition broke_with :: "'db node_env \<Rightarrow> u64 \<Rightarrow> 'db engine \<Rightarrow> block \<Rightarrow> loop_control \<times> round_vars \<times> 'db engine \<Rightarrow> bool" where
  "broke_with E now en0 b = (\<lambda>(ctl, rv, en). ctl = Break \<and>
     (\<exists>en1. en = execute_and_apply_block E now b en1 \<and> en_store en1 = en_store en0 \<and> en_pool en1 = en_pool en0))"

lemma cast_vote_bft:
  "brs_phase (rv_bft (fst (cast_vote E h k (rv, en)))) = brs_phase (rv_bft rv)"
  "brs_height (rv_bft (fst (cast_vote E h k (rv, en)))) = brs_height (rv_bft rv)"
  "brs_round (rv_bft (fst (cast_vote E h k (rv, en)))) = brs_round (rv_bft rv)"
  "brs_total_validators (rv_bft (fst (cast_vote E h k (rv, en)))) = brs_total_validators (rv_bft rv)"
  "voters (brs_prevotes (rv_bft (fst (cast_vote E h Precommit (rv, en))))) h' = voters (brs_prevotes (rv_bft rv)) h'"
  "voters (brs_precommits (rv_bft (fst (cast_vote E h k (rv, en))))) h' \<subseteq>
     insert (en_local_id en) (voters (brs_precommits (rv_bft rv)) h')"
  by (auto simp: cast_vote_def Let_def frame_simps add_vote_voters split: option.splits if_splits)

lemma round_at_cast: "round_at en0 rv0 b (rv, en) \<Longrightarrow> round_at en0 rv0 b (cast_vote E h k (rv, en))"
  by (simp add: round_at_def split_beta cast_vote_bft)

text \<open>A new valid prevote, delivered while the quorum is awaited or has been seen.\<close>

lemma advance_while_voting:
  assumes "brs_phase t \<in> {Bft_Prevote, Bft_Precommit}"
  obtains (stay) "try_advance_phase h t = (None, t)" "brs_phase t = Bft_Prevote \<longrightarrow> \<not> has_quorum_prevote t h"
  | (pre) "try_advance_phase h t = (Some Bft_Precommit, t\<lparr>brs_phase := Bft_Precommit\<rparr>)"
  | (com) "try_advance_phase h t = (Some Bft_Commit, t\<lparr>brs_phase := Bft_Commit\<rparr>)"
  using assms
  by (cases "has_quorum_prevote t h"; cases "has_quorum_precommit t h") (auto simp: try_advance_phase_def)

lemma deliver_prevote:
  assumes at: "round_at en0 rv0 b (rv, en)"
    and phase: "brs_phase (rv_bft rv) \<in> {Bft_Prevote, Bft_Precommit}"
    and v: "vote_height v = rv_height rv0" "vote_round v = rv_round rv0" "vote_kind v = Prevote"
      "vote_block_hash v = h" "vote_is_valid E (rv_val_set rv0) v"
    and new: "vote_validator_id v \<notin> voters (brs_prevotes (rv_bft rv)) h"
  obtains (broke) "broke_with E now en0 b (handle_vote E now v (rv, en))"
  | (went_on) rv' en' where "handle_vote E now v (rv, en) = (Continue, rv', en')" "round_at en0 rv0 b (rv', en')"
    "voters (brs_prevotes (rv_bft rv')) h = insert (vote_validator_id v) (voters (brs_prevotes (rv_bft rv)) h)"
    "voters (brs_precommits (rv_bft rv')) h \<subseteq> insert (en_local_id en0) (voters (brs_precommits (rv_bft rv)) h)"
    "brs_phase (rv_bft rv') = Bft_Precommit \<or> brs_phase (rv_bft rv) = Bft_Prevote \<and> brs_phase (rv_bft rv') = Bft_Prevote \<and>
       \<not> 3 * card (insert (vote_validator_id v) (voters (brs_prevotes (rv_bft rv)) h)) > 2 * rv_total_validators rv0"
proof -
  have "fst (add_vote v (rv_bft rv))"
    using at v new by (simp add: add_vote_new round_at_def)
  then obtain t where add: "add_vote v (rv_bft rv) = (True, t)"
    by (cases "add_vote v (rv_bft rv)") auto
  then have t: "t = snd (add_vote v (rv_bft rv))"
    by simp
  have s: "voters (brs_prevotes t) h = insert (vote_validator_id v) (voters (brs_prevotes (rv_bft rv)) h)"
      "voters (brs_precommits t) h' = voters (brs_precommits (rv_bft rv)) h'" for h'
    unfolding t using at v by (auto simp: add_vote_voters round_at_def)
  have at_s: "round_at en0 rv0 b (rv\<lparr>rv_bft := u\<rparr>, en)"
    if "brs_height u = brs_height t" "brs_round u = brs_round t" "brs_total_validators u = brs_total_validators t" for u
    using at that unfolding t by (simp add: round_at_def frame_simps)
  have total: "brs_total_validators t = rv_total_validators rv0" and phase_s: "brs_phase t = brs_phase (rv_bft rv)"
    using at unfolding t by (simp_all add: round_at_def frame_simps)
  have match: "vote_height v = rv_height rv" "vote_round v = rv_round rv" "vote_is_valid E (rv_val_set rv) v"
      "rv_current_block rv = Some b"
    using at v by (simp_all add: round_at_def)
  have "brs_phase t \<in> {Bft_Prevote, Bft_Precommit}"
    using phase phase_s by simp
  then show ?thesis
  proof (cases rule: advance_while_voting [of t h])
    case stay
    have "handle_vote E now v (rv, en) = (Continue, rv\<lparr>rv_bft := t\<rparr>, en)"
      using match v(4) add stay(1) by (simp add: handle_vote_def)
    then show ?thesis
      using at_s [of t] s stay(2) phase phase_s total by (intro went_on) (auto simp: has_quorum_voters)
  next
    case pre
    let ?rv = "rv\<lparr>rv_bft := t\<lparr>brs_phase := Bft_Precommit\<rparr>\<rparr>"
    have run: "handle_vote E now v (rv, en) = (Continue, cast_vote E h Precommit (?rv, en))"
      using match v(4) add pre by (simp add: handle_vote_def)
    have "en_local_id en = en_local_id en0"
      using at by (simp add: round_at_def)
    then show ?thesis
      using run round_at_cast [OF at_s, of "t\<lparr>brs_phase := Bft_Precommit\<rparr>" E h Precommit] s
        cast_vote_bft(1,5,6) [where rv = ?rv and en = en and E = E and h = h]
      by (intro went_on [of "fst (cast_vote E h Precommit (?rv, en))" "snd (cast_vote E h Precommit (?rv, en))"]) auto
  next
    case com
    then show ?thesis
      using match v(4) add at by (intro broke) (auto simp: handle_vote_def broke_with_def round_at_def)
  qed
qed

text \<open>A new valid precommit, delivered in the precommit phase.\<close>

lemma deliver_precommit:
  assumes at: "round_at en0 rv0 b (rv, en)" and phase: "brs_phase (rv_bft rv) = Bft_Precommit"
    and v: "vote_height v = rv_height rv0" "vote_round v = rv_round rv0" "vote_kind v = Precommit"
      "vote_block_hash v = h" "vote_is_valid E (rv_val_set rv0) v"
    and new: "vote_validator_id v \<notin> voters (brs_precommits (rv_bft rv)) h"
  obtains (broke) "broke_with E now en0 b (handle_vote E now v (rv, en))"
  | (went_on) rv' where "handle_vote E now v (rv, en) = (Continue, rv', en)" "round_at en0 rv0 b (rv', en)"
    "brs_phase (rv_bft rv') = Bft_Precommit"
    "voters (brs_precommits (rv_bft rv')) h = insert (vote_validator_id v) (voters (brs_precommits (rv_bft rv)) h)"
    "\<not> 3 * card (insert (vote_validator_id v) (voters (brs_precommits (rv_bft rv)) h)) > 2 * rv_total_validators rv0"
proof -
  have "fst (add_vote v (rv_bft rv))"
    using at v new by (simp add: add_vote_new round_at_def)
  then obtain t where add: "add_vote v (rv_bft rv) = (True, t)"
    by (cases "add_vote v (rv_bft rv)") auto
  then have t: "t = snd (add_vote v (rv_bft rv))"
    by simp
  have s: "voters (brs_precommits t) h = insert (vote_validator_id v) (voters (brs_precommits (rv_bft rv)) h)"
    unfolding t using at v by (auto simp: add_vote_voters round_at_def)
  have total: "brs_total_validators t = rv_total_validators rv0" and phase_s: "brs_phase t = Bft_Precommit"
    using at phase unfolding t by (simp_all add: round_at_def frame_simps)
  have at_t: "round_at en0 rv0 b (rv\<lparr>rv_bft := t\<rparr>, en)"
    using at unfolding t by (simp add: round_at_def frame_simps)
  have match: "vote_height v = rv_height rv" "vote_round v = rv_round rv" "vote_is_valid E (rv_val_set rv) v"
      "rv_current_block rv = Some b"
    using at v by (simp_all add: round_at_def)
  show ?thesis
  proof (cases "has_quorum_precommit t h")
    case True
    then have "try_advance_phase h t = (Some Bft_Commit, t\<lparr>brs_phase := Bft_Commit\<rparr>)"
      by (simp add: try_advance_phase_def phase_s)
    then show ?thesis
      using match v(4) add at by (intro broke) (auto simp: handle_vote_def broke_with_def round_at_def)
  next
    case False
    then have "try_advance_phase h t = (None, t)"
      by (simp add: try_advance_phase_def phase_s)
    then have "handle_vote E now v (rv, en) = (Continue, rv\<lparr>rv_bft := t\<rparr>, en)"
      using match v(4) add by (simp add: handle_vote_def)
    then show ?thesis
      using at s phase_s False total at_t
      by (intro went_on [of "rv\<lparr>rv_bft := t\<rparr>"]) (auto simp: has_quorum_voters)
  qed
qed

text \<open>Votes of one kind for one hash, by validators that are new to the round.\<close>

definition fresh_votes ::
  "'db node_env \<Rightarrow> round_vars \<Rightarrow> vote_type \<Rightarrow> hash32 \<Rightarrow> bytes set \<Rightarrow> vote list \<Rightarrow> bool" where
  "fresh_votes E rv kind h known vs \<longleftrightarrow> distinct (map vote_validator_id vs) \<and>
     (\<forall>v \<in> set vs. vote_height v = rv_height rv \<and> vote_round v = rv_round rv \<and> vote_kind v = kind \<and>
        vote_block_hash v = h \<and> vote_is_valid E (rv_val_set rv) v \<and> vote_validator_id v \<notin> known)"

lemma fresh_votes_Cons:
  assumes "fresh_votes E rv kind h known (v # vs)"
  shows "fresh_votes E rv kind h (insert (vote_validator_id v) known) vs"
proof -
  have "vote_validator_id v \<notin> vote_validator_id ` set vs"
    using assms by (simp add: fresh_votes_def)
  then have "vote_validator_id w \<noteq> vote_validator_id v" if "w \<in> set vs" for w
    using that by (metis imageI)
  with assms show ?thesis
    by (simp add: fresh_votes_def)
qed

lemma deliver_votes_append:
  "deliver_votes E now (vs @ ws) s =
     (case deliver_votes E now vs s of (Break, s') \<Rightarrow> (Break, s') | (Continue, s') \<Rightarrow> deliver_votes E now ws s')"
  by (induction vs arbitrary: s) (auto split: prod.split loop_control.split)

lemma broke_with_deliver:
  "broke_with E now en0 b (handle_vote E now v s) \<Longrightarrow> broke_with E now en0 b (deliver_votes E now (v # vs) s)"
  by (auto simp: broke_with_def split: prod.splits)

lemma finite_voters [simp]: "finite (voters m h)"
  by (simp add: voters_def split: option.split)

lemma deliver_prevotes:
  assumes "round_at en0 rv0 b (rv, en)" "brs_phase (rv_bft rv) \<in> {Bft_Prevote, Bft_Precommit}"
    and "fresh_votes E rv0 Prevote h (voters (brs_prevotes (rv_bft rv)) h) vs"
    and "brs_phase (rv_bft rv) = Bft_Prevote \<longrightarrow>
      vs \<noteq> [] \<and> 3 * (card (voters (brs_prevotes (rv_bft rv)) h) + length vs) > 2 * rv_total_validators rv0"
  shows "broke_with E now en0 b (deliver_votes E now vs (rv, en)) \<or>
    (\<exists>rv' en'. deliver_votes E now vs (rv, en) = (Continue, rv', en') \<and> round_at en0 rv0 b (rv', en') \<and>
       voters (brs_precommits (rv_bft rv')) h \<subseteq> insert (en_local_id en0) (voters (brs_precommits (rv_bft rv)) h) \<and>
       brs_phase (rv_bft rv') = Bft_Precommit)"
  using assms
proof (induction vs arbitrary: rv en)
  case Nil
  then show ?case by auto
next
  case (Cons v vs)
  let ?P = "voters (brs_prevotes (rv_bft rv)) h"
  have v: "vote_height v = rv_height rv0" "vote_round v = rv_round rv0" "vote_kind v = Prevote"
      "vote_block_hash v = h" "vote_is_valid E (rv_val_set rv0) v" "vote_validator_id v \<notin> ?P"
    using Cons.prems(3) by (simp_all add: fresh_votes_def)
  show ?case
  proof (rule deliver_prevote [OF Cons.prems(1,2) v, of now])
    assume "broke_with E now en0 b (handle_vote E now v (rv, en))"
    then show ?case
      using broke_with_deliver by blast
  next
    fix rv' en'
    assume run: "handle_vote E now v (rv, en) = (Continue, rv', en')" "round_at en0 rv0 b (rv', en')"
      and pre: "voters (brs_prevotes (rv_bft rv')) h = insert (vote_validator_id v) ?P"
      and com: "voters (brs_precommits (rv_bft rv')) h \<subseteq> insert (en_local_id en0) (voters (brs_precommits (rv_bft rv)) h)"
      and phase: "brs_phase (rv_bft rv') = Bft_Precommit \<or>
        brs_phase (rv_bft rv) = Bft_Prevote \<and> brs_phase (rv_bft rv') = Bft_Prevote \<and>
        \<not> 3 * card (insert (vote_validator_id v) ?P) > 2 * rv_total_validators rv0"
    have fresh: "fresh_votes E rv0 Prevote h (voters (brs_prevotes (rv_bft rv')) h) vs"
      unfolding pre by (rule fresh_votes_Cons [OF Cons.prems(3)])
    have card: "card (voters (brs_prevotes (rv_bft rv')) h) = Suc (card ?P)"
      using v(6) by (simp add: pre)
    have rest: "brs_phase (rv_bft rv') = Bft_Prevote \<longrightarrow>
        vs \<noteq> [] \<and> 3 * (card (voters (brs_prevotes (rv_bft rv')) h) + length vs) > 2 * rv_total_validators rv0"
      using phase Cons.prems(4) v(6) unfolding card by auto
    have "broke_with E now en0 b (deliver_votes E now vs (rv', en')) \<or>
      (\<exists>rv'' en''. deliver_votes E now vs (rv', en') = (Continue, rv'', en'') \<and> round_at en0 rv0 b (rv'', en'') \<and>
         voters (brs_precommits (rv_bft rv'')) h \<subseteq> insert (en_local_id en0) (voters (brs_precommits (rv_bft rv')) h) \<and>
         brs_phase (rv_bft rv'') = Bft_Precommit)"
      using phase by (intro Cons.IH [OF run(2) _ fresh rest]) auto
    with com run(1) show ?case
      by fastforce
  qed
qed

lemma deliver_precommits:
  assumes "round_at en0 rv0 b (rv, en)" "brs_phase (rv_bft rv) = Bft_Precommit"
    and "fresh_votes E rv0 Precommit h (voters (brs_precommits (rv_bft rv)) h) ws" "ws \<noteq> []"
    and "3 * (card (voters (brs_precommits (rv_bft rv)) h) + length ws) > 2 * rv_total_validators rv0"
  shows "broke_with E now en0 b (deliver_votes E now ws (rv, en))"
  using assms
proof (induction ws arbitrary: rv)
  case (Cons w ws)
  let ?P = "voters (brs_precommits (rv_bft rv)) h"
  have w: "vote_height w = rv_height rv0" "vote_round w = rv_round rv0" "vote_kind w = Precommit"
      "vote_block_hash w = h" "vote_is_valid E (rv_val_set rv0) w" "vote_validator_id w \<notin> ?P"
    using Cons.prems(3) by (simp_all add: fresh_votes_def)
  show ?case
  proof (rule deliver_precommit [OF Cons.prems(1,2) w, of now])
    assume "broke_with E now en0 b (handle_vote E now w (rv, en))"
    then show ?case
      by (rule broke_with_deliver)
  next
    fix rv'
    assume run: "handle_vote E now w (rv, en) = (Continue, rv', en)" "round_at en0 rv0 b (rv', en)"
        "brs_phase (rv_bft rv') = Bft_Precommit"
      and com: "voters (brs_precommits (rv_bft rv')) h = insert (vote_validator_id w) ?P"
        "\<not> 3 * card (insert (vote_validator_id w) ?P) > 2 * rv_total_validators rv0"
    have card: "card (voters (brs_precommits (rv_bft rv')) h) = Suc (card ?P)"
      using w(6) by (simp add: com(1))
    have "fresh_votes E rv0 Precommit h (voters (brs_precommits (rv_bft rv')) h) ws"
      unfolding com(1) by (rule fresh_votes_Cons [OF Cons.prems(3)])
    moreover have "ws \<noteq> []" "3 * (card (voters (brs_precommits (rv_bft rv')) h) + length ws) > 2 * rv_total_validators rv0"
      using Cons.prems(5) com(2) w(6) unfolding card by auto
    ultimately have "broke_with E now en0 b (deliver_votes E now ws (rv', en))"
      by (intro Cons.IH [OF run(2,3)])
    with run(1) show ?case
      by simp
  qed
qed simp

lemma votes_commit:
  assumes inv: "round_inv E (rv, en)" and b: "rv_current_block rv = Some b"
    and phase: "brs_phase (rv_bft rv) = Bft_Prevote"
    and vs: "fresh_votes E rv Prevote h (voters (brs_prevotes (rv_bft rv)) h) vs" "3 * length vs > 2 * rv_total_validators rv"
    and ws: "fresh_votes E rv Precommit h (insert (en_local_id en) (voters (brs_precommits (rv_bft rv)) h)) ws"
      "3 * length ws > 2 * rv_total_validators rv"
  shows "broke_with E now en b (deliver_votes E now (vs @ ws) (rv, en))"
proof -
  obtain votes where "bft_reach (rv_height rv) (rv_round rv) (rv_total_validators rv) votes (rv_bft rv)"
    using inv by (auto simp: round_inv_def votes_vouched_def)
  from bft_reach_tables [OF this] b have at: "round_at en rv b (rv, en)"
    by (simp add: round_at_def)
  have ne: "vs \<noteq> []" "ws \<noteq> []"
    using vs(2) ws(2) by auto
  consider "broke_with E now en b (deliver_votes E now vs (rv, en))"
    | rv' en' where "deliver_votes E now vs (rv, en) = (Continue, rv', en')" "round_at en rv b (rv', en')"
        "voters (brs_precommits (rv_bft rv')) h \<subseteq> insert (en_local_id en) (voters (brs_precommits (rv_bft rv)) h)"
        "brs_phase (rv_bft rv') = Bft_Precommit"
    using deliver_prevotes [OF at _ vs(1), of now] phase ne(1) vs(2) by fastforce
  then show ?thesis
  proof cases
    case 1
    then show ?thesis
      by (auto simp: deliver_votes_append broke_with_def split: prod.splits loop_control.splits)
  next
    case (2 rv' en')
    have "fresh_votes E rv Precommit h (voters (brs_precommits (rv_bft rv')) h) ws"
      using ws(1) 2(3) by (auto simp: fresh_votes_def)
    moreover have "en_store en = en_store en" by simp
    ultimately have "broke_with E now en b (deliver_votes E now ws (rv', en'))"
      using ws(2) by (intro deliver_precommits [OF 2(2,4) _ ne(2)]) auto
    then show ?thesis
      by (simp add: deliver_votes_append 2(1))
  qed
qed

text \<open>
  C7: a round can commit. In a state the engine can be in, with a proposal received and the
  prevote quorum still open, valid prevotes for one hash from other validators numbering more
  than two thirds, followed by as many valid precommits, make the engine leave the height and
  execute the proposal, in whatever order the validators vote within each kind.
\<close>

theorem quorum_votes_commit:
  assumes "engine_reach E en0 (rv, en)" "sync_ok (en_sync en0)" "rv_current_block rv = Some b"
    and "brs_phase (rv_bft rv) = Bft_Prevote"
    and "fresh_votes E rv Prevote h (voters (brs_prevotes (rv_bft rv)) h) vs" "3 * length vs > 2 * rv_total_validators rv"
    and "fresh_votes E rv Precommit h (insert (en_local_id en) (voters (brs_precommits (rv_bft rv)) h)) ws"
    and "3 * length ws > 2 * rv_total_validators rv"
  shows "\<exists>rv' en1. deliver_votes E now (vs @ ws) (rv, en) = (Break, rv', execute_and_apply_block E now b en1) \<and>
    en_store en1 = en_store en \<and> en_pool en1 = en_pool en"
  using votes_commit [OF round_inv_reach [OF assms(1,2)] assms(3-8), of now]
  by (auto simp: broke_with_def split: prod.splits)

text \<open>A signature covers the block hash alone, so a vote's kind can be changed by anyone.\<close>

definition as_precommit :: "vote \<Rightarrow> vote" where
  "as_precommit v = v\<lparr>vote_kind := Precommit\<rparr>"

lemma vote_is_valid_replayed: "vote_is_valid E vset (as_precommit v) = vote_is_valid E vset v"
  by (simp add: vote_is_valid_def as_precommit_def split: option.split sum.split)

text \<open>
  Prevotes can be replayed as precommits. Signatures cover neither height nor round nor the
  kind of a vote, so whoever holds the prevotes of two thirds of the validators turns them into
  precommits and makes the engine commit, though no validator has precommitted anything.
\<close>

theorem replayed_prevotes_commit:
  assumes "engine_reach E en0 (rv, en)" "sync_ok (en_sync en0)" "rv_current_block rv = Some b"
    and "brs_phase (rv_bft rv) = Bft_Prevote"
    and "fresh_votes E rv Prevote h
      (insert (en_local_id en) (voters (brs_prevotes (rv_bft rv)) h \<union> voters (brs_precommits (rv_bft rv)) h)) vs"
    and "3 * length vs > 2 * rv_total_validators rv"
  shows "\<exists>rv' en1. deliver_votes E now (vs @ map as_precommit vs) (rv, en) = (Break, rv', execute_and_apply_block E now b en1) \<and>
    en_store en1 = en_store en \<and> en_pool en1 = en_pool en"
proof -
  have "fresh_votes E rv Precommit h (insert (en_local_id en) (voters (brs_precommits (rv_bft rv)) h)) (map as_precommit vs)"
    using assms(5) vote_is_valid_replayed [of E "rv_val_set rv"]
    by (auto simp: fresh_votes_def as_precommit_def comp_def)
  moreover have "fresh_votes E rv Prevote h (voters (brs_prevotes (rv_bft rv)) h) vs"
    using assms(5) by (simp add: fresh_votes_def)
  ultimately show ?thesis
    using votes_commit [OF round_inv_reach [OF assms(1,2)] assms(3,4), of h vs "map as_precommit vs" now] assms(6)
    by (auto simp: broke_with_def split: prod.splits)
qed

section \<open>A concrete round\<close>

text \<open>A node without validators at height 1 that has just received a proposal.\<close>

definition observer :: "mem_db engine" where
  "observer = sample_engine (fresh_store mem_empty) mempool_new None"

definition first_round :: round_vars where
  "first_round = \<lparr>rv_height = 1, rv_epoch = 0, rv_round = 0, rv_val_set = validator_set_new 0 [],
     rv_total_validators = 4, rv_bft = bft_round_new 1 0 4, rv_current_block = None\<rparr>"

definition proposal_round :: round_vars where
  "proposal_round = first_round\<lparr>rv_current_block := Some (sample_block 1 []),
     rv_bft := (bft_round_new 1 0 4)\<lparr>brs_phase := Bft_Prevote\<rparr>\<rparr>"

definition proposal_engine :: "mem_db engine" where
  "proposal_engine = observer\<lparr>en_sync := sync_manager_new\<lparr>sm_active_peers := {[7]}\<rparr>\<rparr>"

lemma observer_simps [simp]:
  "en_store observer = fresh_store mem_empty" "en_sync observer = sync_manager_new"
  "en_secret_key observer = None" "en_is_validator observer = False"
  by (simp_all add: observer_def)

lemma observer_begins: "begin_height sample_node 0 observer = Some (first_round, observer)"
proof -
  have "is_leader en (validator_set_new epoch []) vrf e = en_is_validator en" for en :: "mem_db engine" and epoch vrf e
    by (simp add: is_leader_def vset_is_empty_def)
  moreover have "observer\<lparr>en_sync := sync_manager_new\<rparr> = observer"
    by (simp add: observer_def sample_engine_def engine_new_def)
  ultimately show ?thesis
    by (simp add: begin_height_def fresh_store_def mem.empty_store_height [OF no_data_mem] no_validators_mem
        vset_is_empty_def check_sync_status_def sync_manager_new_def EPOCH_BLOCKS_def first_round_def)
qed

lemma proposal_arrives:
  "engine_run_step sample_node 0 (BlockArrived [7] (sample_block 1 [])) (first_round, observer) =
     Some (proposal_round, proposal_engine)"
  by (simp add: engine_run_step_def engine_turn_def handle_block_def first_round_def handle_peer_height_def
      sync_manager_new_def sat_sub_def cast_vote_def proposal_engine_def
      proposal_round_def try_advance_phase_def bft_round_new_def Let_def)

lemma proposal_reach: "engine_reach sample_node observer (proposal_round, proposal_engine)"
  by (rule engine_reach.Event [OF engine_reach.Start [OF observer_begins] proposal_arrives])

definition ballots :: "vote_type \<Rightarrow> vote list" where
  "ballots kind = map (\<lambda>i. \<lparr>vote_height = 1, vote_round = 0, vote_block_hash = [9], vote_kind = kind,
     vote_validator_id = [i], vote_signature = []\<rparr>) [1, 2, 3]"

lemma ballots_fresh: "known \<inter> {[1], [2], [3]} = {} \<Longrightarrow> fresh_votes sample_node proposal_round kind [9] known (ballots kind)"
  by (auto simp: fresh_votes_def ballots_def proposal_round_def first_round_def vote_is_valid_def
      get_by_id_def vset_is_empty_def)

lemma proposal_facts:
  "rv_current_block proposal_round = Some (sample_block 1 [])" "brs_phase (rv_bft proposal_round) = Bft_Prevote"
  "rv_total_validators proposal_round = 4" "length (ballots kind) = 3"
  "voters (brs_prevotes (rv_bft proposal_round)) h = {}" "voters (brs_precommits (rv_bft proposal_round)) h = {}"
  "en_local_id proposal_engine = replicate 32 0"
  by (simp_all add: proposal_round_def first_round_def ballots_def bft_round_new_def voters_def
      proposal_engine_def observer_def sample_engine_def engine_new_def)

lemma singleton_id [simp]: "[i] \<noteq> replicate 32 x" "replicate 32 x \<noteq> [i]"
  by (metis length_replicate length_Cons list.size(3) numeral_eq_one_iff semiring_norm(83) One_nat_def)+

theorem quorum_votes_commit_witness:
  "fst (deliver_votes sample_node 0 (ballots Prevote @ ballots Precommit) (proposal_round, proposal_engine)) = Break"
proof -
  have "\<exists>rv' en1. deliver_votes sample_node 0 (ballots Prevote @ ballots Precommit) (proposal_round, proposal_engine) =
      (Break, rv', execute_and_apply_block sample_node 0 (sample_block 1 []) en1) \<and>
    en_store en1 = en_store proposal_engine \<and> en_pool en1 = en_pool proposal_engine"
    by (rule quorum_votes_commit [OF proposal_reach _ proposal_facts(1,2) ballots_fresh _ ballots_fresh])
      (simp_all add: sync_ok_new proposal_facts)
  then show ?thesis by auto
qed

theorem replayed_prevotes_commit_witness:
  "fst (deliver_votes sample_node 0 (ballots Prevote @ map as_precommit (ballots Prevote)) (proposal_round, proposal_engine)) = Break"
proof -
  have "\<exists>rv' en1. deliver_votes sample_node 0 (ballots Prevote @ map as_precommit (ballots Prevote))
      (proposal_round, proposal_engine) =
      (Break, rv', execute_and_apply_block sample_node 0 (sample_block 1 []) en1) \<and>
    en_store en1 = en_store proposal_engine \<and> en_pool en1 = en_pool proposal_engine"
    by (rule replayed_prevotes_commit [OF proposal_reach _ proposal_facts(1,2) ballots_fresh])
      (simp_all add: sync_ok_new proposal_facts)
  then show ?thesis by auto
qed

theorem sync_keeps_old_height_witness:
  "fst (the (engine_turn sample_node 0 (SyncAnswered [1] \<lparr>sres_blocks = []\<rparr>) (proposal_round, proposal_engine))) = Continue"
proof -
  obtain ctl rv en where turn: "engine_turn sample_node 0 (SyncAnswered [1] \<lparr>sres_blocks = []\<rparr>) (proposal_round, proposal_engine) =
      Some (ctl, rv, en)"
    by (cases "handle_sync_response sample_node 0 \<lparr>sres_blocks = []\<rparr> (proposal_round, proposal_engine)")
      (simp add: engine_turn_def)
  have "ctl = Continue"
    using sync_keeps_old_height [OF proposal_reach _ turn] by (simp add: sync_ok_new)
  then show ?thesis
    by (simp add: turn)
qed

text \<open>Where a delivery breaks.\<close>

lemma deliver_votes_break:
  "deliver_votes E now vs s = (Break, s') \<Longrightarrow> engine_reach E en0 s \<Longrightarrow>
   \<exists>v s1. engine_reach E en0 s1 \<and> engine_turn E now (VoteArrived v) s1 = Some (Break, s')"
proof (induction vs arbitrary: s)
  case (Cons v vs)
  obtain ctl s1 where run: "handle_vote E now v s = (ctl, s1)"
    by (cases "handle_vote E now v s") auto
  then have turn: "engine_turn E now (VoteArrived v) s = Some (ctl, s1)"
    by (cases s) (simp add: engine_turn_def)
  show ?case
  proof (cases ctl)
    case Break
    then have "s1 = s'"
      using Cons.prems(1) run by simp
    then show ?thesis
      using Cons.prems(2) turn Break by blast
  next
    case Continue
    then have "engine_run_step E now (VoteArrived v) s = Some s1"
      by (simp add: engine_run_step_def turn)
    then have "engine_reach E en0 s1"
      by (rule engine_reach.Event [OF Cons.prems(2)])
    then show ?thesis
      using Cons.IH [of s1] Cons.prems(1) run Continue by simp
  qed
qed simp

theorem height_left_by_precommit_quorum_witness:
  "\<exists>s votes v. engine_reach sample_node observer s \<and>
     3 * card (vouched_precommits sample_node s (votes @ [v]) (vote_block_hash v)) > 2 * rv_total_validators (fst s)"
proof -
  have "broke_with sample_node 0 proposal_engine (sample_block 1 [])
      (deliver_votes sample_node 0 (ballots Prevote @ ballots Precommit) (proposal_round, proposal_engine))"
    using votes_commit [OF round_inv_reach [OF proposal_reach] proposal_facts(1,2) ballots_fresh _ ballots_fresh, of 0]
    by (simp add: sync_ok_new proposal_facts)
  then obtain s' where "deliver_votes sample_node 0 (ballots Prevote @ ballots Precommit) (proposal_round, proposal_engine) = (Break, s')"
    by (auto simp: broke_with_def split: prod.splits)
  from deliver_votes_break [OF this proposal_reach] obtain v rv en where
    s: "engine_reach sample_node observer (rv, en)" "engine_turn sample_node 0 (VoteArrived v) (rv, en) = Some (Break, s')"
    by auto
  then show ?thesis
    using height_left_by_precommit_quorum [OF s(1), of 0 "VoteArrived v" "fst s'" "snd s'"]
    by (fastforce simp: sync_ok_new)
qed

theorem engine_round_invariant_witness:
  "round_inv sample_node (proposal_round, proposal_engine)"
  using engine_round_invariant [OF proposal_reach] by (simp add: sync_ok_new)

end
