(* ===== verification/Growth.thy ===== *)
theory Growth
  imports Engine_Blocks
begin

text \<open>
  Monotonicity: no operation of the storage, the engine or the pruning ever forgets a spent
  nullifier, on any store, whether the operation succeeds or fails, and what is recorded as spent
  is refused from then on.
\<close>

section \<open>Operations that only add to a set\<close>

definition grows :: "('s \<Rightarrow> hash32 set) \<Rightarrow> ('s, 'e, 'a) fallible \<Rightarrow> bool" where
  "grows spent m \<longleftrightarrow> (\<forall>s. spent s \<subseteq> spent (snd (m s)))"

named_theorems grows_intros \<open>operations that only add spent nullifiers\<close>

lemma growsD: "grows spent m \<Longrightarrow> nf \<in> spent s \<Longrightarrow> nf \<in> spent (snd (m s))"
  by (auto simp: grows_def)

lemma grows_ok [grows_intros]: "grows spent (ok a)"
  by (simp add: grows_def)

lemma grows_err [grows_intros]: "grows spent (err e)"
  by (simp add: grows_def)

lemma grows_reading [grows_intros]: "grows spent (reading g)"
  by (simp add: grows_def)

lemma grows_andThen [grows_intros]:
  assumes "grows spent m" "\<And>a. grows spent (f a)"
  shows "grows spent (andThen m f)"
  unfolding grows_def
proof
  fix s
  obtain r s' where m: "m s = (r, s')" by fastforce
  then have "spent s \<subseteq> spent s'"
    using growsD [OF assms(1), of _ s] by auto
  moreover have "spent s' \<subseteq> spent (snd (f a s'))" for a
    using assms(2) by (auto simp: grows_def)
  ultimately show "spent s \<subseteq> spent (snd (andThen m f s))"
    by (cases r) (force simp: andThen_def m)+
qed

lemma grows_forEach [grows_intros]: "(\<And>x. grows spent (f x)) \<Longrightarrow> grows spent (forEach f xs)"
  by (induction xs) (auto intro: grows_intros)

lemma grows_if [grows_intros]:
  "grows spent m \<Longrightarrow> grows spent n \<Longrightarrow> grows spent (if c then m else n)"
  by simp

lemma grows_option [grows_intros]:
  "grows spent m \<Longrightarrow> (\<And>x. grows spent (f x)) \<Longrightarrow> grows spent (case x of None \<Rightarrow> m | Some y \<Rightarrow> f y)"
  by (cases x) auto

lemma grows_at: "grows spent m \<Longrightarrow> spent s \<subseteq> spent (snd (m s))"
  by (simp add: grows_def)

text \<open>A loop fails at the latest at the element that is refused in every state where \<open>nf\<close> is spent.\<close>

lemma forEach_refuses:
  assumes "\<And>y. grows spent (f y)" "x \<in> set xs" "nf \<in> spent s"
    and "\<And>s. nf \<in> spent s \<Longrightarrow> \<exists>e. fst (f x s) = Inl e"
  shows "\<exists>e. fst (forEach f xs s) = Inl e"
  using assms(2,3)
proof (induction xs arbitrary: s)
  case (Cons y ys)
  show ?case
  proof (cases "fst (f y s)")
    case (Inl e)
    then show ?thesis
      by (simp add: andThen_Inl)
  next
    case (Inr u)
    have "nf \<in> spent (snd (f y s))"
      by (rule growsD [OF assms(1) Cons.prems(2)])
    moreover have "x \<in> set ys"
      using Cons.prems Inr assms(4) [of s] by auto
    ultimately show ?thesis
      using Cons.IH Inr by (simp add: andThen_Inr)
  qed
qed simp

section \<open>The storage\<close>

lemma grows_on_db [grows_intros]: "grows f m \<Longrightarrow> grows (\<lambda>s. f (ss_db s)) (on_db m)"
  by (simp add: grows_def)

lemma grows_set_tree [grows_intros]: "grows (\<lambda>s. f (ss_db s)) (set_tree t)"
  by (simp add: grows_def set_tree_def)

text \<open>
  A set of keys read off the database that no single write of the storage takes anything from:
  insertions into the trees the storage writes to, and removals from the trees it removes from.
  Reads and results are irrelevant, so the database may also fail. Then no operation made of these
  writes takes anything from it.
\<close>

locale watched_keys =
  fixes S :: "'db sled"
    and watched :: "'db \<Rightarrow> bytes set"
  assumes insert_watched: "cf \<noteq> CF_VALIDATORS \<Longrightarrow> cf \<noteq> CF_STAKES \<Longrightarrow>
      watched db \<subseteq> watched (snd (sled_insert S db cf k v))"
    and remove_watched: "cf = CF_META \<or> cf = CF_TXS \<or> cf = CF_BLOCKS \<Longrightarrow>
      watched db \<subseteq> watched (snd (sled_remove S db cf k))"
begin

lemma grows_open_tree: "grows watched (open_tree S cf)"
  by (simp add: grows_def open_tree_def)

lemma grows_tree_insert: "cf \<noteq> CF_VALIDATORS \<Longrightarrow> cf \<noteq> CF_STAKES \<Longrightarrow> grows watched (tree_insert S cf k v)"
  using insert_watched by (simp add: grows_def tree_insert_def split_beta)

lemma grows_cf_put: "cf \<noteq> CF_VALIDATORS \<Longrightarrow> cf \<noteq> CF_STAKES \<Longrightarrow> grows watched (cf_put S cf k v)"
  by (simp add: cf_put_def grows_andThen grows_open_tree grows_tree_insert)

lemma grows_tree_remove:
  "cf = CF_META \<or> cf = CF_TXS \<or> cf = CF_BLOCKS \<Longrightarrow> grows watched (tree_remove S cf k)"
  using remove_watched by (simp add: grows_def tree_remove_def split_beta)

lemmas grows_db = grows_open_tree grows_tree_insert grows_cf_put grows_tree_remove

lemma grows_put_block: "grows watched (put_block X S b)"
  by (auto simp: put_block_def intro!: grows_intros grows_db)

lemma grows_delete_block: "grows watched (delete_block X S h)"
  by (auto simp: delete_block_def intro!: grows_intros grows_db)

lemma grows_commit_block: "grows watched (commit_block X S b changes contracts new_root)"
  by (auto simp: commit_block_def Let_def split_beta intro!: grows_intros grows_db grows_put_block)

lemma grows_apply_spend: "grows (\<lambda>s. watched (ss_db s)) (apply_spend S h nf)"
  by (auto simp: apply_spend_def intro!: grows_intros grows_db)

lemma grows_tree_append: "grows (\<lambda>s. watched (ss_db s)) (tree_append X S c)"
  unfolding grows_def tree_append_def Let_def
  by (rule allI, rule grows_at, intro grows_intros grows_db) auto

lemma grows_apply_output: "grows (\<lambda>s. watched (ss_db s)) (apply_output X S c)"
  unfolding grows_def apply_output_def Let_def
  by (rule allI, rule grows_at, intro grows_intros grows_db grows_tree_append) auto

lemma grows_apply_tx: "grows (\<lambda>s. watched (ss_db s)) (apply_tx X S h tx)"
  by (auto simp: apply_tx_def intro!: grows_intros grows_apply_spend grows_apply_output)

lemma grows_apply_block: "grows (\<lambda>s. watched (ss_db s)) (apply_block X S b changes contracts)"
  unfolding apply_block_def Let_def
  by (intro grows_intros grows_db grows_apply_tx grows_commit_block)

lemma grows_prune_history: "grows watched (prune_history X S keep)"
proof -
  have one: "grows watched (prune_one X S h n)" for h n
    by (auto simp: prune_one_def intro!: grows_intros grows_db grows_delete_block)
  have "grows watched (prune_loop X S hs n)" for hs n
    by (induction hs arbitrary: n) (auto intro!: grows_intros one)
  then show ?thesis
    by (auto simp: prune_history_def intro!: grows_intros grows_db)
qed

end

abbreviation store_spent :: "'db sled \<Rightarrow> 'db state_store \<Rightarrow> hash32 set" where
  "store_spent S s \<equiv> db_spent S (ss_db s)"

text \<open>The spent nullifiers of a faultless database are such a set.\<close>

sublocale sled_db \<subseteq> spent: watched_keys S "db_spent S"
  by unfold_locales (auto simp: db_spent_def insert_view remove_view split: if_splits)

context sled_db
begin

lemmas grows_apply_spend = spent.grows_apply_spend
lemmas grows_apply_tx = spent.grows_apply_tx
lemmas grows_apply_block = spent.grows_apply_block
lemmas grows_prune_history = spent.grows_prune_history

section \<open>What is spent is refused\<close>

lemma apply_spend_refuses: "nf \<in> store_spent S s \<Longrightarrow> \<exists>e. fst (apply_spend S h nf s) = Inl e"
  by (auto simp: apply_spend_def andThen_def nullifier_contains_eq db_spent_def dom_def)

lemma apply_tx_refuses:
  assumes "nf \<in> store_spent S s" "nf \<in> set (tx_nullifiers tx)"
  shows "\<exists>e. fst (apply_tx X S h tx s) = Inl e"
proof -
  obtain sp where sp: "sp \<in> set (tx_spends tx)" "nf = sd_nullifier sp"
    using assms(2) by (auto simp: tx_nullifiers_def)
  obtain e where "fst (forEach (\<lambda>spend. apply_spend S h (sd_nullifier spend)) (tx_spends tx) s) = Inl e"
    using forEach_refuses [where f = "\<lambda>spend. apply_spend S h (sd_nullifier spend)" and spent = "store_spent S",
        OF grows_apply_spend sp(1) assms(1)] apply_spend_refuses unfolding sp(2) by blast
  then show ?thesis
    by (simp add: apply_tx_def andThen_Inl)
qed

lemma apply_block_refuses_spent:
  assumes "nf \<in> store_spent S s" "nf \<in> set (block_nullifiers b)"
  shows "\<exists>e. fst (apply_block X S b changes contracts s) = Inl e"
proof -
  obtain tx where tx: "tx \<in> set (blk_transactions b)" "nf \<in> set (tx_nullifiers tx)"
    using assms(2) by (auto simp: block_nullifiers_def)
  obtain e where "fst (forEach (apply_tx X S (bh_height (blk_header b))) (blk_transactions b) s) = Inl e"
    using forEach_refuses [where f = "apply_tx X S (bh_height (blk_header b))" and spent = "store_spent S",
        OF grows_apply_tx tx(1) assms(1)] apply_tx_refuses [OF _ tx(2)] by blast
  then show ?thesis
    by (auto simp: apply_block_def Let_def andThen_def open_tree_eq on_db_def split: sum.splits prod.splits)
qed

lemma insert_refuses_spent:
  assumes "nf \<in> db_spent S db" "nf \<in> set (tx_nullifiers tx)"
  shows "\<exists>e. mempool_insert X S db tx p = (Inl e, p)"
proof -
  have "\<exists>e. check_spends S db p nfs = Inl e" if "nf \<in> set nfs" for nfs
    using that assms(1) by (induction nfs) (auto simp: nullifier_contains_eq db_spent_def)
  then obtain e where "check_spends S db p (tx_nullifiers tx) = Inl e"
    using assms(2) by blast
  then show ?thesis
    by (auto simp: mempool_insert_def Let_def split: sum.split)
qed

end

section \<open>The engine\<close>

lemma execute_store:
  "en_store (execute_and_apply_block E now b en) = en_store en \<or>
   (\<exists>changes contracts. en_store (execute_and_apply_block E now b en) =
      snd (apply_block (nd_ext E) (nd_sled E) b changes contracts (en_store en)))"
proof (cases "block_checked E now b en")
  case True
  obtain changes contracts where "run_contracts E (ss_db (en_store en)) (blk_transactions b) = (changes, contracts)"
    by fastforce
  from execute_checked [OF True this] show ?thesis
    by (intro disjI2 exI [of _ changes] exI [of _ contracts]) (simp split: prod.split sum.split)
next
  case False
  then show ?thesis
    using execute_unchecked [OF False refl] by simp
qed

text \<open>
  How the engine may change what it shares with the other tasks: spent nullifiers stay, and from
  the pool mined transactions are removed.
\<close>

lemma remove_mined_append: "remove_mined X (txs @ txs') p = remove_mined X txs' (remove_mined X txs p)"
  by (simp add: remove_mined_def)

lemma remove_mined_Nil: "remove_mined X [] p = p"
  by (simp add: remove_mined_def)

definition evolves :: "'db node_env \<Rightarrow> 'db engine \<Rightarrow> 'db engine \<Rightarrow> bool" where
  "evolves E en en' \<longleftrightarrow>
     store_spent (nd_sled E) (en_store en) \<subseteq> store_spent (nd_sled E) (en_store en') \<and>
     (\<exists>txs. en_pool en' = remove_mined (nd_ext E) txs (en_pool en))"

lemma evolves_refl [simp]: "evolves E en en"
  by (auto simp: evolves_def remove_mined_Nil intro!: exI [of _ "[]"])

lemma evolves_trans: "evolves E en1 en2 \<Longrightarrow> evolves E en2 en3 \<Longrightarrow> evolves E en1 en3"
  by (fastforce simp: evolves_def remove_mined_append [symmetric])

lemma evolves_same: "en_store en' = en_store en \<Longrightarrow> en_pool en' = en_pool en \<Longrightarrow> evolves E en en'"
  by (auto simp: evolves_def remove_mined_Nil intro!: exI [of _ "[]"])

lemma evolves_cong:
  "en_store en1 = en_store en \<Longrightarrow> en_pool en1 = en_pool en \<Longrightarrow> evolves E en1 en' \<Longrightarrow> evolves E en en'"
  by (simp add: evolves_def)

lemma evolves_execute:
  assumes "sled_db (nd_sled E)"
  shows "evolves E en (execute_and_apply_block E now b en)"
proof -
  have "store_spent (nd_sled E) (en_store en) \<subseteq> store_spent (nd_sled E) (en_store (execute_and_apply_block E now b en))"
    using execute_store [of E now b en] grows_at [OF sled_db.grows_apply_block [OF assms]] by (metis order_refl)
  moreover have "en_pool (execute_and_apply_block E now b en) \<in>
      {en_pool en, remove_mined (nd_ext E) (blk_transactions b) (en_pool en)}"
    by (simp add: execute_and_apply_block_def Let_def split: option.split block_rejection.split prod.split sum.split)
  ultimately show ?thesis
    by (auto simp: evolves_def) (metis remove_mined_Nil)
qed

lemma evolves_synced:
  assumes "sled_db (nd_sled E)"
  shows "evolves E en (apply_synced E now h bs en)"
  unfolding apply_synced_def
  by (induction bs arbitrary: en) (auto intro: evolves_trans evolves_execute [OF assms])

lemma begin_height_shared:
  "begin_height E now en = Some (rv, en') \<Longrightarrow> en_store en' = en_store en \<and> en_pool en' = en_pool en"
  by (auto simp: begin_height_def propose_def send_command_def Let_def split: prod.splits if_splits option.splits)

lemma cast_vote_shared [simp]:
  "en_store (snd (cast_vote E h k s)) = en_store (snd s)" "en_pool (snd (cast_vote E h k s)) = en_pool (snd s)"
  by (auto simp: cast_vote_def send_command_def Let_def split: prod.splits option.splits)

lemma handle_block_shared:
  "en_store (snd (handle_block E p b (rv, en))) = en_store en"
  "en_pool (snd (handle_block E p b (rv, en))) = en_pool en"
  by (auto simp: handle_block_def send_command_def Let_def split: prod.splits option.splits)

lemma evolves_vote:
  assumes "sled_db (nd_sled E)" "handle_vote E now v (rv, en) = (ctl, rv', en')"
  shows "evolves E en en'"
proof (cases E now v rv en rule: handle_vote_cases)
  case (precommit s)
  then have "en' = snd (cast_vote E (vote_block_hash v) Precommit (rv\<lparr>rv_bft := s\<rparr>, en))"
    using assms(2) by (metis prod.inject snd_conv)
  then show ?thesis
    by (intro evolves_same) simp_all
qed (use assms in \<open>auto intro: evolves_execute\<close>)

lemma evolves_sync_response:
  assumes "sled_db (nd_sled E)" "handle_sync_response E now res (rv, en) = (ctl, rv', en')"
  shows "evolves E en en'"
proof (cases "sm_is_syncing (en_sync en)")
  case True
  have "evolves E en (apply_synced E now (rv_height rv) (sres_blocks res) en)"
    by (rule evolves_synced [OF assms(1)])
  moreover have "en_store en' = en_store (apply_synced E now (rv_height rv) (sres_blocks res) en)"
      "en_pool en' = en_pool (apply_synced E now (rv_height rv) (sres_blocks res) en)"
    using assms(2) True
    by (auto simp: handle_sync_response_def send_command_def Let_def split: prod.splits if_splits option.splits)
  ultimately show ?thesis
    by (auto simp: evolves_def)
qed (use assms(2) in \<open>simp add: handle_sync_response_def\<close>)

lemma evolves_turn:
  assumes "sled_db (nd_sled E)" "engine_turn E now ev (rv, en) = Some (ctl, rv', en')"
  shows "evolves E en en'"
proof (cases ev)
  case (BlockArrived p b)
  then have "en' = snd (handle_block E p b (rv, en))"
    using assms(2) by (auto simp: engine_turn_def)
  then show ?thesis
    by (intro evolves_same) (simp_all add: handle_block_shared)
next
  case (VoteArrived v)
  then show ?thesis
    using assms(2) by (intro evolves_vote [OF assms(1)]) (simp add: engine_turn_def)
next
  case (SyncRequested p req ch)
  then show ?thesis
    using assms(2) by (intro evolves_same) (auto simp: engine_turn_def handle_sync_request_def send_command_def Let_def)
next
  case (SyncAnswered p res)
  then show ?thesis
    using assms(2) by (intro evolves_sync_response [OF assms(1)]) (simp add: engine_turn_def)
next
  case RoundTimeout
  then show ?thesis
    using assms(2) by (intro evolves_same) (auto simp: engine_turn_def handle_timeout_def Let_def record_slashing_event_def)
qed

lemma evolves_run_step:
  assumes "sled_db (nd_sled E)" "engine_run_step E now ev (rv, en) = Some (rv', en')"
  shows "evolves E en en'"
proof -
  obtain ctl rv1 en1 where turn: "engine_turn E now ev (rv, en) = Some (ctl, rv1, en1)"
    using assms(2) by (auto simp: engine_run_step_def split: option.splits)
  have "en_store en' = en_store en1 \<and> en_pool en' = en_pool en1"
    using assms(2) by (cases ctl) (auto simp: engine_run_step_def turn dest: begin_height_shared)
  then show ?thesis
    using evolves_turn [OF assms(1) turn] by (simp add: evolves_def)
qed

end
