(* ===== verification/Notes.thy ===== *)
theory Notes
  imports Crypto Tx_Format
begin

text \<open>
  Notes and their keys: the note commitment and plaintext (crates/noirnet-types/src/note.rs), the
  key derivations (address.rs) and the encryption of notes to a recipient
  (crates/noirnet-crypto/src/stealth.rs). The ephemeral secret and the entropy of new keys are
  arguments; Base58 is a parameter of the text form of an address.
\<close>

section \<open>Notes\<close>

text \<open>\<open>Note::commitment\<close>\<close>

definition note_commitment_of :: "ext \<Rightarrow> shielded_note \<Rightarrow> hash32" where
  "note_commitment_of X n =
     blake3 X (ascii ''NoirNet_note_cm_v1'' @ u64_to_le (note_value n) @ note_rcm n @ note_rho n @
       note_pk_d n @ note_diversifier n)"

definition to_plaintext :: "shielded_note \<Rightarrow> bytes" where
  "to_plaintext n = note_diversifier n @ u64_to_le (note_value n) @ note_rcm n @ note_rho n"

definition from_plaintext :: "bytes \<Rightarrow> bytes \<Rightarrow> shielded_note option" where
  "from_plaintext data pk_d =
     (if length data < 83 then None
      else Some \<lparr>note_value = u64_from_le (take 8 (drop 11 data)), note_rcm = take 32 (drop 19 data),
        note_rho = take 32 (drop 51 data), note_pk_d = pk_d, note_diversifier = take 11 data\<rparr>)"

definition wf_note :: "shielded_note \<Rightarrow> bool" where
  "wf_note n \<longleftrightarrow> length (note_rcm n) = 32 \<and> length (note_rho n) = 32 \<and> length (note_pk_d n) = 32 \<and>
     length (note_diversifier n) = 11"

section \<open>Keys\<close>

record payment_address =
  pa_diversifier :: bytes
  pa_pk_d :: bytes

record full_viewing_key =
  fvk_ak :: bytes
  fvk_nk :: bytes
  fvk_ovk :: bytes

definition spending_key_from_seed :: "ext \<Rightarrow> bytes \<Rightarrow> bytes" where
  "spending_key_from_seed X seed = blake3 X (ascii ''NoirNet_sk_v1'' @ seed)"

text \<open>\<open>generate_spending_key\<close> of noirnet-crypto, the 32 random bytes being the argument.\<close>

definition generate_spending_key :: "ext \<Rightarrow> bytes \<Rightarrow> bytes" where
  "generate_spending_key X entropy = spending_key_from_seed X entropy"

definition key_prf :: "ext \<Rightarrow> bytes \<Rightarrow> bytes \<Rightarrow> bytes" where
  "key_prf X sk tag = blake3 X (ascii ''NoirNet_prf_v1'' @ sk @ tag)"

definition to_fvk :: "ext \<Rightarrow> bytes \<Rightarrow> full_viewing_key" where
  "to_fvk X sk = \<lparr>fvk_ak = key_prf X sk (ascii ''ak''), fvk_nk = key_prf X sk (ascii ''nk''),
     fvk_ovk = key_prf X sk (ascii ''ovk'')\<rparr>"

definition ivk_from_fvk :: "ext \<Rightarrow> full_viewing_key \<Rightarrow> bytes" where
  "ivk_from_fvk X fvk = blake3 X (ascii ''NoirNet_ivk_v1'' @ fvk_ak fvk @ fvk_nk fvk)"

definition payment_address_of :: "ext \<Rightarrow> bytes \<Rightarrow> u64 \<Rightarrow> payment_address" where
  "payment_address_of X ivk diversifier_index =
     (let div_bytes = u64_to_le diversifier_index @ replicate 3 0
      in \<lparr>pa_diversifier = div_bytes, pa_pk_d = blake3 X (ascii ''NoirNet_pkd_v1'' @ ivk @ div_bytes)\<rparr>)"

section \<open>The text of an address\<close>

text \<open>Base58 with a checksum; the encoding itself is a parameter.\<close>

definition bs58_encode_check :: "ext \<Rightarrow> (bytes \<Rightarrow> string) \<Rightarrow> bytes \<Rightarrow> string" where
  "bs58_encode_check X bs58_encode data =
     (let checksum = blake3 X data
      in bs58_encode (data @ take 4 checksum))"

definition to_base58_string :: "ext \<Rightarrow> (bytes \<Rightarrow> string) \<Rightarrow> payment_address \<Rightarrow> string" where
  "to_base58_string X bs58_encode addr =
     (let raw = pa_diversifier addr @ pa_pk_d addr
      in bs58_encode_check X bs58_encode ([0x21, 0x89] @ raw))"

section \<open>Encryption to a recipient\<close>

record encrypted_output =
  eo_ephemeral_key :: bytes
  eo_enc_ciphertext :: bytes
  eo_out_ciphertext :: bytes

definition kdf_note :: "ext \<Rightarrow> bytes \<Rightarrow> bytes \<Rightarrow> bytes" where
  "kdf_note X shared_secret epk = blake3 X (ascii ''NoirNet_KDF_note_v1'' @ shared_secret @ epk)"

definition kdf_outgoing :: "ext \<Rightarrow> bytes \<Rightarrow> bytes \<Rightarrow> bytes" where
  "kdf_outgoing X ovk epk = blake3 X (ascii ''NoirNet_KDF_out_v1'' @ ovk @ epk)"

definition nonce_of :: "u8 \<Rightarrow> bytes" where
  "nonce_of nonce_byte = nonce_byte # replicate 11 0"

text \<open>\<open>expect("encryption failed")\<close>: the panic is \<open>None\<close>.\<close>

definition chacha20_encrypt :: "crypto_ext \<Rightarrow> bytes \<Rightarrow> u8 \<Rightarrow> bytes \<Rightarrow> bytes option" where
  "chacha20_encrypt K key nonce_byte plaintext = aead_encrypt K key (nonce_of nonce_byte) plaintext"

definition chacha20_decrypt :: "crypto_ext \<Rightarrow> bytes \<Rightarrow> u8 \<Rightarrow> bytes \<Rightarrow> bytes option" where
  "chacha20_decrypt K key nonce_byte ciphertext = aead_decrypt K key (nonce_of nonce_byte) ciphertext"

definition derive_pkd_from_ivk :: "crypto_ext \<Rightarrow> bytes \<Rightarrow> bytes" where
  "derive_pkd_from_ivk K ivk = x25519_public K ivk"

definition encrypt_note ::
  "ext \<Rightarrow> crypto_ext \<Rightarrow> bytes \<Rightarrow> shielded_note \<Rightarrow> bytes \<Rightarrow> bytes \<Rightarrow> encrypted_output option" where
  "encrypt_note X K esk n recipient_pk_d sender_ovk =
     (let epk = x25519_public K esk;
          shared = x25519_dh K esk recipient_pk_d;
          enc_key = kdf_note X shared epk
      in case chacha20_encrypt K enc_key 1 (to_plaintext n) of
           None \<Rightarrow> None
         | Some enc \<Rightarrow>
             (let out_key = kdf_outgoing X sender_ovk epk
              in case chacha20_encrypt K out_key 2 (recipient_pk_d @ note_rcm n) of
                   None \<Rightarrow> None
                 | Some out \<Rightarrow>
                     Some \<lparr>eo_ephemeral_key = epk, eo_enc_ciphertext = enc, eo_out_ciphertext = out\<rparr>))"

definition try_decrypt_output ::
  "ext \<Rightarrow> crypto_ext \<Rightarrow> bytes \<Rightarrow> bytes \<Rightarrow> hash32 \<Rightarrow> bytes \<Rightarrow> shielded_note option" where
  "try_decrypt_output X K enc_ciphertext ephemeral_key cm ivk =
     (let pk_d = derive_pkd_from_ivk K ivk;
          shared = x25519_dh K ivk ephemeral_key;
          enc_key = kdf_note X shared ephemeral_key
      in case chacha20_decrypt K enc_key 1 enc_ciphertext of
           None \<Rightarrow> None
         | Some plaintext \<Rightarrow>
             (case from_plaintext plaintext pk_d of
                None \<Rightarrow> None
              | Some n \<Rightarrow> if note_commitment_of X n \<noteq> cm then None else Some n))"

section \<open>Properties\<close>

lemma from_to_plaintext:
  assumes "wf_note n"
  shows "from_plaintext (to_plaintext n) pk_d = Some (n\<lparr>note_pk_d := pk_d\<rparr>)"
  using assms by (simp add: wf_note_def from_plaintext_def to_plaintext_def)

text \<open>
  The plaintext of a note is 83 bytes and parses back to the note, with the recipient key the
  parser is given; longer inputs parse by their first 83 bytes, shorter ones are refused.
\<close>

theorem note_plaintext_roundtrip:
  "(wf_note n \<longrightarrow> length (to_plaintext n) = 83 \<and>
      from_plaintext (to_plaintext n @ extra) pk_d = Some (n\<lparr>note_pk_d := pk_d\<rparr>)) \<and>
    (from_plaintext data pk_d = None \<longleftrightarrow> length data < 83)"
  by (auto simp: wf_note_def from_plaintext_def to_plaintext_def)

text \<open>
  Printed addresses are unambiguous: with an injective Base58 encoding and a hash of at least
  4 bytes, two addresses with the same text are equal.
\<close>

theorem address_text_injective:
  assumes "inj bs58_encode" "\<And>bs. length (blake3 X bs) \<ge> 4"
    and "length (pa_diversifier a) = 11" "length (pa_diversifier b) = 11"
    and "to_base58_string X bs58_encode a = to_base58_string X bs58_encode b"
  shows "a = b"
proof -
  have "([0x21, 0x89] @ pa_diversifier a @ pa_pk_d a) @ take 4 (blake3 X ([0x21, 0x89] @ pa_diversifier a @ pa_pk_d a)) =
      ([0x21, 0x89] @ pa_diversifier b @ pa_pk_d b) @ take 4 (blake3 X ([0x21, 0x89] @ pa_diversifier b @ pa_pk_d b))"
    by (rule injD [OF assms(1) assms(5) [unfolded to_base58_string_def bs58_encode_check_def Let_def]])
  moreover have "length (take 4 (blake3 X bs)) = 4" for bs
    using assms(2) [of bs] by simp
  ultimately have "[0x21, 0x89] @ pa_diversifier a @ pa_pk_d a = [0x21, 0x89] @ pa_diversifier b @ pa_pk_d b"
    by (metis append_eq_append_conv)
  then show ?thesis
    using assms(3,4) by (cases a; cases b) simp
qed

text \<open>With one character per byte as a stand-in for Base58.\<close>

theorem address_text_injective_witness:
  "\<forall>i j. to_base58_string sample_ext (map (\<lambda>b. char_of (unat b))) (payment_address_of sample_ext [] i) =
     to_base58_string sample_ext (map (\<lambda>b. char_of (unat b))) (payment_address_of sample_ext [] j) \<longrightarrow>
     payment_address_of sample_ext [] i = payment_address_of sample_ext [] j"
proof (intro allI impI)
  fix i j
  assume same: "to_base58_string sample_ext (map (\<lambda>b. char_of (unat b))) (payment_address_of sample_ext [] i) =
     to_base58_string sample_ext (map (\<lambda>b. char_of (unat b))) (payment_address_of sample_ext [] j)"
  have "inj (\<lambda>b :: u8. char_of (unat b))"
  proof (rule injI)
    fix a b :: u8
    assume "char_of (unat a) = char_of (unat b)"
    then have "unat a mod 256 = unat b mod 256"
      by (metis of_char_of)
    then show "a = b"
      using unsigned_less [of a, where ?'a = nat] unsigned_less [of b, where ?'a = nat]
      by (simp add: word_unat_eq_iff)
  qed
  then show "payment_address_of sample_ext [] i = payment_address_of sample_ext [] j"
    by (intro address_text_injective [OF _ _ _ _ same])
      (simp_all add: inj_mapI sample_ext_def payment_address_of_def Let_def)
qed

definition sample_note :: "bytes \<Rightarrow> shielded_note" where
  "sample_note pk_d = \<lparr>note_value = 1000000000, note_rcm = replicate 32 11, note_rho = replicate 32 22,
     note_pk_d = pk_d, note_diversifier = replicate 11 44\<rparr>"

theorem note_plaintext_roundtrip_witness:
  "from_plaintext (to_plaintext (sample_note (replicate 32 1)) @ [1, 2]) (replicate 32 1) = Some (sample_note (replicate 32 1))"
  using note_plaintext_roundtrip [of "sample_note (replicate 32 1)" "[1, 2]" "replicate 32 1" "[]"]
  by (simp add: wf_note_def sample_note_def)

text \<open>
  A note encrypted to the key derived from an incoming viewing key is decrypted by that key:
  with commuting Diffie-Hellman and a cipher that decrypts what it encrypted, the recipient gets
  exactly the sender's note, when the output carries the note's commitment.
\<close>

theorem encrypt_note_decrypts:
  assumes "wf_note n" "note_pk_d n = derive_pkd_from_ivk K ivk"
    and dh: "x25519_dh K ivk (x25519_public K esk) = x25519_dh K esk (x25519_public K ivk)"
    and aead: "\<And>key nonce msg c. aead_encrypt K key nonce msg = Some c \<Longrightarrow> aead_decrypt K key nonce c = Some msg"
    and enc: "encrypt_note X K esk n (note_pk_d n) ovk = Some out"
  shows "try_decrypt_output X K (eo_enc_ciphertext out) (eo_ephemeral_key out) (note_commitment_of X n) ivk = Some n"
proof -
  let ?key = "kdf_note X (x25519_dh K esk (note_pk_d n)) (x25519_public K esk)"
  have epk: "eo_ephemeral_key out = x25519_public K esk"
    and "chacha20_encrypt K ?key 1 (to_plaintext n) = Some (eo_enc_ciphertext out)"
    using enc by (auto simp: encrypt_note_def Let_def split: option.splits)
  then have "chacha20_decrypt K ?key 1 (eo_enc_ciphertext out) = Some (to_plaintext n)"
    using aead by (simp add: chacha20_encrypt_def chacha20_decrypt_def)
  moreover have "from_plaintext (to_plaintext n) (derive_pkd_from_ivk K ivk) = Some n"
    using from_to_plaintext [OF assms(1), of "note_pk_d n"] by (simp add: assms(2) [symmetric])
  ultimately show ?thesis
    using assms(2) dh by (simp add: try_decrypt_output_def Let_def epk derive_pkd_from_ivk_def)
qed

lemma sample_aead:
  "aead_encrypt sample_crypto key nonce msg = Some c \<Longrightarrow> aead_decrypt sample_crypto key nonce c = Some msg"
  by (auto simp: sample_crypto_def)

theorem encrypt_note_decrypts_witness:
  "\<forall>X. \<exists>out. encrypt_note X sample_crypto (replicate 32 5) (sample_note (replicate 32 3)) (replicate 32 3) [1] = Some out \<and>
     try_decrypt_output X sample_crypto (eo_enc_ciphertext out) (eo_ephemeral_key out)
       (note_commitment_of X (sample_note (replicate 32 3))) (replicate 32 3) = Some (sample_note (replicate 32 3))"
proof
  fix X
  let ?n = "sample_note (replicate 32 3)"
  have pk: "note_pk_d ?n = replicate 32 3"
    by (simp add: sample_note_def)
  obtain out where out: "encrypt_note X sample_crypto (replicate 32 5) ?n (note_pk_d ?n) [1] = Some out"
    by (simp add: encrypt_note_def chacha20_encrypt_def sample_crypto_def Let_def)
  have "try_decrypt_output X sample_crypto (eo_enc_ciphertext out) (eo_ephemeral_key out)
      (note_commitment_of X ?n) (replicate 32 3) = Some ?n"
    by (rule encrypt_note_decrypts [OF _ _ _ sample_aead out])
      (simp_all add: wf_note_def sample_note_def derive_pkd_from_ivk_def sample_crypto_def)
  with out show "\<exists>out. encrypt_note X sample_crypto (replicate 32 5) ?n (replicate 32 3) [1] = Some out \<and>
     try_decrypt_output X sample_crypto (eo_enc_ciphertext out) (eo_ephemeral_key out)
       (note_commitment_of X ?n) (replicate 32 3) = Some ?n"
    by (auto simp: pk)
qed

text \<open>
  Addresses and decryption do not fit together. \<open>payment_address\<close> publishes a hash as the
  recipient key, decryption derives the X25519 public key; whatever the ciphertext, an output
  whose commitment was made with the published key is not recognised, if the two keys differ and
  the note in the ciphertext does not collide with the sent one in the commitment hash.
\<close>

theorem note_to_address_not_decrypted:
  assumes "note_pk_d n = pa_pk_d (payment_address_of X ivk i)"
    and "note_pk_d n \<noteq> derive_pkd_from_ivk K ivk"
    and no_collision: "\<And>pt n'. chacha20_decrypt K (kdf_note X (x25519_dh K ivk epk) epk) 1 enc = Some pt \<Longrightarrow>
      from_plaintext pt (derive_pkd_from_ivk K ivk) = Some n' \<Longrightarrow>
      note_commitment_of X n' = note_commitment_of X n \<Longrightarrow> n' = n"
  shows "try_decrypt_output X K enc epk (note_commitment_of X n) ivk = None"
proof (rule ccontr)
  assume "try_decrypt_output X K enc epk (note_commitment_of X n) ivk \<noteq> None"
  then obtain pt n' where "chacha20_decrypt K (kdf_note X (x25519_dh K ivk epk) epk) 1 enc = Some pt"
      and n': "from_plaintext pt (derive_pkd_from_ivk K ivk) = Some n'" "note_commitment_of X n' = note_commitment_of X n"
    by (auto simp: try_decrypt_output_def Let_def split: option.splits if_splits)
  from no_collision [OF this] have "n' = n" .
  moreover have "note_pk_d n' = derive_pkd_from_ivk K ivk"
    using n'(1) by (auto simp: from_plaintext_def split: if_splits)
  ultimately show False
    using assms(2) by simp
qed

text \<open>A stand-in hash that keeps note commitments apart: they hash to their input.\<close>

definition commit_hash :: "bytes \<Rightarrow> bytes" where
  "commit_hash bs = (if take 18 bs = ascii ''NoirNet_note_cm_v1'' then bs else pad32 bs)"

lemma commit_hash_injective:
  assumes "wf_note n" "wf_note n'"
    and "note_commitment_of (sample_ext\<lparr>blake3 := commit_hash\<rparr>) n' = note_commitment_of (sample_ext\<lparr>blake3 := commit_hash\<rparr>) n"
  shows "n' = n"
  using assms by (cases n; cases n') (simp add: note_commitment_of_def wf_note_def commit_hash_def)

theorem note_to_address_not_decrypted_witness:
  "\<forall>enc epk. try_decrypt_output (sample_ext\<lparr>blake3 := commit_hash\<rparr>) sample_crypto enc epk
     (note_commitment_of (sample_ext\<lparr>blake3 := commit_hash\<rparr>)
       (sample_note (pa_pk_d (payment_address_of (sample_ext\<lparr>blake3 := commit_hash\<rparr>) (replicate 32 3) 0))))
     (replicate 32 3) = None"
proof (intro allI, rule note_to_address_not_decrypted)
  let ?X = "sample_ext\<lparr>blake3 := commit_hash\<rparr>"
  let ?pk = "pa_pk_d (payment_address_of ?X (replicate 32 3) 0)"
  have "ascii ''NoirNet_pkd_v1'' @ replicate 4 3 \<noteq> ascii ''NoirNet_note_cm_v1''"
    by (simp add: ascii_def)
  then have pk: "?pk = take 32 (ascii ''NoirNet_pkd_v1'' @ replicate 32 3)"
    by (simp add: payment_address_of_def commit_hash_def pad32_def Let_def)
  show "note_pk_d (sample_note ?pk) = ?pk"
    by (simp add: sample_note_def)
  have "replicate 32 (3 :: u8) = 3 # replicate 31 3"
    by (simp flip: replicate_Suc)
  then show "note_pk_d (sample_note ?pk) \<noteq> derive_pkd_from_ivk sample_crypto (replicate 32 3)"
    unfolding pk by (simp add: sample_note_def derive_pkd_from_ivk_def sample_crypto_def ascii_def)
  fix pt n'
  assume pt: "from_plaintext pt (derive_pkd_from_ivk sample_crypto (replicate 32 3)) = Some n'"
    and cm: "note_commitment_of ?X n' = note_commitment_of ?X (sample_note ?pk)"
  have "length ?pk = 32"
    unfolding pk by simp
  then have "wf_note (sample_note ?pk)"
    by (simp add: wf_note_def sample_note_def)
  moreover have "wf_note n'"
    using pt by (auto simp: from_plaintext_def wf_note_def derive_pkd_from_ivk_def sample_crypto_def split: if_splits)
  ultimately show "n' = sample_note ?pk"
    using cm by (intro commit_hash_injective)
qed

end
