(* ===== verification/Wallet.thy ===== *)
theory Wallet
  imports Engine_Blocks Notes
begin

text \<open>
  The wallet (crates/noirnet-wallet): the three transaction builders (builder.rs), the scan of
  compact blocks (sync.rs) and the encrypted key store (keys.rs). Random draws are the record
  \<open>wallet_rand\<close>, the clock an argument, Argon2 and the cipher parameters. A panic is \<open>None\<close>; no
  builder returns an error of its own. The \<open>hsm\<close> feature is not compiled and not modelled.
\<close>

datatype wallet_error =
    WalletDatabase string
  | WalletCrypto string
  | InsufficientFunds
  | WalletSyncError string

section \<open>Building transactions\<close>

record wallet_rand =
  wr_rcm :: bytes
  wr_rho :: bytes
  wr_esk :: bytes
  wr_out_rcv :: bytes
  wr_spend_rcv :: bytes
  wr_spend_key :: bytes

text \<open>
  The proof every builder attaches: value, key 1 and nullifier 2, whatever is spent. A failing
  set-up and a failing prover panic.
\<close>

definition spend_proof :: "('f, 'pp, 'p) nova \<Rightarrow> u64 \<Rightarrow> bytes option" where
  "spend_proof N input_value =
     (case setup_nova N of
        Inl _ \<Rightarrow> None
      | Inr pp \<Rightarrow>
          (case generate_multi_spend_proof N pp [input_value] [1] [2] of
             Inl _ \<Rightarrow> None
           | Inr proof_bytes \<Rightarrow> Some proof_bytes))"

definition dummy_spend :: "ext \<Rightarrow> crypto_ext \<Rightarrow> string \<Rightarrow> bytes \<Rightarrow> bytes \<Rightarrow> spend_description" where
  "dummy_spend X K tag spend_seed cv =
     \<lparr>sd_anchor = Hash32_ZERO, sd_nullifier = blake3 X (ascii tag),
      sd_rk = public_key_bytes (keypair_generate K spend_seed), sd_cv = cv,
      sd_spend_auth_sig = replicate 64 0\<rparr>"

definition sign_binding ::
  "ext \<Rightarrow> crypto_ext \<Rightarrow> bytes list \<Rightarrow> bytes list \<Rightarrow> bytes \<Rightarrow> transaction \<Rightarrow> transaction" where
  "sign_binding X K spend_cvs out_cvs sk tx =
     tx\<lparr>tx_binding_sig := create_binding_sig X K spend_cvs out_cvs sk (signing_bytes tx)\<rparr>"

text \<open>The change, \<open>mock_input_value - amount - fee\<close>, is computed with wrap-around and not used.\<close>

definition build_transfer ::
  "ext \<Rightarrow> crypto_ext \<Rightarrow> ('f, 'pp, 'p) nova \<Rightarrow> wallet_rand \<Rightarrow> u64 \<Rightarrow> bytes \<Rightarrow> payment_address \<Rightarrow>
   u64 \<Rightarrow> u64 \<Rightarrow> u64 \<Rightarrow> (wallet_error + transaction) option" where
  "build_transfer X K N r now sk recipient amount fee mock_input_value =
     (let fvk = to_fvk X sk;
          out_note = \<lparr>note_value = amount, note_rcm = wr_rcm r, note_rho = wr_rho r,
            note_pk_d = pa_pk_d recipient, note_diversifier = pa_diversifier recipient\<rparr>
      in case encrypt_note X K (wr_esk r) out_note (pa_pk_d recipient) (fvk_ovk fvk) of
           None \<Rightarrow> None
         | Some out_enc \<Rightarrow>
             (let out_cv = value_commitment X amount (wr_out_rcv r);
                  outputs = [\<lparr>od_note_commitment = note_commitment_of X out_note,
                    od_ephemeral_key = eo_ephemeral_key out_enc,
                    od_enc_ciphertext = eo_enc_ciphertext out_enc,
                    od_out_ciphertext = eo_out_ciphertext out_enc, od_cv = out_cv\<rparr>];
                  spend_cv = value_commitment X mock_input_value (wr_spend_rcv r)
              in case spend_proof N mock_input_value of
                   None \<Rightarrow> None
                 | Some proof_bytes \<Rightarrow>
                     Some (Inr (sign_binding X K [spend_cv] [out_cv] sk
                       \<lparr>tx_version = 1, tx_chain_id = 1,
                        tx_spends = [dummy_spend X K ''dummy_nf'' (wr_spend_key r) spend_cv],
                        tx_outputs = outputs, tx_fee = fee, tx_gas_limit = 21000, tx_memo = None,
                        tx_contract_call = None, tx_deploy_contract = None,
                        tx_binding_sig = replicate 64 0, tx_timestamp = now_obfuscated now,
                        tx_aggregate_spend_proof = proof_bytes\<rparr>))))"

definition build_contract_deploy ::
  "ext \<Rightarrow> crypto_ext \<Rightarrow> ('f, 'pp, 'p) nova \<Rightarrow> wallet_rand \<Rightarrow> u64 \<Rightarrow> bytes \<Rightarrow> bytes \<Rightarrow>
   u64 \<Rightarrow> u64 \<Rightarrow> u64 \<Rightarrow> (wallet_error + transaction) option" where
  "build_contract_deploy X K N r now sk bytecode fee gas_limit mock_input_value =
     (let spend_cv = value_commitment X mock_input_value (wr_spend_rcv r)
      in case spend_proof N mock_input_value of
           None \<Rightarrow> None
         | Some proof_bytes \<Rightarrow>
             Some (Inr (sign_binding X K [spend_cv] [] sk
               \<lparr>tx_version = 1, tx_chain_id = 1,
                tx_spends = [dummy_spend X K ''deploy_nf'' (wr_spend_key r) spend_cv],
                tx_outputs = [], tx_fee = fee, tx_gas_limit = gas_limit, tx_memo = None,
                tx_contract_call = None, tx_deploy_contract = Some bytecode,
                tx_binding_sig = replicate 64 0, tx_timestamp = now_obfuscated now,
                tx_aggregate_spend_proof = proof_bytes\<rparr>)))"

definition build_contract_call ::
  "ext \<Rightarrow> crypto_ext \<Rightarrow> ('f, 'pp, 'p) nova \<Rightarrow> wallet_rand \<Rightarrow> u64 \<Rightarrow> bytes \<Rightarrow> hash32 \<Rightarrow> bytes \<Rightarrow> bytes \<Rightarrow>
   u64 \<Rightarrow> u64 \<Rightarrow> u64 \<Rightarrow> (wallet_error + transaction) option" where
  "build_contract_call X K N r now sk contract_id meth args fee gas_limit mock_input_value =
     (let spend_cv = value_commitment X mock_input_value (wr_spend_rcv r);
          caller_commitment = blake3 X sk
      in case spend_proof N mock_input_value of
           None \<Rightarrow> None
         | Some proof_bytes \<Rightarrow>
             (let call = \<lparr>cc_contract_id = contract_id, cc_method = meth, cc_args = args,
                    cc_gas_limit = gas_limit, cc_caller_commitment = caller_commitment\<rparr>
              in Some (Inr (sign_binding X K [spend_cv] [] sk
                   \<lparr>tx_version = 1, tx_chain_id = 1,
                    tx_spends = [dummy_spend X K ''call_nf'' (wr_spend_key r) spend_cv],
                    tx_outputs = [], tx_fee = fee, tx_gas_limit = gas_limit, tx_memo = None,
                    tx_contract_call = Some call, tx_deploy_contract = None,
                    tx_binding_sig = replicate 64 0, tx_timestamp = now_obfuscated now,
                    tx_aggregate_spend_proof = proof_bytes\<rparr>))))"

section \<open>Scanning the chain\<close>

record wallet_note =
  wn_note :: shielded_note
  wn_commitment :: hash32
  wn_leaf_index :: u64
  wn_nullifier :: hash32
  wn_is_spent :: bool

record wallet_sync =
  ws_ivk :: bytes
  ws_notes :: "wallet_note list"
  ws_last_scanned_height :: u64

definition wallet_sync_new :: "bytes \<Rightarrow> wallet_sync" where
  "wallet_sync_new ivk = \<lparr>ws_ivk = ivk, ws_notes = [], ws_last_scanned_height = 0\<rparr>"

text \<open>One output: the 52-byte prefix of the ciphertext is completed to 580 bytes with zeros.\<close>

definition scan_output :: "ext \<Rightarrow> crypto_ext \<Rightarrow> bytes \<Rightarrow> compact_output \<Rightarrow> wallet_note option" where
  "scan_output X K ivk out =
     (let fake_full_cipher = co_enc_ciphertext_prefix out @ replicate 528 0
      in case try_decrypt_output X K fake_full_cipher (co_ephemeral_key out) (co_note_commitment out) ivk of
           None \<Rightarrow> None
         | Some n \<Rightarrow>
             (let dummy_nf = blake3 X (co_note_commitment out)
              in Some \<lparr>wn_note = n, wn_commitment = co_note_commitment out,
                   wn_leaf_index = co_leaf_index out, wn_nullifier = dummy_nf, wn_is_spent = False\<rparr>))"

definition mark_spent :: "hash32 list \<Rightarrow> wallet_note \<Rightarrow> wallet_note" where
  "mark_spent nfs n = (if wn_nullifier n \<in> set nfs then n\<lparr>wn_is_spent := True\<rparr> else n)"

definition scan_block :: "ext \<Rightarrow> crypto_ext \<Rightarrow> compact_block \<Rightarrow> wallet_sync \<Rightarrow> wallet_sync" where
  "scan_block X K b w =
     (let new_notes = List.map_filter (scan_output X K (ws_ivk w)) (cb_compact_outputs b);
          notes = ws_notes w @ new_notes
      in w\<lparr>ws_notes := map (mark_spent (cb_nullifiers b)) notes, ws_last_scanned_height := cb_height b\<rparr>)"

definition balance :: "wallet_sync \<Rightarrow> u64" where
  "balance w = sum_list (map (\<lambda>n. note_value (wn_note n)) (filter (\<lambda>n. \<not> wn_is_spent n) (ws_notes w)))"

section \<open>The key store\<close>

datatype key_store_error = DecryptionFailed | HsmError | KdfError | MpcError

record software_key_store =
  ks_encrypted_seed :: bytes
  ks_salt :: bytes
  ks_iterations :: u32

record mpc_key_store =
  mpc_threshold :: u32
  mpc_total_parties :: u32
  mpc_shares :: "bytes list"
  mpc_public_key :: bytes

datatype key_store = SoftwareStore software_key_store | MpcStore mpc_key_store

text \<open>
  \<open>argon2 password salt\<close> is the 32-byte key, \<open>None\<close> an error of the derivation. The ciphertext is
  copied into an array of 64 bytes, which panics for any other length.
\<close>

definition keystore_new ::
  "(bytes \<Rightarrow> bytes \<Rightarrow> bytes option) \<Rightarrow> crypto_ext \<Rightarrow> bytes \<Rightarrow> bytes \<Rightarrow> bytes \<Rightarrow> software_key_store option" where
  "keystore_new argon2 K salt seed password =
     (case argon2 password salt of
        None \<Rightarrow> None
      | Some key \<Rightarrow>
          (case aead_encrypt K key (replicate 12 0) seed of
             None \<Rightarrow> None
           | Some c \<Rightarrow>
               if length c \<noteq> 64 then None
               else Some \<lparr>ks_encrypted_seed = c, ks_salt = salt, ks_iterations = 3\<rparr>))"

definition derive_spend_key ::
  "(bytes \<Rightarrow> bytes \<Rightarrow> bytes option) \<Rightarrow> crypto_ext \<Rightarrow> software_key_store \<Rightarrow> bytes \<Rightarrow>
   (key_store_error + bytes) option" where
  "derive_spend_key argon2 K ks password =
     (case argon2 password (ks_salt ks) of
        None \<Rightarrow> Some (Inl DecryptionFailed)
      | Some key \<Rightarrow>
          (case aead_decrypt K key (replicate 12 0) (ks_encrypted_seed ks) of
             None \<Rightarrow> Some (Inl DecryptionFailed)
           | Some seed \<Rightarrow> if length seed < 32 then None else Some (Inr (take 32 seed))))"

text \<open>Durations in seconds.\<close>

record key_rotation_policy =
  kr_rotation_interval :: u64
  kr_max_age :: u64
  kr_notification_threshold :: u64

definition key_rotation_policy_default :: key_rotation_policy where
  "key_rotation_policy_default = \<lparr>kr_rotation_interval = 90 * 24 * 3600, kr_max_age = 365 * 24 * 3600,
     kr_notification_threshold = 7 * 24 * 3600\<rparr>"

section \<open>What the builders produce\<close>

lemma spend_proof_Some:
  "spend_proof N v = Some bs \<longleftrightarrow>
     (\<exists>pp. setup_nova N = Inr pp \<and> generate_multi_spend_proof N pp [v] [1] [2] = Inr bs)"
  by (simp add: spend_proof_def split: sum.split)

lemma sign_binding_simps [simp]:
  "tx_spends (sign_binding X K scvs ocvs sk tx) = tx_spends tx"
  "tx_outputs (sign_binding X K scvs ocvs sk tx) = tx_outputs tx"
  "tx_fee (sign_binding X K scvs ocvs sk tx) = tx_fee tx"
  "tx_gas_limit (sign_binding X K scvs ocvs sk tx) = tx_gas_limit tx"
  "tx_timestamp (sign_binding X K scvs ocvs sk tx) = tx_timestamp tx"
  "tx_version (sign_binding X K scvs ocvs sk tx) = tx_version tx"
  "tx_contract_call (sign_binding X K scvs ocvs sk tx) = tx_contract_call tx"
  "tx_deploy_contract (sign_binding X K scvs ocvs sk tx) = tx_deploy_contract tx"
  "tx_aggregate_spend_proof (sign_binding X K scvs ocvs sk tx) = tx_aggregate_spend_proof tx"
  "tx_nullifiers (sign_binding X K scvs ocvs sk tx) = tx_nullifiers tx"
  by (simp_all add: sign_binding_def tx_nullifiers_def)

text \<open>What the three builders share: one spend, with a nullifier and a proof that do not depend on it.\<close>

definition wallet_shape ::
  "ext \<Rightarrow> ('f, 'pp, 'p) nova \<Rightarrow> u64 \<Rightarrow> string \<Rightarrow> u64 \<Rightarrow> transaction \<Rightarrow> bool" where
  "wallet_shape X N mock tag fee tx \<longleftrightarrow>
     tx_nullifiers tx = [blake3 X (ascii tag)] \<and> length (tx_spends tx) = 1 \<and> tx_fee tx = fee \<and>
     spend_proof N mock = Some (tx_aggregate_spend_proof tx)"

lemma build_transfer_shape:
  "build_transfer X K N r now sk rcp amount fee mock = Some res \<Longrightarrow>
     \<exists>tx. res = Inr tx \<and> wallet_shape X N mock ''dummy_nf'' fee tx \<and> tx_gas_limit tx = 21000"
  by (auto simp: build_transfer_def Let_def wallet_shape_def tx_nullifiers_def dummy_spend_def split: option.splits)

lemma build_contract_deploy_shape:
  "build_contract_deploy X K N r now sk code fee gas mock = Some res \<Longrightarrow>
     \<exists>tx. res = Inr tx \<and> wallet_shape X N mock ''deploy_nf'' fee tx \<and> tx_gas_limit tx = gas"
  by (auto simp: build_contract_deploy_def Let_def wallet_shape_def tx_nullifiers_def dummy_spend_def split: option.splits)

lemma build_contract_call_shape:
  "build_contract_call X K N r now sk cid meth args fee gas mock = Some res \<Longrightarrow>
     \<exists>tx. res = Inr tx \<and> wallet_shape X N mock ''call_nf'' fee tx \<and> tx_gas_limit tx = gas"
  by (auto simp: build_contract_call_def Let_def wallet_shape_def tx_nullifiers_def dummy_spend_def split: option.splits)

text \<open>A transaction some call of a builder returned.\<close>

inductive wallet_made :: "ext \<Rightarrow> crypto_ext \<Rightarrow> ('f, 'pp, 'p) nova \<Rightarrow> u64 \<Rightarrow> transaction \<Rightarrow> bool"
  for X K N mock
where
  Transfer: "build_transfer X K N r now sk rcp amount fee mock = Some (Inr tx) \<Longrightarrow> wallet_made X K N mock tx"
| Deploy: "build_contract_deploy X K N r now sk code fee gas mock = Some (Inr tx) \<Longrightarrow> wallet_made X K N mock tx"
| Call: "build_contract_call X K N r now sk cid meth args fee gas mock = Some (Inr tx) \<Longrightarrow> wallet_made X K N mock tx"

lemma wallet_made_shape: "wallet_made X K N mock tx \<Longrightarrow> \<exists>tag fee. wallet_shape X N mock tag fee tx"
  by (induction rule: wallet_made.induct)
    (blast dest: build_transfer_shape build_contract_deploy_shape build_contract_call_shape)+

section \<open>Wallet transactions in the node\<close>

lemma insert_conflict_refused:
  assumes "nf \<in> set (tx_nullifiers tx)" "mp_pending p nf \<noteq> None"
  shows "\<exists>e. mempool_insert X S db tx p = (Inl e, p)"
proof -
  have "\<exists>e. check_spends S db p nfs = Inl e" if "nf \<in> set nfs" for nfs
    using that assms(2) by (induction nfs) auto
  then obtain e where "check_spends S db p (tx_nullifiers tx) = Inl e"
    using assms(1) by blast
  then show ?thesis
    by (auto simp: mempool_insert_def Let_def split: sum.split)
qed

lemma insert_reserves:
  assumes "mempool_insert X S db tx p = (Inr (), p')" "nf \<in> set (tx_nullifiers tx)"
  shows "mp_pending p' nf \<noteq> None"
proof -
  have "fold (\<lambda>nf m. m(nf \<mapsto> tid)) nfs m nf \<noteq> None \<longleftrightarrow> nf \<in> set nfs \<or> m nf \<noteq> None" for tid nfs and m :: "hash32 \<rightharpoonup> tx_id"
    by (induction nfs arbitrary: m) auto
  then show ?thesis
    using assms by (auto simp: mempool_insert_def Let_def split: if_splits option.splits sum.splits)
qed

text \<open>
  At most one transfer made by any wallet is in a mempool at a time. All transfers spend the
  nullifier \<open>blake3("dummy_nf")\<close>, so while one is pooled every other one, of any sender to any
  recipient, is refused and leaves the pool unchanged, whatever the database says by then.
\<close>

theorem wallet_transfers_exclude_each_other:
  assumes "build_transfer X K N r now sk rcp amount fee mock = Some (Inr tx)"
    and "build_transfer X K N r' now' sk' rcp' amount' fee' mock' = Some (Inr tx')"
    and "mempool_insert X S db tx p = (Inr (), p')"
  shows "\<exists>e. mempool_insert X S db' tx' p' = (Inl e, p')"
proof (rule insert_conflict_refused)
  show "blake3 X (ascii ''dummy_nf'') \<in> set (tx_nullifiers tx')"
    using build_transfer_shape [OF assms(2)] by (simp add: wallet_shape_def)
  show "mp_pending p' (blake3 X (ascii ''dummy_nf'')) \<noteq> None"
    using build_transfer_shape [OF assms(1)] by (intro insert_reserves [OF assms(3)]) (simp add: wallet_shape_def)
qed

lemma check_txs_fails: "tx \<in> set txs \<Longrightarrow> check_tx E tx \<noteq> None \<Longrightarrow> check_txs E txs \<noteq> None"
  by (metis check_txs_None)

text \<open>
  C35: no block with a wallet transaction is applied. The attached proof states 1 * value = 2 in
  the scalar field, so unless the input value is 2 the engine's check fails: the store and the
  mempool stay as they are, whichever node made the block. This covers transfers, deployments
  and calls.
\<close>

theorem wallet_transactions_never_mined:
  assumes "nova_snark N pp" "setup_nova N = Inr pp" "nd_verify_spend E = verify_spend_proof N pp"
    and "inj (nv_scalar N)" "nv_scalar N 1 = 1" "mock \<noteq> 2"
    and made: "wallet_made X K N mock tx" and "tx \<in> set (blk_transactions b)"
  shows "en_store (execute_and_apply_block E now b en) = en_store en \<and>
    en_pool (execute_and_apply_block E now b en) = en_pool en"
proof -
  obtain tag fee where shape: "wallet_shape X N mock tag fee tx"
    using wallet_made_shape [OF made] by blast
  then have gen: "generate_multi_spend_proof N pp [mock] [1] [2] = Inr (tx_aggregate_spend_proof tx)"
    using assms(2) by (auto simp: wallet_shape_def spend_proof_Some)
  have "nv_scalar N 1 * nv_scalar N mock \<noteq> nv_scalar N 2"
    using assms(4-6) by (auto dest: injD)
  then have "\<not> step_satisfied N (mock, 1, 2)"
    by (simp add: step_satisfied_iff)
  then have "verify_spend_proof N pp (tx_aggregate_spend_proof tx) 1 = Inr False"
    using nova_snark.generated_proof_verdict [OF assms(1) gen, of 1] by simp
  then have "check_tx E tx \<noteq> None"
    using shape assms(3) by (auto simp: check_tx_def wallet_shape_def)
  then have fails: "\<not> block_checked E now b en"
    using check_txs_fails [OF assms(8)] unfolding block_checked_def by blast
  show ?thesis
    using execute_unchecked [OF fails refl] by simp
qed

section \<open>Scanning\<close>

lemma mark_spent_simps [simp]:
  "wn_note (mark_spent nfs n) = wn_note n" "wn_commitment (mark_spent nfs n) = wn_commitment n"
  "wn_nullifier (mark_spent nfs n) = wn_nullifier n"
  "wn_is_spent (mark_spent nfs n) \<longleftrightarrow> wn_is_spent n \<or> wn_nullifier n \<in> set nfs"
  by (simp_all add: mark_spent_def)

text \<open>
  A light wallet never finds a note that was sent to it. The compact block carries 52 of the
  99 bytes of an honest ciphertext and the scan completes them to 580: for a cipher that accepts
  under a note's key only what was encrypted with it, and adds 16 bytes, the scan of a block of
  honest outputs adds no note, so the balance can only be made of what was there before.
\<close>

theorem scan_misses_sent_notes:
  assumes sent: "\<And>out. out \<in> set (cb_compact_outputs b) \<Longrightarrow>
      \<exists>esk n ovk eo. wf_note n \<and> encrypt_note X K esk n (note_pk_d n) ovk = Some eo \<and>
        co_ephemeral_key out = eo_ephemeral_key eo \<and>
        co_enc_ciphertext_prefix out = take 52 (eo_enc_ciphertext eo) \<and>
        (let key = kdf_note X (x25519_dh K (ws_ivk w) (eo_ephemeral_key eo)) (eo_ephemeral_key eo)
         in \<forall>c. aead_decrypt K key (nonce_of 1) c \<noteq> None \<longrightarrow> c = eo_enc_ciphertext eo)"
    and overhead: "\<And>key nonce msg c. aead_encrypt K key nonce msg = Some c \<Longrightarrow> length c = length msg + 16"
  shows "ws_notes (scan_block X K b w) = map (mark_spent (cb_nullifiers b)) (ws_notes w) \<and>
    ws_last_scanned_height (scan_block X K b w) = cb_height b"
proof -
  have "scan_output X K (ws_ivk w) out = None" if out: "out \<in> set (cb_compact_outputs b)" for out
  proof -
    obtain esk n ovk eo where *: "wf_note n" "encrypt_note X K esk n (note_pk_d n) ovk = Some eo"
        "co_ephemeral_key out = eo_ephemeral_key eo"
        "co_enc_ciphertext_prefix out = take 52 (eo_enc_ciphertext eo)"
      and only: "\<And>c. aead_decrypt K (kdf_note X (x25519_dh K (ws_ivk w) (eo_ephemeral_key eo)) (eo_ephemeral_key eo))
          (nonce_of 1) c \<noteq> None \<Longrightarrow> c = eo_enc_ciphertext eo"
      using sent [OF out] by (auto simp: Let_def)
    obtain key where "aead_encrypt K key (nonce_of 1) (to_plaintext n) = Some (eo_enc_ciphertext eo)"
      using *(2) by (auto simp: encrypt_note_def chacha20_encrypt_def Let_def split: option.splits)
    then have "length (eo_enc_ciphertext eo) = 99"
      using overhead *(1) by (simp add: to_plaintext_def wf_note_def)
    then have "co_enc_ciphertext_prefix out @ replicate 528 0 \<noteq> eo_enc_ciphertext eo"
      using *(4) by (intro notI) (drule arg_cong [where f = length], simp)
    then have "aead_decrypt K (kdf_note X (x25519_dh K (ws_ivk w) (eo_ephemeral_key eo)) (eo_ephemeral_key eo))
        (nonce_of 1) (co_enc_ciphertext_prefix out @ replicate 528 0) = None"
      using only by blast
    then show ?thesis
      by (simp add: scan_output_def try_decrypt_output_def chacha20_decrypt_def Let_def *(3))
  qed
  then have "List.map_filter (scan_output X K (ws_ivk w)) (cb_compact_outputs b) = []"
    by (simp add: List.map_filter_def filter_empty_conv)
  then show ?thesis
    by (simp add: scan_block_def Let_def)
qed

text \<open>
  A note's spend is never noticed. The wallet watches for the hash of the commitment, while a
  spend publishes the hash of a tagged key, randomness and commitment: if the hash does not
  collide on these two inputs, a block that publishes only real nullifiers marks no found note
  as spent, and the balance only grows by what is found.
\<close>

theorem real_spends_go_unnoticed:
  assumes "\<And>n. n \<in> set (ws_notes w) \<Longrightarrow> wn_nullifier n = blake3 X (wn_commitment n) \<and> length (wn_commitment n) = 32"
    and "\<And>nf. nf \<in> set (cb_nullifiers b) \<Longrightarrow> \<exists>nk rho cm. nf = compute_nullifier X nk rho cm \<and>
        (\<forall>n \<in> set (ws_notes w). blake3 X (ascii ''NoirNet_Nullifier_v1'' @ nk @ rho @ cm) = blake3 X (wn_commitment n) \<longrightarrow>
          ascii ''NoirNet_Nullifier_v1'' @ nk @ rho @ cm = wn_commitment n) \<and> length nk = 32"
    and "cb_compact_outputs b = []"
  shows "ws_notes (scan_block X K b w) = ws_notes w \<and> balance (scan_block X K b w) = balance w"
proof -
  have "wn_nullifier n \<notin> set (cb_nullifiers b)" if n: "n \<in> set (ws_notes w)" for n
  proof
    assume "wn_nullifier n \<in> set (cb_nullifiers b)"
    then obtain nk rho cm where nf: "wn_nullifier n = compute_nullifier X nk rho cm" "length nk = 32"
      and inj: "blake3 X (ascii ''NoirNet_Nullifier_v1'' @ nk @ rho @ cm) = blake3 X (wn_commitment n) \<longrightarrow>
        ascii ''NoirNet_Nullifier_v1'' @ nk @ rho @ cm = wn_commitment n"
      using assms(2) n by blast
    have "ascii ''NoirNet_Nullifier_v1'' @ nk @ rho @ cm = wn_commitment n"
      using inj nf(1) assms(1) [OF n] by (simp add: compute_nullifier_def)
    from arg_cong [OF this, where f = length] show False
      using assms(1) [OF n] nf(2) by simp
  qed
  then have "map (mark_spent (cb_nullifiers b)) (ws_notes w) = ws_notes w"
    by (simp add: map_idI mark_spent_def)
  then show ?thesis
    using assms(3) by (simp add: scan_block_def balance_def List.map_filter_def)
qed

section \<open>The key store\<close>

text \<open>
  Creating a key store panics. The cipher adds its 16-byte tag to the 32-byte seed, and the
  48 bytes are copied into an array of 64: there is no seed, password or salt for which
  \<open>SoftwareKeyStore::new\<close> returns.
\<close>

theorem keystore_new_panics:
  assumes "\<And>key nonce msg c. aead_encrypt K key nonce msg = Some c \<Longrightarrow> length c = length msg + 16"
    and "length seed = 32"
  shows "keystore_new argon2 K salt seed password = None"
  using assms by (auto simp: keystore_new_def split: option.split)

section \<open>Witnesses\<close>

definition sample_rand :: wallet_rand where
  "sample_rand = \<lparr>wr_rcm = replicate 32 1, wr_rho = replicate 32 2, wr_esk = replicate 32 3,
     wr_out_rcv = replicate 32 4, wr_spend_rcv = replicate 32 5, wr_spend_key = replicate 32 6\<rparr>"

definition sample_address :: payment_address where
  "sample_address = \<lparr>pa_diversifier = replicate 11 0, pa_pk_d = replicate 32 7\<rparr>"

text \<open>A transfer with a fee of the lowest tier, on the stand-ins.\<close>

lemma sample_spend_proof: "\<exists>bs. spend_proof counting_nova v = Some bs"
proof -
  have "setup_nova counting_nova = Inr ()"
    by (simp add: setup_nova_def counting_nova_def)
  then show ?thesis
    by (simp add: spend_proof_Some counting_nova_generate)
qed

lemma sample_transfer:
  obtains tx where "build_transfer sample_ext sample_crypto counting_nova sample_rand now sk sample_address amount 10000 mock = Some (Inr tx)"
    "well_formatted sample_ext tx" "tx_nullifiers tx = [sample_hash (ascii ''dummy_nf'')]"
proof -
  obtain bs where bs: "spend_proof counting_nova mock = Some bs"
    using sample_spend_proof by blast
  obtain eo where eo: "encrypt_note sample_ext sample_crypto (wr_esk sample_rand)
      \<lparr>note_value = amount, note_rcm = wr_rcm sample_rand, note_rho = wr_rho sample_rand,
       note_pk_d = pa_pk_d sample_address, note_diversifier = pa_diversifier sample_address\<rparr>
      (pa_pk_d sample_address) (fvk_ovk (to_fvk sample_ext sk)) = Some eo"
    by (simp add: encrypt_note_def chacha20_encrypt_def sample_crypto_def Let_def)
  show ?thesis
    by (rule that, simp add: build_transfer_def Let_def bs eo)
      (simp_all add: well_formatted_def sample_ext_def unat_now_obfuscated sign_binding_def
         tx_nullifiers_def dummy_spend_def)
qed

theorem wallet_transfers_exclude_each_other_witness:
  "\<exists>tx tx' p' e. build_transfer sample_ext sample_crypto counting_nova sample_rand 900 [1] sample_address 5 10000 10005 = Some (Inr tx) \<and>
     build_transfer sample_ext sample_crypto counting_nova sample_rand 1800 [2] sample_address 6 10000 10006 = Some (Inr tx') \<and>
     mempool_insert sample_ext mem_sled mem_empty tx mempool_new = (Inr (), p') \<and>
     mempool_insert sample_ext mem_sled mem_empty tx' p' = (Inl e, p')"
proof -
  obtain tx where tx: "build_transfer sample_ext sample_crypto counting_nova sample_rand 900 [1] sample_address 5 10000 10005 = Some (Inr tx)"
      "well_formatted sample_ext tx" "tx_nullifiers tx = [sample_hash (ascii ''dummy_nf'')]"
    by (rule sample_transfer)
  obtain tx' where tx': "build_transfer sample_ext sample_crypto counting_nova sample_rand 1800 [2] sample_address 6 10000 10006 = Some (Inr tx')"
    by (rule sample_transfer)
  have "validate_format sample_ext tx = Inr ()"
    using tx(2) by (simp add: validate_format_Inr)
  moreover from this have "\<not> tx_fee tx < MIN_FEE"
    by (rule validate_format_fee)
  ultimately obtain p' where "mempool_insert sample_ext mem_sled mem_empty tx mempool_new = (Inr (), p')"
    by (simp add: mempool_insert_def Let_def tx(3) mempool_new_def MAX_MEMPOOL_SIZE_def mem.nullifier_contains_eq
        mem_empty_def)
  with wallet_transfers_exclude_each_other [OF tx(1) tx' this, of mem_empty] tx(1) tx' show ?thesis
    by blast
qed

theorem wallet_transactions_never_mined_witness:
  "\<exists>tx. wallet_made sample_ext sample_crypto counting_nova 10005 tx \<and>
     (\<forall>now en. en_store (execute_and_apply_block sample_node
        now (sample_block 1 [tx]) en) = en_store en)"
proof -
  obtain tx where "build_transfer sample_ext sample_crypto counting_nova sample_rand 900 [1] sample_address 5 10000 10005 = Some (Inr tx)"
    by (rule sample_transfer)
  then have made: "wallet_made sample_ext sample_crypto counting_nova 10005 tx"
    by (rule wallet_made.Transfer)
  have scalar: "inj (nv_scalar counting_nova)" "nv_scalar counting_nova 1 = 1" "setup_nova counting_nova = Inr ()"
    by (auto simp: counting_nova_def setup_nova_def intro!: injI)
  have "en_store (execute_and_apply_block sample_node
      now (sample_block 1 [tx]) en) = en_store en" for now en
    using wallet_transactions_never_mined [OF counting.nova_snark_axioms scalar(3) _ scalar(1,2) _ made,
        where E = sample_node and b = "sample_block 1 [tx]" and now = now and en = en]
    by (simp add: sample_block_def sample_node_def)
  with made show ?thesis
    by blast
qed

text \<open>A cipher that accepts one plaintext only, for the scan.\<close>

definition sealed_crypto :: "bytes \<Rightarrow> crypto_ext" where
  "sealed_crypto msg = sample_crypto\<lparr>aead_decrypt := (\<lambda>key nonce c.
     if c = msg @ take 16 (key @ replicate 16 0) then Some msg else None)\<rparr>"

theorem scan_misses_sent_notes_witness:
  "\<exists>eo. encrypt_note sample_ext (sealed_crypto (to_plaintext (sample_note [3]))) [5] (sample_note (replicate 32 3)) (replicate 32 3) [1] = Some eo \<and>
     ws_notes (scan_block sample_ext (sealed_crypto (to_plaintext (sample_note [3])))
       \<lparr>cb_height = 4, cb_hash = [],
        cb_compact_outputs = [\<lparr>co_ephemeral_key = eo_ephemeral_key eo,
          co_enc_ciphertext_prefix = take 52 (eo_enc_ciphertext eo), co_note_commitment = [], co_leaf_index = 0\<rparr>],
        cb_nullifiers = []\<rparr> (wallet_sync_new [3])) = []"
proof -
  let ?K = "sealed_crypto (to_plaintext (sample_note [3]))" and ?n = "sample_note (replicate 32 3)"
  have pt: "to_plaintext ?n = to_plaintext (sample_note [3])" "note_pk_d ?n = replicate 32 3" "wf_note ?n"
    by (simp_all add: to_plaintext_def sample_note_def wf_note_def)
  obtain eo where eo: "encrypt_note sample_ext ?K [5] ?n (replicate 32 3) [1] = Some eo"
    by (simp add: encrypt_note_def chacha20_encrypt_def sealed_crypto_def sample_crypto_def Let_def)
  then have epk: "eo_ephemeral_key eo = [5]"
    and ct: "eo_enc_ciphertext eo = to_plaintext ?n @ take 16 (kdf_note sample_ext [8] [5] @ replicate 16 0)"
    by (auto simp: encrypt_note_def chacha20_encrypt_def sealed_crypto_def sample_crypto_def Let_def numeral_eq_Suc)
  let ?b = "\<lparr>cb_height = 4, cb_hash = [],
        cb_compact_outputs = [\<lparr>co_ephemeral_key = eo_ephemeral_key eo,
          co_enc_ciphertext_prefix = take 52 (eo_enc_ciphertext eo), co_note_commitment = [], co_leaf_index = 0\<rparr>],
        cb_nullifiers = []\<rparr>"
  have "ws_notes (scan_block sample_ext ?K ?b (wallet_sync_new [3])) =
      map (mark_spent (cb_nullifiers ?b)) (ws_notes (wallet_sync_new [3])) \<and>
      ws_last_scanned_height (scan_block sample_ext ?K ?b (wallet_sync_new [3])) = cb_height ?b"
  proof (rule scan_misses_sent_notes)
    fix key nonce msg c
    assume "aead_encrypt ?K key nonce msg = Some c"
    then show "length c = length msg + 16"
      by (auto simp: sealed_crypto_def sample_crypto_def)
  next
    fix out
    assume "out \<in> set (cb_compact_outputs ?b)"
    then show "\<exists>esk n ovk eo. wf_note n \<and> encrypt_note sample_ext ?K esk n (note_pk_d n) ovk = Some eo \<and>
        co_ephemeral_key out = eo_ephemeral_key eo \<and>
        co_enc_ciphertext_prefix out = take 52 (eo_enc_ciphertext eo) \<and>
        (let key = kdf_note sample_ext (x25519_dh ?K (ws_ivk (wallet_sync_new [3])) (eo_ephemeral_key eo)) (eo_ephemeral_key eo)
         in \<forall>c. aead_decrypt ?K key (nonce_of 1) c \<noteq> None \<longrightarrow> c = eo_enc_ciphertext eo)"
      using eo pt epk ct
      by (intro exI [of _ "[5]"] exI [of _ ?n] exI [of _ "[1]"] exI [of _ eo])
        (auto simp: Let_def wallet_sync_new_def sealed_crypto_def sample_crypto_def split: if_splits)
  qed
  then show ?thesis
    using eo by (auto simp: wallet_sync_new_def)
qed

theorem real_spends_go_unnoticed_witness:
  "balance (scan_block (sample_ext\<lparr>blake3 := (\<lambda>bs. bs)\<rparr>) sample_crypto
     \<lparr>cb_height = 4, cb_hash = [], cb_compact_outputs = [],
      cb_nullifiers = [compute_nullifier (sample_ext\<lparr>blake3 := (\<lambda>bs. bs)\<rparr>) (replicate 32 9) [] []]\<rparr>
     \<lparr>ws_ivk = [], ws_notes = [\<lparr>wn_note = sample_note [], wn_commitment = replicate 32 1, wn_leaf_index = 0,
        wn_nullifier = replicate 32 1, wn_is_spent = False\<rparr>], ws_last_scanned_height = 3\<rparr>) = 1000000000"
  (is "balance (scan_block ?X _ ?b ?w) = _")
proof -
  have "ws_notes (scan_block ?X sample_crypto ?b ?w) = ws_notes ?w \<and> balance (scan_block ?X sample_crypto ?b ?w) = balance ?w"
  proof (rule real_spends_go_unnoticed)
    fix nf
    assume "nf \<in> set (cb_nullifiers ?b)"
    then show "\<exists>nk rho cm. nf = compute_nullifier ?X nk rho cm \<and>
        (\<forall>n \<in> set (ws_notes ?w). blake3 ?X (ascii ''NoirNet_Nullifier_v1'' @ nk @ rho @ cm) = blake3 ?X (wn_commitment n) \<longrightarrow>
          ascii ''NoirNet_Nullifier_v1'' @ nk @ rho @ cm = wn_commitment n) \<and> length nk = 32"
      by (intro exI [of _ "replicate 32 9"] exI [of _ "[]"]) simp
  qed simp_all
  then show ?thesis
    by (simp add: balance_def sample_note_def)
qed

theorem keystore_new_panics_witness:
  "\<forall>argon2 password. keystore_new argon2 sample_crypto (replicate 32 1) (replicate 32 7) password = None"
proof (intro allI, rule keystore_new_panics)
  fix key nonce msg c
  assume "aead_encrypt sample_crypto key nonce msg = Some c"
  then show "length c = length msg + 16"
    by (auto simp: sample_crypto_def)
qed simp

end
