(* ===== verification/Rpc.thy ===== *)
theory Rpc
  imports Chain_History Mempool Network
begin

text \<open>
  The JSON-RPC interface of a node (crates/noirnet-rpc/src/lib.rs) and the hexadecimal form of
  hashes (crates/noirnet-types/src/hash.rs). The hex crate is a parameter with the interface
  \<open>hex_crate\<close>; jsonrpsee's transport is not modelled, only which handler a method name reaches.
\<close>

section \<open>Hexadecimal\<close>

datatype hex_error = InvalidHexCharacter | OddLength | InvalidStringLength

record hex_codec =
  hx_encode :: "bytes \<Rightarrow> string"
  hx_decode :: "string \<Rightarrow> hex_error + bytes"

locale hex_crate =
  fixes H :: hex_codec
  assumes decode_encode: "hx_decode H (hx_encode H bs) = Inr bs"

definition hash32_from_hex :: "hex_codec \<Rightarrow> string \<Rightarrow> hex_error + hash32" where
  "hash32_from_hex H s =
     (case hx_decode H s of
        Inl e \<Rightarrow> Inl e
      | Inr bs \<Rightarrow> if length bs \<noteq> 32 then Inl InvalidStringLength else Inr bs)"

text \<open>\<open>Display\<close> and \<open>Debug\<close>.\<close>

definition hash32_to_string :: "hex_codec \<Rightarrow> hash32 \<Rightarrow> string" where
  "hash32_to_string H h = hx_encode H h"

definition hash32_debug :: "hex_codec \<Rightarrow> hash32 \<Rightarrow> string" where
  "hash32_debug H h = ''Hash32('' @ hx_encode H h @ '')''"

context hex_crate
begin

lemma hash32_text [simp]: "length h = 32 \<Longrightarrow> hash32_from_hex H (hash32_to_string H h) = Inr h"
  by (simp add: hash32_from_hex_def hash32_to_string_def decode_encode)

end

section \<open>Server state\<close>

record rpc_config =
  rc_listen_addr :: string
  rc_max_request_size :: u32
  rc_rate_limit :: u64

text \<open>\<open>rs_open\<close> says whether the network service still receives commands.\<close>

record 'db rpc_state =
  rs_config :: rpc_config
  rs_mempool :: mempool
  rs_store :: "'db state_store"
  rs_network :: priority_sender
  rs_open :: bool

text \<open>The state \<open>start_rpc_server\<close> gives its handlers; the rate limit is stored and read nowhere.\<close>

definition rpc_start :: "string \<Rightarrow> mempool \<Rightarrow> 'db state_store \<Rightarrow> priority_sender \<Rightarrow> bool \<Rightarrow> 'db rpc_state" where
  "rpc_start addr pool store network_tx is_open =
     \<lparr>rs_config = \<lparr>rc_listen_addr = addr, rc_max_request_size = 10 * 1024 * 1024, rc_rate_limit = 1000\<rparr>,
      rs_mempool = pool, rs_store = store, rs_network = network_tx, rs_open = is_open\<rparr>"

definition network_send :: "network_command \<Rightarrow> 'db rpc_state \<Rightarrow> bool \<times> 'db rpc_state" where
  "network_send cmd st =
     (if rs_open st then (True, st\<lparr>rs_network := priority_send cmd (rs_network st)\<rparr>) else (False, st))"

section \<open>Handlers\<close>

datatype rpc_error =
    InvalidParams
  | ParseError
  | MempoolRefused mempool_error
  | StorageFailed storage_error
  | NetworkFailed
  | NetworkTimeout

text \<open>The codes of the error objects; the first two are those of the JSON-RPC specification.\<close>

fun rpc_error_code :: "rpc_error \<Rightarrow> int" where
  "rpc_error_code InvalidParams = - 32602"
| "rpc_error_code ParseError = - 32700"
| "rpc_error_code (MempoolRefused _) = - 32000"
| "rpc_error_code (StorageFailed _) = - 32001"
| "rpc_error_code NetworkFailed = - 32002"
| "rpc_error_code NetworkTimeout = - 32003"

definition rpc_get_block_height :: "'db sled \<Rightarrow> 'db rpc_state \<Rightarrow> rpc_error + u64" where
  "rpc_get_block_height S st = Inr (unwrap_or (get_chain_height S (ss_db (rs_store st))) 0)"

definition rpc_send_transaction ::
  "ext \<Rightarrow> 'db sled \<Rightarrow> hex_codec \<Rightarrow> string \<Rightarrow> 'db rpc_state \<Rightarrow> (rpc_error + string) \<times> 'db rpc_state" where
  "rpc_send_transaction X S H tx_hex st =
     (case hx_decode H tx_hex of
        Inl _ \<Rightarrow> (Inl InvalidParams, st)
      | Inr tx_bytes \<Rightarrow>
          (case bincode_tx_de X tx_bytes of
             None \<Rightarrow> (Inl ParseError, st)
           | Some tx \<Rightarrow>
               (case mempool_insert X S (ss_db (rs_store st)) tx (rs_mempool st) of
                  (Inl e, pool) \<Rightarrow> (Inl (MempoolRefused e), st\<lparr>rs_mempool := pool\<rparr>)
                | (Inr _, pool) \<Rightarrow>
                    (Inr (hash32_to_string H (tx_id_of X tx)),
                     snd (network_send (BroadcastTx tx_bytes) (st\<lparr>rs_mempool := pool\<rparr>))))))"

definition rpc_get_storage ::
  "'db sled \<Rightarrow> hex_codec \<Rightarrow> string \<Rightarrow> string \<Rightarrow> 'db rpc_state \<Rightarrow> rpc_error + string option" where
  "rpc_get_storage S H contract_id key st =
     (case hash32_from_hex H contract_id of
        Inl _ \<Rightarrow> Inl InvalidParams
      | Inr cid \<Rightarrow>
          (case hx_decode H key of
             Inl _ \<Rightarrow> Inl InvalidParams
           | Inr k_bytes \<Rightarrow>
               (case get_contract_state S cid k_bytes (ss_db (rs_store st)) of
                  Inl e \<Rightarrow> Inl (StorageFailed e)
                | Inr v \<Rightarrow> Inr (map_option (hx_encode H) v))))"

record sync_status =
  sy_synced :: bool
  sy_peers :: usize
  sy_height :: u64

text \<open>
  \<open>reply\<close> is what comes back on the one-shot channel: the number of connected peers and the flag
  the network service answers with, or \<open>None\<close> if it drops the channel.
\<close>

definition rpc_get_sync_status ::
  "'db sled \<Rightarrow> channel_id \<Rightarrow> (usize \<times> bool) option \<Rightarrow> 'db rpc_state \<Rightarrow> (rpc_error + sync_status) \<times> 'db rpc_state" where
  "rpc_get_sync_status S channel reply st =
     (case network_send (GetStatus channel) st of
        (False, st') \<Rightarrow> (Inl NetworkFailed, st')
      | (True, st') \<Rightarrow>
          (case reply of
             None \<Rightarrow> (Inl NetworkTimeout, st')
           | Some (peers, synced) \<Rightarrow>
               (Inr \<lparr>sy_synced = synced, sy_peers = peers,
                     sy_height = unwrap_or (get_chain_height S (ss_db (rs_store st'))) 0\<rparr>, st')))"

section \<open>Dispatch by method name\<close>

record rpc_request =
  rq_method :: string
  rq_params :: "string list"

datatype rpc_value = RpcHeight u64 | RpcTxId string | RpcStorage "string option" | RpcStatus sync_status

text \<open>\<open>None\<close>: no method of that name with that many parameters, answered by jsonrpsee itself.\<close>

definition rpc_dispatch ::
  "ext \<Rightarrow> 'db sled \<Rightarrow> hex_codec \<Rightarrow> channel_id \<Rightarrow> (usize \<times> bool) option \<Rightarrow> rpc_request \<Rightarrow> 'db rpc_state \<Rightarrow>
   (rpc_error + rpc_value) option \<times> 'db rpc_state" where
  "rpc_dispatch X S H channel reply rq st =
     (if rq_method rq = ''noirnet_getBlockHeight'' \<and> rq_params rq = []
        then (Some (map_sum id RpcHeight (rpc_get_block_height S st)), st)
      else if rq_method rq = ''noirnet_sendTransaction'' \<and> length (rq_params rq) = 1
        then (case rpc_send_transaction X S H (rq_params rq ! 0) st of
                (r, st') \<Rightarrow> (Some (map_sum id RpcTxId r), st'))
      else if rq_method rq = ''noirnet_getStorage'' \<and> length (rq_params rq) = 2
        then (Some (map_sum id RpcStorage (rpc_get_storage S H (rq_params rq ! 0) (rq_params rq ! 1) st)), st)
      else if rq_method rq = ''noirnet_getSyncStatus'' \<and> rq_params rq = []
        then (case rpc_get_sync_status S channel reply st of
                (r, st') \<Rightarrow> (Some (map_sum id RpcStatus r), st'))
      else (None, st))"

section \<open>Properties\<close>

text \<open>
  Submitting the hexadecimal form of an encoded transaction is inserting it. If the mempool
  takes the transaction, the answer is its identifier, in the form that parses back to it, the
  transaction is in the pool under that identifier, and exactly the submitted bytes are queued
  for broadcast; if the mempool refuses it, its error is the answer and nothing changes.
\<close>

theorem rpc_submission:
  assumes "hex_crate H" "bincode_tx_de X (bincode_tx X tx) = Some tx"
    and "length (tx_id_of X tx) = 32"
    and run: "rpc_send_transaction X S H (hx_encode H (bincode_tx X tx)) st = (r, st')"
  shows "case mempool_insert X S (ss_db (rs_store st)) tx (rs_mempool st) of
      (Inr _, pool) \<Rightarrow>
        (\<exists>s. r = Inr s \<and> hash32_from_hex H s = Inr (tx_id_of X tx)) \<and>
        rs_mempool st' = pool \<and> map_of (mp_txs pool) (tx_id_of X tx) = Some tx \<and> rs_store st' = rs_store st \<and>
        rs_network st' = (if rs_open st then priority_send (BroadcastTx (bincode_tx X tx)) (rs_network st)
          else rs_network st)
    | (Inl e, _) \<Rightarrow> r = Inl (MempoolRefused e) \<and> st' = st"
proof (cases "mempool_insert X S (ss_db (rs_store st)) tx (rs_mempool st)")
  case (Pair res pool)
  have dec: "hx_decode H (hx_encode H (bincode_tx X tx)) = Inr (bincode_tx X tx)"
    by (rule hex_crate.decode_encode [OF assms(1)])
  show ?thesis
  proof (cases res)
    case (Inl e)
    then have "pool = rs_mempool st"
      using Pair by (auto simp: mempool_insert_def Let_def split: if_splits option.splits sum.splits)
    then show ?thesis
      using run Pair Inl by (auto simp: rpc_send_transaction_def dec assms(2))
  next
    case (Inr u)
    then have "map_of (mp_txs pool) (tx_id_of X tx) = Some tx"
      using Pair by (auto simp: mempool_insert_def Let_def update_conv' split: if_splits option.splits sum.splits)
    then show ?thesis
      using run Pair Inr hex_crate.hash32_text [OF assms(1,3)]
      by (auto simp: rpc_send_transaction_def dec assms(2) network_send_def)
  qed
qed

text \<open>
  Contract storage is served as it was committed. After a block is accepted, asking for a
  contract and key in hexadecimal answers the last value the block's state changes gave that
  key, and for every other key what was answered before.
\<close>

theorem rpc_storage_after_block:
  assumes "hex_crate H" "sled_db S" "represents X S (rs_store st) L"
    and "length (lg_leaves L) + length (block_commitments b) < 2 ^ 32"
    and "fst (apply_block X S b changes contracts (rs_store st)) = Inr root" "distinct (map fst changes)"
    and "length cid = 32"
    and st': "st' = st\<lparr>rs_store := snd (apply_block X S b changes contracts (rs_store st))\<rparr>"
  shows "rpc_get_storage S H (hash32_to_string H cid) (hx_encode H key) st' =
    (case map_of changes (cid @ key) of
       Some v \<Rightarrow> Inr (Some (hx_encode H v))
     | None \<Rightarrow> rpc_get_storage S H (hash32_to_string H cid) (hx_encode H key) st)"
  using hex_crate.hash32_text [OF assms(1,7)] hex_crate.decode_encode [OF assms(1), of key]
    sled_db.get_contract_state_after [OF assms(2-6), of cid key]
  by (simp add: rpc_get_storage_def st' split: option.split)

section \<open>A codec that satisfies the interface\<close>

text \<open>Lower-case hexadecimal digits, two per byte, as the hex crate documents it.\<close>

definition hex_digit :: "nat \<Rightarrow> char" where
  "hex_digit n = ''0123456789abcdef'' ! n"

definition digit_value :: "char \<Rightarrow> nat option" where
  "digit_value c = map_of (zip ''0123456789abcdefABCDEF'' ([0..<16] @ [10..<16])) c"

fun hex_pairs :: "string \<Rightarrow> hex_error + bytes" where
  "hex_pairs [] = Inr []"
| "hex_pairs [c] = Inl OddLength"
| "hex_pairs (c # d # cs) =
     (case (digit_value c, digit_value d) of
        (Some x, Some y) \<Rightarrow> map_sum id (\<lambda>bs. word_of_nat (16 * x + y) # bs) (hex_pairs cs)
      | _ \<Rightarrow> Inl InvalidHexCharacter)"

definition plain_hex :: hex_codec where
  "plain_hex = \<lparr>
     hx_encode = (\<lambda>bs. concat (map (\<lambda>b. [hex_digit (unat b div 16), hex_digit (unat b mod 16)]) bs)),
     hx_decode = (\<lambda>s. if odd (length s) then Inl OddLength else hex_pairs s)\<rparr>"

lemma digit_value_hex_digit: "n < 16 \<Longrightarrow> digit_value (hex_digit n) = Some n"
proof -
  have "\<forall>n \<in> set [0..<16]. digit_value (hex_digit n) = Some n"
    by code_simp
  then show "n < 16 \<Longrightarrow> ?thesis"
    by simp
qed

interpretation plain_hex: hex_crate plain_hex
proof
  fix bs
  have "even (length (hx_encode plain_hex bs))"
    by (induction bs) (simp_all add: plain_hex_def)
  moreover have "hex_pairs (hx_encode plain_hex bs) = Inr bs"
  proof (induction bs)
    case (Cons b bs)
    have "unat b < 256"
      using unsigned_less [of b, where ?'a = nat] by simp
    then have "unat b div 16 < 16"
      by (simp add: div_less_iff_less_mult)
    then show ?case
      using Cons by (simp add: plain_hex_def digit_value_hex_digit)
  qed (simp add: plain_hex_def)
  ultimately show "hx_decode plain_hex (hx_encode plain_hex bs) = Inr bs"
    by (simp add: plain_hex_def)
qed

text \<open>A codec for the samples: the first byte names the sample transaction.\<close>

definition naming_codec :: ext where
  "naming_codec = sample_ext\<lparr>bincode_tx_de := (\<lambda>bs. case bs of [] \<Rightarrow> None | n # _ \<Rightarrow> Some (sample_tx n))\<rparr>"

definition sample_rpc :: "mem_db state_store \<Rightarrow> mem_db rpc_state" where
  "sample_rpc store = rpc_start ''127.0.0.1:7777'' mempool_new store \<lparr>ps_high = [], ps_low = []\<rparr> True"

theorem rpc_submission_witness:
  "\<exists>s st'. rpc_send_transaction naming_codec mem_sled plain_hex (hx_encode plain_hex (replicate 32 7)) (sample_rpc (fresh_store mem_empty)) = (Inr s, st') \<and>
     hash32_from_hex plain_hex s = Inr (replicate 32 7) \<and>
     ps_low (rs_network st') = [BroadcastTx (replicate 32 7)]"
proof -
  have tx: "bincode_tx naming_codec (sample_tx 7) = replicate 32 7"
      "bincode_tx_de naming_codec (bincode_tx naming_codec (sample_tx 7)) = Some (sample_tx 7)"
      "tx_id_of naming_codec (sample_tx 7) = replicate 32 7"
    by (simp_all add: naming_codec_def sample_ext_def tx_id_of_def sample_hash_def numeral_eq_Suc)
  have "validate_format naming_codec (sample_tx 7) = validate_format sample_ext (sample_tx 7)"
    by (simp add: validate_format_def naming_codec_def)
  then have "fst (mempool_insert naming_codec mem_sled (ss_db (fresh_store mem_empty)) (sample_tx 7) mempool_new) = Inr ()"
    by (simp add: mempool_insert_def Let_def mempool_new_def MAX_MEMPOOL_SIZE_def validate_format_sample
        MIN_FEE_def mem.nullifier_contains_eq fresh_store_def mem_empty_def)
  then obtain pool where "mempool_insert naming_codec mem_sled (ss_db (rs_store (sample_rpc (fresh_store mem_empty)))) (sample_tx 7) (rs_mempool (sample_rpc (fresh_store mem_empty))) = (Inr (), pool)"
    by (cases "mempool_insert naming_codec mem_sled (ss_db (fresh_store mem_empty)) (sample_tx 7) mempool_new")
      (simp add: sample_rpc_def rpc_start_def)
  with rpc_submission [OF plain_hex.hex_crate_axioms tx(2), of mem_sled "sample_rpc (fresh_store mem_empty)", OF _ surjective_pairing] tx
  show ?thesis
    by (cases "rpc_send_transaction naming_codec mem_sled plain_hex (hx_encode plain_hex (replicate 32 7)) (sample_rpc (fresh_store mem_empty))")
      (auto simp: sample_rpc_def rpc_start_def priority_send_def)
qed

theorem rpc_storage_after_block_witness:
  "rpc_get_storage mem_sled plain_hex (hash32_to_string plain_hex (replicate 32 4)) (hx_encode plain_hex [1])
     ((sample_rpc genesis_store)\<lparr>rs_store := snd (apply_block sample_ext mem_sled (sample_block 1 [sample_tx 2])
        [(replicate 32 4 @ [1], [9])] [] genesis_store)\<rparr>) = Inr (Some (hx_encode plain_hex [9]))"
proof -
  let ?ch = "[(replicate 32 4 @ [1], [9])] :: (bytes \<times> bytes) list"
  have "fst (apply_block sample_ext mem_sled (sample_block 1 [sample_tx 2]) ?ch [] genesis_store) =
      Inr (ledger_root sample_ext (ledger_commit sample_ext (sample_block 1 [sample_tx 2]) ?ch [] genesis_ledger))"
    using mem.apply_block_accepts [OF genesis_represents, of "sample_block 1 [sample_tx 2]" ?ch "[]"]
    by (simp add: genesis_ledger_simps spendable_def sample_block_lists)
  moreover have "rs_store (sample_rpc genesis_store) = genesis_store"
    by (simp add: sample_rpc_def rpc_start_def)
  ultimately show ?thesis
    using rpc_storage_after_block [OF plain_hex.hex_crate_axioms mem.sled_db_axioms, of sample_ext "sample_rpc genesis_store" genesis_ledger
        "sample_block 1 [sample_tx 2]" ?ch "[]" _ "replicate 32 4" _ "[1]", OF _ _ _ _ _ refl] genesis_represents
    by (simp add: genesis_ledger_simps sample_block_lists)
qed

end
