(* ===== verification/Cli.thy ===== *)
theory Cli
  imports Wallet Rpc
begin

text \<open>
  The command line wallet (src/bin/noirnet-cli/src/main.rs): what its commands compute before
  they print, write a file or post a request. A command that talks to a node is the JSON-RPC
  request it posts; argument parsing, HTTP and terminal output are not modelled.
\<close>

datatype cli_error =
    BadHex hex_error
  | BadSeedLength
  | BadKeyLength
  | BadRecipientLength
  | WalletFailed wallet_error

section \<open>Key generation\<close>

text \<open>The content of the key file.\<close>

record wallet_file =
  wf_seed :: string
  wf_spending_key :: string
  wf_ak :: string
  wf_nk :: string
  wf_ovk :: string
  wf_payment_address :: string

text \<open>The decoded 32-byte argument the commands check in the same way.\<close>

definition decode32 :: "hex_codec \<Rightarrow> cli_error \<Rightarrow> string \<Rightarrow> cli_error + bytes" where
  "decode32 H e s =
     (case hx_decode H s of
        Inl he \<Rightarrow> Inl (BadHex he)
      | Inr bs \<Rightarrow> if length bs \<noteq> 32 then Inl e else Inr bs)"

definition cmd_generate_keys ::
  "ext \<Rightarrow> hex_codec \<Rightarrow> (bytes \<Rightarrow> string) \<Rightarrow> bytes \<Rightarrow> string option \<Rightarrow> cli_error + wallet_file" where
  "cmd_generate_keys X H bs58 random_bytes seed =
     (case (case seed of Some hex_seed \<Rightarrow> decode32 H BadSeedLength hex_seed | None \<Rightarrow> Inr random_bytes) of
        Inl e \<Rightarrow> Inl e
      | Inr seed_bytes \<Rightarrow>
          (let sk = spending_key_from_seed X seed_bytes;
               fvk = to_fvk X sk;
               ivk = ivk_from_fvk X fvk;
               addr = payment_address_of X ivk 0
           in Inr \<lparr>wf_seed = hx_encode H seed_bytes, wf_spending_key = hx_encode H sk,
                wf_ak = hx_encode H (fvk_ak fvk), wf_nk = hx_encode H (fvk_nk fvk),
                wf_ovk = hx_encode H (fvk_ovk fvk), wf_payment_address = to_base58_string X bs58 addr\<rparr>))"

section \<open>Requests to a node\<close>

definition CLI_DEFAULT_FEE :: u64 where
  "CLI_DEFAULT_FEE = 1000"

text \<open>\<open>None\<close> is a panic of the transaction builder.\<close>

definition cmd_send ::
  "ext \<Rightarrow> crypto_ext \<Rightarrow> ('f, 'pp, 'p) nova \<Rightarrow> hex_codec \<Rightarrow> wallet_rand \<Rightarrow> u64 \<Rightarrow>
   string \<Rightarrow> u64 \<Rightarrow> u64 \<Rightarrow> string \<Rightarrow> (cli_error + rpc_request) option" where
  "cmd_send X K N H r now to_hex amount fee key_hex =
     (case decode32 H BadKeyLength key_hex of
        Inl e \<Rightarrow> Some (Inl e)
      | Inr sk \<Rightarrow>
          (case decode32 H BadRecipientLength to_hex of
             Inl e \<Rightarrow> Some (Inl e)
           | Inr pk_d \<Rightarrow>
               (let recipient = \<lparr>pa_diversifier = replicate 11 0, pa_pk_d = pk_d\<rparr>
                in case build_transfer X K N r now sk recipient amount fee (amount + fee) of
                     None \<Rightarrow> None
                   | Some (Inl e) \<Rightarrow> Some (Inl (WalletFailed e))
                   | Some (Inr tx) \<Rightarrow>
                       (let tx_hex = hx_encode H (bincode_tx X tx)
                        in Some (Inr \<lparr>rq_method = ''noirnet_sendTransaction'', rq_params = [tx_hex]\<rparr>)))))"

text \<open>The two requests of \<open>status\<close>, and the one of \<open>get-storage\<close>.\<close>

definition cmd_status :: "rpc_request list" where
  "cmd_status = [\<lparr>rq_method = ''noirnet_getBlockHeight'', rq_params = []\<rparr>,
     \<lparr>rq_method = ''noirnet_getSyncStatus'', rq_params = []\<rparr>]"

definition cmd_get_storage :: "string \<Rightarrow> string \<Rightarrow> rpc_request" where
  "cmd_get_storage contract_hex key_hex =
     \<lparr>rq_method = ''noirnet_getStorage'', rq_params = [contract_hex, key_hex]\<rparr>"

section \<open>Properties\<close>

lemma decode32_encode: "hex_crate H \<Longrightarrow> length bs = 32 \<Longrightarrow> decode32 H e (hx_encode H bs) = Inr bs"
  by (simp add: decode32_def hex_crate.decode_encode)

text \<open>
  A key file can be restored from its seed line: generating keys with the seed of a file made
  from 32 random bytes writes the same file again, and its spending key line is accepted by the
  key argument of \<open>send\<close> as the key derived from that seed.
\<close>

theorem key_file_restores:
  assumes "hex_crate H" "length random_bytes = 32" "\<And>bs. length (blake3 X bs) = 32"
    and "cmd_generate_keys X H bs58 random_bytes None = Inr f"
  shows "cmd_generate_keys X H bs58 other (Some (wf_seed f)) = Inr f \<and>
    decode32 H BadKeyLength (wf_spending_key f) = Inr (spending_key_from_seed X random_bytes)"
proof -
  have "wf_seed f = hx_encode H random_bytes"
    and "wf_spending_key f = hx_encode H (spending_key_from_seed X random_bytes)"
    using assms(4) by (auto simp: cmd_generate_keys_def Let_def)
  moreover have "length (spending_key_from_seed X random_bytes) = 32"
    by (simp add: spending_key_from_seed_def assms(3))
  ultimately show ?thesis
    using assms(4) by (simp add: cmd_generate_keys_def decode32_encode [OF assms(1)] assms(2))
qed

lemma cmd_send_request:
  assumes "hex_crate H" "length sk = 32" "length pk_d = 32"
    and "build_transfer X K N r now sk \<lparr>pa_diversifier = replicate 11 0, pa_pk_d = pk_d\<rparr> amount fee (amount + fee) =
      Some (Inr tx)"
  shows "cmd_send X K N H r now (hx_encode H pk_d) amount fee (hx_encode H sk) =
    Some (Inr \<lparr>rq_method = ''noirnet_sendTransaction'', rq_params = [hx_encode H (bincode_tx X tx)]\<rparr>)"
  using assms by (simp add: cmd_send_def decode32_encode Let_def)

lemma insert_wrong_tier_refused:
  assumes "tx_fee tx \<notin> set FEE_TIERS"
  shows "\<exists>e. mempool_insert X S db tx p = (Inl e, p)"
proof -
  have "validate_format X tx \<noteq> Inr u" for u
    using assms by (auto simp: validate_format_Inr well_formatted_def FEE_TIERS_def)
  then obtain e where "validate_format X tx = Inl e"
    by (cases "validate_format X tx") auto
  then show ?thesis
    by (auto simp: mempool_insert_def Let_def)
qed

text \<open>
  What \<open>send\<close> posts is what the builder made, and the default fee is never accepted. With the
  key and the recipient in hexadecimal, the posted request carries the built transaction; a node
  that decodes it answers a fee outside the tiers, such as the default 1000, with a mempool
  error and stays as it was.
\<close>

theorem cli_fee_outside_tiers_refused:
  assumes "hex_crate H" "length sk = 32" "length pk_d = 32"
    and made: "build_transfer X K N r now sk \<lparr>pa_diversifier = replicate 11 0, pa_pk_d = pk_d\<rparr> amount fee (amount + fee) =
      Some (Inr tx)"
    and "bincode_tx_de X (bincode_tx X tx) = Some tx" "fee \<notin> set FEE_TIERS"
  shows "\<exists>rq e. cmd_send X K N H r now (hx_encode H pk_d) amount fee (hx_encode H sk) = Some (Inr rq) \<and>
    rpc_dispatch X S H channel reply rq st = (Some (Inl (MempoolRefused e)), st) \<and>
    CLI_DEFAULT_FEE \<notin> set FEE_TIERS"
proof -
  have "tx_fee tx = fee"
    using build_transfer_shape [OF made] by (simp add: wallet_shape_def)
  then obtain e where "mempool_insert X S (ss_db (rs_store st)) tx (rs_mempool st) = (Inl e, rs_mempool st)"
    using insert_wrong_tier_refused assms(6) by metis
  then have "rpc_send_transaction X S H (hx_encode H (bincode_tx X tx)) st = (Inl (MempoolRefused e), st)"
    by (simp add: rpc_send_transaction_def hex_crate.decode_encode [OF assms(1)] assms(5))
  moreover have "CLI_DEFAULT_FEE \<notin> set FEE_TIERS"
    by (simp add: CLI_DEFAULT_FEE_def FEE_TIERS_def)
  ultimately show ?thesis
    using cmd_send_request [OF assms(1-4)] by (simp add: rpc_dispatch_def)
qed

section \<open>Witnesses\<close>

theorem key_file_restores_witness:
  "\<exists>f. cmd_generate_keys sample_ext plain_hex (\<lambda>_. []) (replicate 32 7) None = Inr f \<and>
     cmd_generate_keys sample_ext plain_hex (\<lambda>_. []) [] (Some (wf_seed f)) = Inr f"
proof -
  obtain f where f: "cmd_generate_keys sample_ext plain_hex (\<lambda>_. []) (replicate 32 7) None = Inr f"
    by (simp add: cmd_generate_keys_def Let_def)
  then show ?thesis
    using key_file_restores [OF plain_hex.hex_crate_axioms _ _ f] by (simp add: sample_ext_def)
qed

text \<open>The builders use no decoder.\<close>

lemma decoder_unused:
  "kdf_note (X\<lparr>bincode_tx_de := d\<rparr>) = kdf_note X" "kdf_outgoing (X\<lparr>bincode_tx_de := d\<rparr>) = kdf_outgoing X"
  "value_commitment (X\<lparr>bincode_tx_de := d\<rparr>) = value_commitment X"
  "note_commitment_of (X\<lparr>bincode_tx_de := d\<rparr>) = note_commitment_of X"
  "to_fvk (X\<lparr>bincode_tx_de := d\<rparr>) = to_fvk X" "dummy_spend (X\<lparr>bincode_tx_de := d\<rparr>) = dummy_spend X"
  "sign_binding (X\<lparr>bincode_tx_de := d\<rparr>) = sign_binding X"
  by (simp_all add: fun_eq_iff kdf_note_def kdf_outgoing_def value_commitment_def note_commitment_of_def to_fvk_def
      key_prf_def dummy_spend_def sign_binding_def create_binding_sig_def binding_message_def)

lemma build_transfer_decoder [simp]:
  "build_transfer (X\<lparr>bincode_tx_de := d\<rparr>) K N r now sk rcp amount fee mock =
     build_transfer X K N r now sk rcp amount fee mock"
  unfolding build_transfer_def encrypt_note_def decoder_unused ..

lemma sample_built:
  "\<exists>tx. build_transfer X sample_crypto counting_nova r now sk rcp amount fee mock = Some (Inr tx)"
proof -
  obtain bs where bs: "spend_proof counting_nova mock = Some bs"
    using sample_spend_proof by blast
  obtain eo where eo: "encrypt_note X sample_crypto (wr_esk r)
      \<lparr>note_value = amount, note_rcm = wr_rcm r, note_rho = wr_rho r,
       note_pk_d = pa_pk_d rcp, note_diversifier = pa_diversifier rcp\<rparr>
      (pa_pk_d rcp) (fvk_ovk (to_fvk X sk)) = Some eo"
    by (simp add: encrypt_note_def chacha20_encrypt_def sample_crypto_def Let_def)
  then show ?thesis
    by (simp add: build_transfer_def Let_def bs)
qed

theorem cli_fee_outside_tiers_refused_witness:
  "\<exists>X rq e. cmd_send X sample_crypto counting_nova plain_hex sample_rand 900 (hx_encode plain_hex (replicate 32 2)) 5 CLI_DEFAULT_FEE
       (hx_encode plain_hex (replicate 32 1)) = Some (Inr rq) \<and>
     rpc_dispatch X mem_sled plain_hex 0 None rq (sample_rpc genesis_store) =
       (Some (Inl (MempoolRefused e)), sample_rpc genesis_store)"
proof -
  let ?rcp = "\<lparr>pa_diversifier = replicate 11 0, pa_pk_d = replicate 32 2\<rparr>"
  obtain tx where tx: "build_transfer sample_ext sample_crypto counting_nova sample_rand 900 (replicate 32 1)
      ?rcp 5 CLI_DEFAULT_FEE (5 + CLI_DEFAULT_FEE) = Some (Inr tx)"
    using sample_built by blast
  let ?X = "sample_ext\<lparr>bincode_tx_de := (\<lambda>_. Some tx)\<rparr>"
  have "build_transfer ?X sample_crypto counting_nova sample_rand 900 (replicate 32 1)
      ?rcp 5 CLI_DEFAULT_FEE (5 + CLI_DEFAULT_FEE) = Some (Inr tx)"
    using tx by simp
  from cli_fee_outside_tiers_refused [OF plain_hex.hex_crate_axioms _ _ this, of mem_sled 0 None "sample_rpc genesis_store"]
  show ?thesis
    by (simp add: CLI_DEFAULT_FEE_def FEE_TIERS_def) blast
qed

end
