(* ===== verification/Node.thy ===== *)
theory Node
  imports Engine_Rounds Growth Cli
begin

text \<open>
  The node program (src/bin/noirnet-node/src/main.rs): the tasks it starts and the state they
  share. The store, the mempool and the command queues are the ones inside the engine; the
  channels from the network are unbounded queues. Every action of a task is one step: a gossip
  or sync event, a network command, one insertion of the mempool task, one RPC request, one turn
  of the engine, one tick of the pruning task. The order of the steps is arbitrary. In the
  program several insertions into the mempool can be under way at once; theory
  \<open>Node_Threads\<close> takes them apart.
\<close>

section \<open>State\<close>

record 'db node =
  no_round :: round_vars
  no_engine :: "'db engine"
  no_mempool_rx :: "transaction list"
  no_block_rx :: "block list"
  no_vote_rx :: "vote list"
  no_sync_req_rx :: "(peer_id \<times> sync_request \<times> channel_id) list"
  no_sync_res_rx :: "(peer_id \<times> sync_response) list"

text \<open>
  The start: on \<open>--devnet\<close> the node validates under the fixed identifier of 32 ones with a fresh
  key. The engine is at the beginning of its first height; \<open>None\<close> is a panic on the way.
\<close>

definition node_start ::
  "'db node_env \<Rightarrow> 'db state_store \<Rightarrow> bool \<Rightarrow> bytes \<Rightarrow> u64 \<Rightarrow> 'db node option" where
  "node_start E store devnet bls_sk now =
     (let validator_data = (if devnet then Some (replicate 32 1, bls_sk) else None);
          consensus = engine_new store mempool_new validator_data \<lparr>ps_high = [], ps_low = []\<rparr>
      in map_option (\<lambda>(rv, en). \<lparr>no_round = rv, no_engine = en, no_mempool_rx = [], no_block_rx = [],
           no_vote_rx = [], no_sync_req_rx = [], no_sync_res_rx = []\<rparr>) (begin_height E now consensus))"

section \<open>The tasks\<close>

text \<open>The network service puts what it received into the channels.\<close>

fun deliver :: "node_message \<Rightarrow> 'db node \<Rightarrow> 'db node" where
  "deliver (ToMempool tx) nd = nd\<lparr>no_mempool_rx := no_mempool_rx nd @ [tx]\<rparr>"
| "deliver (ToConsensus b) nd = nd\<lparr>no_block_rx := no_block_rx nd @ [b]\<rparr>"
| "deliver (ToVotes v) nd = nd\<lparr>no_vote_rx := no_vote_rx nd @ [v]\<rparr>"
| "deliver (ToSyncRequests p req ch) nd = nd\<lparr>no_sync_req_rx := no_sync_req_rx nd @ [(p, req, ch)]\<rparr>"
| "deliver (ToSyncResponses p res) nd = nd\<lparr>no_sync_res_rx := no_sync_res_rx nd @ [(p, res)]\<rparr>"

text \<open>The mempool task; the result of the insertion is only logged.\<close>

definition mempool_task :: "'db node_env \<Rightarrow> 'db node \<Rightarrow> 'db node option" where
  "mempool_task E nd =
     (case no_mempool_rx nd of
        [] \<Rightarrow> None
      | tx # rest \<Rightarrow>
          (let en = no_engine nd;
               pool = snd (mempool_insert (nd_ext E) (nd_sled E) (ss_db (en_store en)) tx (en_pool en))
           in Some (nd\<lparr>no_mempool_rx := rest, no_engine := en\<lparr>en_pool := pool\<rparr>\<rparr>)))"

text \<open>A request to the RPC server, which works on the shared mempool, store and queues.\<close>

definition rpc_task ::
  "'db node_env \<Rightarrow> hex_codec \<Rightarrow> channel_id \<Rightarrow> (usize \<times> bool) option \<Rightarrow> rpc_request \<Rightarrow> 'db node \<Rightarrow> 'db node" where
  "rpc_task E H channel reply rq nd =
     (let en = no_engine nd;
          st = rpc_start ''0.0.0.0:7777'' (en_pool en) (en_store en) (en_out en) True;
          st' = snd (rpc_dispatch (nd_ext E) (nd_sled E) H channel reply rq st)
      in nd\<lparr>no_engine := en\<lparr>en_pool := rs_mempool st', en_store := rs_store st', en_out := rs_network st'\<rparr>\<rparr>)"

text \<open>The background pruning keeps the last 1000 blocks; its result is only logged.\<close>

definition prune_task :: "'db node_env \<Rightarrow> 'db node \<Rightarrow> 'db node" where
  "prune_task E nd =
     (let en = no_engine nd;
          store = snd (on_db (prune_history (nd_ext E) (nd_sled E) 1000) (en_store en))
      in nd\<lparr>no_engine := en\<lparr>en_store := store\<rparr>\<rparr>)"

text \<open>The network service takes the next command; \<open>None\<close> if there is none.\<close>

definition command_task :: "'db node \<Rightarrow> 'db node option" where
  "command_task nd =
     (case service_select ([] :: swarm_event list) (en_out (no_engine nd)) of
        (HandleCommand cmd, _, q) \<Rightarrow> Some (nd\<lparr>no_engine := (no_engine nd)\<lparr>en_out := q\<rparr>\<rparr>)
      | _ \<Rightarrow> None)"

text \<open>
  The arm of the engine's \<open>select!\<close> that is taken, with the random peer of the block arm; an arm
  on an empty channel is not ready.
\<close>

datatype engine_arm = BlockArm peer_id | VoteArm | SyncRequestArm | SyncResponseArm | TimeoutArm

fun receive :: "engine_arm \<Rightarrow> 'db node \<Rightarrow> (engine_event \<times> 'db node) option" where
  "receive (BlockArm peer) nd =
     (case no_block_rx nd of [] \<Rightarrow> None | b # bs \<Rightarrow> Some (BlockArrived peer b, nd\<lparr>no_block_rx := bs\<rparr>))"
| "receive VoteArm nd =
     (case no_vote_rx nd of [] \<Rightarrow> None | v # vs \<Rightarrow> Some (VoteArrived v, nd\<lparr>no_vote_rx := vs\<rparr>))"
| "receive SyncRequestArm nd =
     (case no_sync_req_rx nd of [] \<Rightarrow> None
      | (p, req, ch) # rest \<Rightarrow> Some (SyncRequested p req ch, nd\<lparr>no_sync_req_rx := rest\<rparr>))"
| "receive SyncResponseArm nd =
     (case no_sync_res_rx nd of [] \<Rightarrow> None
      | (p, res) # rest \<Rightarrow> Some (SyncAnswered p res, nd\<lparr>no_sync_res_rx := rest\<rparr>))"
| "receive TimeoutArm nd = Some (RoundTimeout, nd)"

definition engine_task :: "'db node_env \<Rightarrow> u64 \<Rightarrow> engine_arm \<Rightarrow> 'db node \<Rightarrow> 'db node option" where
  "engine_task E now arm nd =
     (case receive arm nd of
        None \<Rightarrow> None
      | Some (ev, nd') \<Rightarrow>
          map_option (\<lambda>(rv, en). nd'\<lparr>no_round := rv, no_engine := en\<rparr>)
            (engine_run_step E now ev (no_round nd', no_engine nd')))"

section \<open>Runs of a node\<close>

text \<open>The steps of the program; \<open>C\<close> is the decoder of gossip messages, \<open>H\<close> the hex codec.\<close>

inductive node_step :: "'db node_env \<Rightarrow> limited_codec \<Rightarrow> hex_codec \<Rightarrow> 'db node \<Rightarrow> 'db node \<Rightarrow> bool"
  for E C H
where
  Gossip: "node_step E C H nd (fold deliver (handle_swarm_event C ev) nd)"
| Command: "command_task nd = Some nd' \<Longrightarrow> node_step E C H nd nd'"
| Insert: "mempool_task E nd = Some nd' \<Longrightarrow> node_step E C H nd nd'"
| Request: "node_step E C H nd (rpc_task E H channel reply rq nd)"
| Prune: "node_step E C H nd (prune_task E nd)"
| Engine: "engine_task E now arm nd = Some nd' \<Longrightarrow> node_step E C H nd nd'"

abbreviation node_run :: "'db node_env \<Rightarrow> limited_codec \<Rightarrow> hex_codec \<Rightarrow> 'db node \<Rightarrow> 'db node \<Rightarrow> bool" where
  "node_run E C H \<equiv> (node_step E C H)\<^sup>*\<^sup>*"

lemma deliver_engine [simp]: "no_engine (fold deliver ms nd) = no_engine nd"
proof (induction ms arbitrary: nd)
  case (Cons m ms)
  have "no_engine (deliver m nd) = no_engine nd"
    by (cases m) simp_all
  then show ?case
    by (simp add: Cons.IH)
qed simp

lemma receive_engine: "receive arm nd = Some (ev, nd') \<Longrightarrow> no_engine nd' = no_engine nd"
  by (cases arm) (auto split: list.splits)

lemma send_transaction_shared:
  "rs_store (snd (rpc_send_transaction X S H h st)) = rs_store st"
  "rs_mempool (snd (rpc_send_transaction X S H h st)) = rs_mempool st \<or>
   (\<exists>tx. rs_mempool (snd (rpc_send_transaction X S H h st)) =
      snd (mempool_insert X S (ss_db (rs_store st)) tx (rs_mempool st)))"
  by (auto simp: rpc_send_transaction_def network_send_def split: sum.splits option.splits prod.splits)
    (metis snd_conv)+

lemma rpc_dispatch_shared:
  "rs_store (snd (rpc_dispatch X S H channel reply rq st)) = rs_store st"
  "rs_mempool (snd (rpc_dispatch X S H channel reply rq st)) = rs_mempool st \<or>
   (\<exists>tx. rs_mempool (snd (rpc_dispatch X S H channel reply rq st)) =
      snd (mempool_insert X S (ss_db (rs_store st)) tx (rs_mempool st)))"
proof -
  have status: "rs_store (snd (rpc_get_sync_status S channel reply st)) = rs_store st"
      "rs_mempool (snd (rpc_get_sync_status S channel reply st)) = rs_mempool st"
    by (auto simp: rpc_get_sync_status_def network_send_def split: option.splits)
  show "rs_store (snd (rpc_dispatch X S H channel reply rq st)) = rs_store st"
    using status(1) send_transaction_shared(1) by (auto simp: rpc_dispatch_def split_beta)
  show "rs_mempool (snd (rpc_dispatch X S H channel reply rq st)) = rs_mempool st \<or>
   (\<exists>tx. rs_mempool (snd (rpc_dispatch X S H channel reply rq st)) =
      snd (mempool_insert X S (ss_db (rs_store st)) tx (rs_mempool st)))"
    using status(2) send_transaction_shared(2) [of X S H "rq_params rq ! 0" st]
    by (auto simp: rpc_dispatch_def split_beta)
qed

text \<open>No task forgets a spent nullifier.\<close>

lemma node_step_spent:
  assumes "sled_db (nd_sled E)" "node_step E C H nd nd'"
  shows "store_spent (nd_sled E) (en_store (no_engine nd)) \<subseteq> store_spent (nd_sled E) (en_store (no_engine nd'))"
  using assms(2)
proof cases
  case (Command)
  then show ?thesis
    by (auto simp: command_task_def split: prod.splits service_turn.splits)
next
  case Insert
  then show ?thesis
    by (auto simp: mempool_task_def Let_def split: list.splits)
next
  case (Request channel reply rq)
  then show ?thesis
    by (simp add: rpc_task_def Let_def rpc_dispatch_shared(1) rpc_start_def)
next
  case Prune
  then show ?thesis
    using grows_at [OF sled_db.grows_prune_history [OF assms(1)]]
    by (simp add: prune_task_def Let_def)
next
  case (Engine now arm)
  then obtain ev nd1 rv en where "receive arm nd = Some (ev, nd1)"
      "engine_run_step E now ev (no_round nd1, no_engine nd1) = Some (rv, en)" "no_engine nd' = en"
    by (auto simp: engine_task_def split: option.splits)
  then show ?thesis
    using evolves_run_step [OF assms(1)] receive_engine unfolding evolves_def by metis
qed simp

lemma node_run_spent:
  assumes "sled_db (nd_sled E)" "node_run E C H nd nd'"
  shows "store_spent (nd_sled E) (en_store (no_engine nd)) \<subseteq> store_spent (nd_sled E) (en_store (no_engine nd'))"
  using assms(2) by induction (use node_step_spent [OF assms(1)] in blast)+

section \<open>Properties\<close>

text \<open>
  C2: spent stays spent, across all tasks. Once a nullifier is recorded in the database of a
  running node, then after any further steps in any order - gossip, RPC calls, consensus turns,
  downloads, pruning - it is still recorded, a transaction that spends it is refused by the
  mempool, and no block that contains it is accepted by the store, with whatever contract changes.
\<close>

theorem spent_stays_spent:
  assumes "sled_db (nd_sled E)" "node_run E C H nd nd'"
    and "nullifier_contains (nd_sled E) nf (ss_db (en_store (no_engine nd))) = Inr True"
    and "en' = no_engine nd'"
  shows "nullifier_contains (nd_sled E) nf (ss_db (en_store en')) = Inr True \<and>
    (nf \<in> set (tx_nullifiers tx) \<longrightarrow>
       (\<exists>e. mempool_insert (nd_ext E) (nd_sled E) (ss_db (en_store en')) tx (en_pool en') = (Inl e, en_pool en'))) \<and>
    (nf \<in> set (block_nullifiers b) \<longrightarrow>
       (\<exists>e. fst (apply_block (nd_ext E) (nd_sled E) b changes contracts (en_store en')) = Inl e))"
proof -
  have spent: "nf \<in> store_spent (nd_sled E) (en_store en')"
    using node_run_spent [OF assms(1,2)] assms(3)
    by (auto simp: assms(4) db_spent_def sled_db.nullifier_contains_eq [OF assms(1)])
  then have "nullifier_contains (nd_sled E) nf (ss_db (en_store en')) = Inr True"
    by (auto simp: db_spent_def sled_db.nullifier_contains_eq [OF assms(1)])
  then show ?thesis
    using sled_db.insert_refuses_spent [OF assms(1) spent] sled_db.apply_block_refuses_spent [OF assms(1) spent]
    by blast
qed

section \<open>Witnesses\<close>

definition sample_running :: "mem_db node" where
  "sample_running = \<lparr>no_round = first_round, no_engine = observer\<lparr>en_store := genesis_store\<rparr>, no_mempool_rx = [],
     no_block_rx = [], no_vote_rx = [], no_sync_req_rx = [], no_sync_res_rx = []\<rparr>"

lemma genesis_spent: "nullifier_contains mem_sled (replicate 32 1) (ss_db genesis_store) = Inr True"
proof -
  have "replicate 32 1 \<in> db_spent mem_sled (ss_db genesis_store)"
    using genesis_represents by (simp add: represents_def genesis_ledger_simps)
  then show ?thesis
    by (auto simp: mem.nullifier_contains_eq db_spent_def)
qed

theorem spent_stays_spent_witness:
  "nullifier_contains mem_sled (replicate 32 1) (ss_db (en_store (no_engine (prune_task sample_node sample_running)))) = Inr True \<and>
   (\<exists>e. fst (apply_block sample_codec mem_sled (sample_block 1 [sample_tx 1]) [] []
      (en_store (no_engine (prune_task sample_node sample_running)))) = Inl e)"
proof -
  have "node_run sample_node sample_gossip_codec plain_hex sample_running (prune_task sample_node sample_running)"
    by (intro r_into_rtranclp node_step.Prune)
  from spent_stays_spent [OF _ this _ refl, of "replicate 32 1" "sample_tx 1" "sample_block 1 [sample_tx 1]" "[]" "[]"]
  show ?thesis
    using genesis_spent by (simp add: sample_running_def sample_node_def mem.sled_db_axioms sample_block_lists)
qed

end
