(* ===== verification/Pool_Threads.thy ===== *)
theory Pool_Threads
  imports Mempool
begin

text \<open>
  The mempool under concurrency. \<open>PrivateMempool\<close> takes \<open>&self\<close>: the gossip task, the RPC
  handlers and the engine call it at the same time from the worker threads of the runtime, and
  what is atomic is one operation of a \<open>DashMap\<close> or one read of the database, not a call. Here
  \<open>insert\<close> and \<open>remove_mined\<close> (crates/noirnet-mempool/src/pool.rs) are sequences of such steps,
  which a step relation interleaves. Run alone they are the operations of \<open>Mempool\<close>.
  One coarser step is left: the length of a \<open>DashMap\<close> is taken as one reading, where the library
  adds up the lengths of its shards one after the other.
\<close>

section \<open>The steps of one call\<close>

text \<open>
  Where a call to \<open>insert\<close> is: before the size test, before the duplicate test, before the
  database or the reservation test of the first of the remaining spends, before the next
  reservation, before the transaction is stored.
\<close>

datatype insert_pc =
    At_Len
  | At_Known
  | At_Db "hash32 list"
  | At_Pending "hash32 list"
  | At_Reserve "hash32 list"
  | At_Store
  | Returned "mempool_error + unit"

definition check_from :: "transaction \<Rightarrow> hash32 list \<Rightarrow> insert_pc" where
  "check_from tx nfs = (if nfs = [] then
     (if tx_nullifiers tx = [] then At_Store else At_Reserve (tx_nullifiers tx)) else At_Db nfs)"

fun insert_step :: "ext \<Rightarrow> 'db sled \<Rightarrow> 'db \<Rightarrow> transaction \<Rightarrow> insert_pc \<Rightarrow> mempool \<Rightarrow> insert_pc \<times> mempool" where
  "insert_step X S db tx At_Len p =
     (if length (mp_txs p) \<ge> MAX_MEMPOOL_SIZE then Returned (Inl Full) else At_Known, p)"
| "insert_step X S db tx At_Known p =
     (if map_of (mp_txs p) (tx_id_of X tx) \<noteq> None then Returned (Inl AlreadyExists)
      else case validate_format X tx of
        Inl e \<Rightarrow> Returned (Inl (InvalidFormat e))
      | Inr _ \<Rightarrow>
          if tx_fee tx < MIN_FEE then Returned (Inl (PoolFeeTooLow MIN_FEE))
          else check_from tx (tx_nullifiers tx), p)"
| "insert_step X S db tx (At_Db nfs) p =
     (if unwrap_or (nullifier_contains S (hd nfs) db) True then Returned (Inl AlreadySpent)
      else At_Pending nfs, p)"
| "insert_step X S db tx (At_Pending nfs) p =
     (if mp_pending p (hd nfs) \<noteq> None then Returned (Inl PoolDoubleSpend)
      else check_from tx (tl nfs), p)"
| "insert_step X S db tx (At_Reserve nfs) p =
     (if tl nfs = [] then At_Store else At_Reserve (tl nfs),
      p\<lparr>mp_pending := (mp_pending p)(hd nfs \<mapsto> tx_id_of X tx)\<rparr>)"
| "insert_step X S db tx At_Store p = (Returned (Inr ()), p\<lparr>mp_txs := AList.update (tx_id_of X tx) tx (mp_txs p)\<rparr>)"
| "insert_step X S db tx (Returned r) p = (Returned r, p)"

text \<open>
  Where a call to \<open>remove_mined\<close> is: before the removal of the first remaining transaction, or
  before the release of the first of its remaining nullifiers.
\<close>

datatype remove_pc =
    At_Remove "transaction list"
  | At_Release "hash32 list" "transaction list"

definition release_from :: "hash32 list \<Rightarrow> transaction list \<Rightarrow> remove_pc" where
  "release_from nfs txs = (if nfs = [] then At_Remove txs else At_Release nfs txs)"

fun remove_step :: "ext \<Rightarrow> remove_pc \<Rightarrow> mempool \<Rightarrow> remove_pc \<times> mempool" where
  "remove_step X (At_Remove []) p = (At_Remove [], p)"
| "remove_step X (At_Remove (tx # txs)) p =
     (release_from (tx_nullifiers tx) txs, p\<lparr>mp_txs := AList.delete (tx_id_of X tx) (mp_txs p)\<rparr>)"
| "remove_step X (At_Release nfs txs) p =
     (release_from (tl nfs) txs, p\<lparr>mp_pending := (mp_pending p)(hd nfs := None)\<rparr>)"

section \<open>Interleaving\<close>

datatype pool_call = Insert transaction insert_pc | Remove remove_pc

fun call_step :: "ext \<Rightarrow> 'db sled \<Rightarrow> 'db \<Rightarrow> pool_call \<Rightarrow> mempool \<Rightarrow> pool_call \<times> mempool" where
  "call_step X S db (Insert tx pc) p = apfst (Insert tx) (insert_step X S db tx pc p)"
| "call_step X S db (Remove pc) p = apfst Remove (remove_step X pc p)"

text \<open>A call occupies a worker thread from its first step until it returns.\<close>

fun in_flight :: "pool_call \<Rightarrow> bool" where
  "in_flight (Insert tx pc) \<longleftrightarrow> pc \<noteq> At_Len \<and> (\<forall>r. pc \<noteq> Returned r)"
| "in_flight (Remove pc) \<longleftrightarrow> False"

record 'db pool_system =
  ps_db :: 'db
  ps_pool :: mempool
  ps_calls :: "pool_call list"

text \<open>
  Any call takes its next step, provided a new insertion finds one of the \<open>W\<close> worker threads
  free; or the engine writes to the database.
\<close>

inductive pool_step :: "ext \<Rightarrow> 'db sled \<Rightarrow> nat \<Rightarrow> 'db pool_system \<Rightarrow> 'db pool_system \<Rightarrow> bool" for X S W where
  Step: "i < length (ps_calls s) \<Longrightarrow> call_step X S (ps_db s) (ps_calls s ! i) (ps_pool s) = (c, p) \<Longrightarrow>
    length (filter in_flight ((ps_calls s)[i := c])) \<le> W \<Longrightarrow>
    pool_step X S W s (s\<lparr>ps_pool := p, ps_calls := (ps_calls s)[i := c]\<rparr>)"
| Database: "pool_step X S W s (s\<lparr>ps_db := db\<rparr>)"

inductive_cases pool_stepE: "pool_step X S W s s'"

definition pool_runs :: "ext \<Rightarrow> 'db sled \<Rightarrow> nat \<Rightarrow> 'db pool_system \<Rightarrow> 'db pool_system \<Rightarrow> bool" where
  "pool_runs X S W = (pool_step X S W)\<^sup>*\<^sup>*"

section \<open>A call that is not interrupted\<close>

text \<open>How many steps a call to \<open>insert\<close> has left at most.\<close>

fun insert_work :: "transaction \<Rightarrow> insert_pc \<Rightarrow> nat" where
  "insert_work tx At_Len = 3 * length (tx_nullifiers tx) + 3"
| "insert_work tx At_Known = 3 * length (tx_nullifiers tx) + 2"
| "insert_work tx (At_Db nfs) = 2 * length nfs + length (tx_nullifiers tx) + 1"
| "insert_work tx (At_Pending nfs) = 2 * length nfs + length (tx_nullifiers tx)"
| "insert_work tx (At_Reserve nfs) = length nfs + 1"
| "insert_work tx At_Store = 1"
| "insert_work tx (Returned r) = 0"

text \<open>Positions that occur: the lists are not empty.\<close>

fun pc_ok :: "insert_pc \<Rightarrow> bool" where
  "pc_ok (At_Db nfs) \<longleftrightarrow> nfs \<noteq> []"
| "pc_ok (At_Pending nfs) \<longleftrightarrow> nfs \<noteq> []"
| "pc_ok (At_Reserve nfs) \<longleftrightarrow> nfs \<noteq> []"
| "pc_ok _ \<longleftrightarrow> True"

lemma check_from_work: "insert_work tx (check_from tx nfs) \<le> 2 * length nfs + length (tx_nullifiers tx) + 1"
  by (simp add: check_from_def)

lemma check_from_ok: "pc_ok (check_from tx nfs)"
  by (simp add: check_from_def)

lemma insert_step_progress:
  assumes "pc_ok pc" "insert_step X S db tx pc p = (pc', p')"
  shows "pc_ok pc'" "insert_work tx pc' \<le> insert_work tx pc - 1"
  using assms check_from_work [of tx "tx_nullifiers tx"]
  by (cases pc; auto simp: check_from_ok split: if_splits sum.splits;
      fastforce simp: neq_Nil_conv intro: order_trans [OF check_from_work])+

definition insert_steps :: "ext \<Rightarrow> 'db sled \<Rightarrow> 'db \<Rightarrow> transaction \<Rightarrow> nat \<Rightarrow> insert_pc \<times> mempool \<Rightarrow> insert_pc \<times> mempool" where
  "insert_steps X S db tx n = (\<lambda>(pc, p). insert_step X S db tx pc p) ^^ n"

lemma insert_steps_add: "insert_steps X S db tx (m + n) s = insert_steps X S db tx m (insert_steps X S db tx n s)"
  by (simp add: insert_steps_def funpow_add)

lemma insert_steps_Suc: "insert_steps X S db tx (Suc n) (pc, p) = insert_steps X S db tx n (insert_step X S db tx pc p)"
  by (simp add: insert_steps_def funpow_swap1)

lemma insert_steps_0: "insert_steps X S db tx 0 s = s"
  by (simp add: insert_steps_def)

lemma insert_steps_Returned: "insert_steps X S db tx n (Returned r, p) = (Returned r, p)"
  by (induction n) (simp_all add: insert_steps_0 insert_steps_Suc)

lemma insert_steps_return:
  assumes "pc_ok pc" "insert_work tx pc \<le> n"
  shows "\<exists>r p'. insert_steps X S db tx n (pc, p) = (Returned r, p')"
  using assms
proof (induction n arbitrary: pc p)
  case 0
  then show ?case
    by (cases pc) (simp_all add: insert_steps_0)
next
  case (Suc n)
  obtain pc' p' where step: "insert_step X S db tx pc p = (pc', p')"
    by fastforce
  have "pc_ok pc'" "insert_work tx pc' \<le> n"
    using insert_step_progress [OF Suc.prems(1) step] Suc.prems(2) by simp_all
  then show ?case
    using Suc.IH [of pc' p'] by (simp add: insert_steps_Suc step)
qed

text \<open>What some number of steps returns, every sufficient number of steps returns.\<close>

lemma insert_steps_settle:
  assumes "pc_ok pc" "insert_work tx pc \<le> n" "insert_steps X S db tx m (pc, p) = (Returned r, p')"
  shows "insert_steps X S db tx n (pc, p) = (Returned r, p')"
proof -
  obtain r' p'' where n: "insert_steps X S db tx n (pc, p) = (Returned r', p'')"
    using insert_steps_return [OF assms(1,2), of X S db p] by (elim exE)
  have "insert_steps X S db tx (m + n) (pc, p) = (Returned r', p'')"
    by (simp add: insert_steps_add n insert_steps_Returned)
  moreover have "insert_steps X S db tx (n + m) (pc, p) = (Returned r, p')"
    by (simp add: insert_steps_add assms(3) insert_steps_Returned)
  ultimately show ?thesis
    using n by (simp add: add.commute)
qed

lemma reserve_alone:
  assumes "nfs \<noteq> []"
  shows "insert_steps X S db tx (length nfs) (At_Reserve nfs, p) =
    (At_Store, p\<lparr>mp_pending := fold (\<lambda>nf m. m(nf \<mapsto> tx_id_of X tx)) nfs (mp_pending p)\<rparr>)"
  using assms
proof (induction nfs arbitrary: p rule: list_nonempty_induct)
  case (single nf)
  then show ?case
    by (simp add: insert_steps_Suc insert_steps_0 fun_upd_def)
next
  case (cons nf nfs)
  then show ?case
    by (simp add: insert_steps_Suc)
qed

lemma checks_alone:
  "\<exists>n. insert_steps X S db tx n (check_from tx nfs, p) =
    (case check_spends S db p nfs of Inl e \<Rightarrow> Returned (Inl e) | Inr _ \<Rightarrow> check_from tx [], p)"
proof (induction nfs)
  case Nil
  show ?case
    by (rule exI [of _ 0]) (simp add: insert_steps_0)
next
  case (Cons nf nfs)
  have here: "check_from tx (nf # nfs) = At_Db (nf # nfs)"
    by (simp add: check_from_def)
  show ?case
  proof (cases "unwrap_or (nullifier_contains S nf db) True \<or> mp_pending p nf \<noteq> None")
    case True
    then show ?thesis
      unfolding here
      by (intro exI [of _ "Suc (Suc 0)"]) (auto simp: insert_steps_Suc insert_steps_0)
  next
    case False
    obtain n where "insert_steps X S db tx n (check_from tx nfs, p) =
        (case check_spends S db p nfs of Inl e \<Rightarrow> Returned (Inl e) | Inr _ \<Rightarrow> check_from tx [], p)"
      using Cons by blast
    then show ?thesis
      unfolding here using False
      by (intro exI [of _ "Suc (Suc n)"]) (simp add: insert_steps_Suc)
  qed
qed

lemma store_alone:
  "\<exists>n. insert_steps X S db tx n (check_from tx [], p) =
    (Returned (Inr ()), p\<lparr>mp_pending := fold (\<lambda>nf m. m(nf \<mapsto> tx_id_of X tx)) (tx_nullifiers tx) (mp_pending p),
       mp_txs := AList.update (tx_id_of X tx) tx (mp_txs p)\<rparr>)"
proof (cases "tx_nullifiers tx = []")
  case True
  then show ?thesis
    by (intro exI [of _ "Suc 0"]) (simp add: check_from_def insert_steps_Suc insert_steps_0)
next
  case False
  then show ?thesis
    by (intro exI [of _ "Suc 0 + length (tx_nullifiers tx)"])
      (simp add: check_from_def insert_steps_add reserve_alone insert_steps_Suc insert_steps_0 del: plus_nat.add_Suc)
qed

lemma insert_alone_some:
  "\<exists>n. insert_steps X S db tx n (At_Len, p) =
    (Returned (fst (mempool_insert X S db tx p)), snd (mempool_insert X S db tx p))"
proof (cases "length (mp_txs p) \<ge> MAX_MEMPOOL_SIZE \<or> map_of (mp_txs p) (tx_id_of X tx) \<noteq> None \<or>
    (\<exists>e. validate_format X tx = Inl e) \<or> tx_fee tx < MIN_FEE")
  case True
  then show ?thesis
    by (intro exI [of _ "Suc (Suc 0)"])
      (auto simp: insert_steps_Suc insert_steps_0 insert_steps_Returned mempool_insert_def Let_def split: sum.split)
next
  case False
  then have start: "insert_steps X S db tx (Suc (Suc n)) (At_Len, p) = insert_steps X S db tx n (check_from tx (tx_nullifiers tx), p)" for n
    by (auto simp: insert_steps_Suc split: sum.split)
  obtain n where n: "insert_steps X S db tx n (check_from tx (tx_nullifiers tx), p) =
        (case check_spends S db p (tx_nullifiers tx) of Inl e \<Rightarrow> Returned (Inl e) | Inr _ \<Rightarrow> check_from tx [], p)"
    using checks_alone [of X S db tx "tx_nullifiers tx" p] by (elim exE)
  obtain m where m: "insert_steps X S db tx m (check_from tx [], p) =
    (Returned (Inr ()), p\<lparr>mp_pending := fold (\<lambda>nf m. m(nf \<mapsto> tx_id_of X tx)) (tx_nullifiers tx) (mp_pending p),
       mp_txs := AList.update (tx_id_of X tx) tx (mp_txs p)\<rparr>)"
    using store_alone [of X S db tx p] by (elim exE)
  obtain u where fmt: "validate_format X tx = Inr u"
    using False by (cases "validate_format X tx") auto
  show ?thesis
  proof (cases "check_spends S db p (tx_nullifiers tx)")
    case (Inl e)
    then show ?thesis
      using start [of n] n False fmt by (intro exI [of _ "Suc (Suc n)"]) (simp add: mempool_insert_def Let_def)
  next
    case (Inr v)
    then have "insert_steps X S db tx (m + Suc (Suc n)) (At_Len, p) = insert_steps X S db tx m (check_from tx [], p)"
      using start [of n] n by (simp only: insert_steps_add) simp
    then show ?thesis
      using m Inr False fmt by (intro exI [of _ "m + Suc (Suc n)"]) (simp add: mempool_insert_def Let_def)
  qed
qed

text \<open>
  The steps of a call among those of other threads: before each of its steps the others have left
  some database and some pool.
\<close>

definition insert_among :: "ext \<Rightarrow> 'db sled \<Rightarrow> transaction \<Rightarrow> ('db \<times> mempool) list \<Rightarrow> insert_pc \<Rightarrow> insert_pc" where
  "insert_among X S tx found = fold (\<lambda>(db, p) pc. fst (insert_step X S db tx pc p)) found"

lemma insert_among_progress:
  assumes "pc_ok pc"
  shows "pc_ok (insert_among X S tx found pc) \<and>
    insert_work tx (insert_among X S tx found pc) \<le> insert_work tx pc - length found"
  using assms
proof (induction found arbitrary: pc)
  case (Cons env found)
  obtain db p pc' p' where env: "env = (db, p)" and step: "insert_step X S db tx pc p = (pc', p')"
    by (metis surj_pair)
  have "insert_among X S tx (env # found) pc = insert_among X S tx found pc'"
    by (simp add: insert_among_def env step)
  then show ?case
    using insert_step_progress [OF Cons.prems step] Cons.IH [of pc'] by auto
qed (simp add: insert_among_def)

lemma insert_work_0: "pc_ok pc \<Longrightarrow> insert_work tx pc = 0 \<Longrightarrow> \<exists>r. pc = Returned r"
  by (cases pc) simp_all

text \<open>
  C18: a call to \<open>insert\<close> has returned after 3k + 3 of its own steps for k spends, whatever
  database and pool the other threads leave it before each of them, and if nobody interferes it
  does exactly what the one-step operation does: same answer, same pool.
\<close>

theorem insert_alone_is_atomic:
  assumes "3 * length (tx_spends tx) + 3 \<le> n"
  shows "insert_steps X S db tx n (At_Len, p) =
      (Returned (fst (mempool_insert X S db tx p)), snd (mempool_insert X S db tx p)) \<and>
    (\<forall>found. length found = n \<longrightarrow> (\<exists>r. insert_among X S tx found At_Len = Returned r))"
proof (intro conjI allI impI)
  obtain m where m: "insert_steps X S db tx m (At_Len, p) =
      (Returned (fst (mempool_insert X S db tx p)), snd (mempool_insert X S db tx p))"
    using insert_alone_some [of X S db tx p] by (elim exE)
  show "insert_steps X S db tx n (At_Len, p) =
      (Returned (fst (mempool_insert X S db tx p)), snd (mempool_insert X S db tx p))"
    by (rule insert_steps_settle [OF _ _ m]) (use assms in \<open>simp_all add: tx_nullifiers_def\<close>)
  fix found :: "('a \<times> mempool) list"
  assume "length found = n"
  then have "insert_work tx (insert_among X S tx found At_Len) = 0" "pc_ok (insert_among X S tx found At_Len)"
    using assms insert_among_progress [of At_Len X S tx found] by (simp_all add: tx_nullifiers_def)
  then show "\<exists>r. insert_among X S tx found At_Len = Returned r"
    by (intro insert_work_0)
qed

theorem insert_alone_is_atomic_witness:
  "fst (insert_steps sample_ext mem_sled mem_empty (sample_tx 1) 6 (At_Len, mempool_new)) =
      Returned (fst (mempool_insert sample_ext mem_sled mem_empty (sample_tx 1) mempool_new)) \<and>
    (\<exists>r. insert_among sample_ext mem_sled (sample_tx 1) (replicate 6 (mem_empty, mempool_new)) At_Len = Returned r)"
  using insert_alone_is_atomic [of "sample_tx 1" 6 sample_ext mem_sled mem_empty mempool_new]
  by (simp add: sample_tx_def)

text \<open>The same for \<open>remove_mined\<close>.\<close>

definition remove_steps :: "ext \<Rightarrow> nat \<Rightarrow> remove_pc \<times> mempool \<Rightarrow> remove_pc \<times> mempool" where
  "remove_steps X n = (\<lambda>(pc, p). remove_step X pc p) ^^ n"

lemma remove_steps_add: "remove_steps X (m + n) s = remove_steps X m (remove_steps X n s)"
  by (simp add: remove_steps_def funpow_add)

lemma remove_steps_simps:
  "remove_steps X 0 s = s" "remove_steps X (Suc n) (pc, p) = remove_steps X n (remove_step X pc p)"
  by (simp_all add: remove_steps_def funpow_swap1)

lemma release_alone:
  "remove_steps X (length nfs) (release_from nfs txs, p) =
    (At_Remove txs, p\<lparr>mp_pending := fold (\<lambda>nf m. m(nf := None)) nfs (mp_pending p)\<rparr>)"
  by (induction nfs arbitrary: p) (simp_all add: release_from_def remove_steps_simps)

theorem remove_alone_is_atomic:
  "remove_steps X (length txs + length (concat (map tx_nullifiers txs))) (At_Remove txs, p) =
    (At_Remove [], remove_mined X txs p)"
proof (induction txs arbitrary: p)
  case Nil
  show ?case by (simp add: remove_steps_simps remove_mined_def)
next
  case (Cons tx txs)
  let ?rest = "length txs + length (concat (map tx_nullifiers txs))"
  have split: "length (tx # txs) + length (concat (map tx_nullifiers (tx # txs))) =
      ?rest + Suc (length (tx_nullifiers tx))"
    by simp
  have "remove_steps X (Suc (length (tx_nullifiers tx))) (At_Remove (tx # txs), p) = (At_Remove txs, remove_one X tx p)"
    by (simp add: remove_steps_simps release_alone remove_one_def)
  then show ?case
    unfolding split remove_steps_add [of X ?rest] using Cons.IH by (simp add: remove_mined_def)
qed

section \<open>What holds whatever the interleaving\<close>

text \<open>Past its format check, a call carries a valid transaction.\<close>

fun call_ok :: "ext \<Rightarrow> pool_call \<Rightarrow> bool" where
  "call_ok X (Insert tx pc) \<longleftrightarrow> pc_ok pc \<and>
     (pc = At_Len \<or> pc = At_Known \<or> (\<exists>r. pc = Returned r) \<or> well_formatted X tx)"
| "call_ok X (Remove pc) \<longleftrightarrow> True"

definition valid_pool :: "ext \<Rightarrow> mempool \<Rightarrow> bool" where
  "valid_pool X p \<longleftrightarrow> distinct (map fst (mp_txs p)) \<and>
     (\<forall>(txid, tx) \<in> set (mp_txs p). txid = tx_id_of X tx \<and> well_formatted X tx)"

definition system_ok :: "ext \<Rightarrow> nat \<Rightarrow> 'db pool_system \<Rightarrow> bool" where
  "system_ok X W s \<longleftrightarrow> valid_pool X (ps_pool s) \<and> list_all (call_ok X) (ps_calls s) \<and>
     length (mp_txs (ps_pool s)) + length (filter in_flight (ps_calls s)) < MAX_MEMPOOL_SIZE + W"

lemma mem_update: "(k', v') \<in> set (AList.update k v kvs) \<Longrightarrow> k' = k \<and> v' = v \<or> (k', v') \<in> set kvs"
  by (induction kvs) (auto split: if_splits)

lemma length_update_le: "length (AList.update k v kvs) \<le> Suc (length kvs)"
  by (induction kvs) auto

lemma valid_pool_update:
  "valid_pool X p \<Longrightarrow> well_formatted X tx \<Longrightarrow> valid_pool X (p\<lparr>mp_txs := AList.update (tx_id_of X tx) tx (mp_txs p)\<rparr>)"
  unfolding valid_pool_def by (fastforce simp: distinct_update dest: mem_update)

lemma valid_pool_delete: "valid_pool X p \<Longrightarrow> valid_pool X (p\<lparr>mp_txs := AList.delete k (mp_txs p)\<rparr>)"
  unfolding valid_pool_def by (fastforce simp: distinct_delete mem_delete)

lemma valid_pool_pending [simp]: "valid_pool X (p\<lparr>mp_pending := m\<rparr>) \<longleftrightarrow> valid_pool X p"
  by (simp add: valid_pool_def)

lemma remove_step_ok:
  assumes "valid_pool X p" "remove_step X pc p = (pc', p')"
  shows "valid_pool X p' \<and> length (mp_txs p') \<le> length (mp_txs p)"
proof (cases pc)
  case (At_Remove txs)
  then show ?thesis
    using assms by (cases txs) (auto simp: valid_pool_delete length_delete_le)
qed (use assms in auto)

lemma call_step_ok:
  assumes "valid_pool X p" "call_ok X c" "call_step X S db c p = (c', p')"
  shows "valid_pool X p' \<and> call_ok X c' \<and>
    (length (mp_txs p') + (if in_flight c' then 1 else 0) \<le> length (mp_txs p) + (if in_flight c then 1 else 0) \<or>
     in_flight c' \<and> length (mp_txs p') < MAX_MEMPOOL_SIZE \<and> p' = p)"
proof (cases c)
  case (Remove pc)
  then show ?thesis
    using assms remove_step_ok [of X p pc "fst (remove_step X pc p)" p'] by (cases "remove_step X pc p") auto
next
  case (Insert tx pc)
  then show ?thesis
    using assms length_update_le [of "tx_id_of X tx" tx "mp_txs p"]
    by (cases pc) (auto simp: valid_pool_update validate_format_Inr check_from_ok check_from_def split: if_splits sum.splits)
qed

lemma length_filter_update:
  "i < length xs \<Longrightarrow> length (filter P (xs[i := x])) + (if P (xs ! i) then 1 else 0) = length (filter P xs) + (if P x then 1 else 0)"
proof (induction xs arbitrary: i)
  case (Cons y ys)
  then show ?case
    by (cases i) auto
qed simp

lemma pool_step_ok:
  assumes "system_ok X W s" "pool_step X S W s s'"
  shows "system_ok X W s'"
  using assms(2)
proof (cases rule: pool_step.cases)
  case (Step i c p)
  have at: "valid_pool X (ps_pool s)" "call_ok X (ps_calls s ! i)"
    using assms(1) Step(2) by (auto simp: system_ok_def list_all_length)
  from call_step_ok [OF at Step(3)]
  have ok: "valid_pool X p" "call_ok X c"
    "length (mp_txs p) + (if in_flight c then 1 else 0) \<le>
       length (mp_txs (ps_pool s)) + (if in_flight (ps_calls s ! i) then 1 else 0) \<or>
     in_flight c \<and> length (mp_txs p) < MAX_MEMPOOL_SIZE \<and> p = ps_pool s"
    by blast+
  note count = length_filter_update [OF Step(2), of in_flight c]
  have "length (mp_txs p) + length (filter in_flight ((ps_calls s)[i := c])) < MAX_MEMPOOL_SIZE + W"
    using ok(3) count assms(1) Step(4) by (auto simp: system_ok_def split: if_splits)
  moreover have "list_all (call_ok X) ((ps_calls s)[i := c])"
    using assms(1) ok(2) by (auto simp: system_ok_def list_all_iff dest!: set_update_subset_insert [THEN subsetD])
  ultimately show ?thesis
    using ok(1) by (simp add: system_ok_def Step(1))
next
  case (Database db)
  then show ?thesis
    using assms(1) by (simp add: system_ok_def)
qed

text \<open>Calls that have not begun.\<close>

fun unstarted :: "pool_call \<Rightarrow> bool" where
  "unstarted (Insert tx pc) \<longleftrightarrow> pc = At_Len"
| "unstarted (Remove pc) \<longleftrightarrow> (\<exists>txs. pc = At_Remove txs)"

lemma unstarted_ok: "unstarted c \<Longrightarrow> call_ok X c" "unstarted c \<Longrightarrow> \<not> in_flight c"
  by (cases c; simp)+

text \<open>
  C15: however the calls of W threads and the writes of the engine interleave, the pool keeps
  every transaction once, under its identifier, and holds only correctly formatted ones; its
  size limit can be exceeded, because the size test and the insertion are two steps, but by
  fewer than W transactions.
\<close>

theorem pool_threads_keep_valid:
  assumes "pool_runs X S W s s'" "ps_pool s = mempool_new" "list_all unstarted (ps_calls s)" "0 < W"
  shows "distinct (map fst (mp_txs (ps_pool s'))) \<and>
    (\<forall>(txid, tx) \<in> set (mp_txs (ps_pool s')). txid = tx_id_of X tx \<and> validate_format X tx = Inr ()) \<and>
    mempool_len (ps_pool s') < MAX_MEMPOOL_SIZE + W"
proof -
  have "filter in_flight (ps_calls s) = []" "list_all (call_ok X) (ps_calls s)"
    using assms(3) unstarted_ok by (auto simp: filter_empty_conv list_all_iff)
  then have "system_ok X W s"
    using assms(2,4) by (simp add: system_ok_def valid_pool_def mempool_new_def)
  with assms(1) have "system_ok X W s'"
    unfolding pool_runs_def by (induction rule: rtranclp_induct) (auto intro: pool_step_ok)
  then show ?thesis
    by (auto simp: system_ok_def valid_pool_def validate_format_Inr mempool_len_def)
qed

section \<open>Conflicting transactions\<close>

text \<open>A call that has not yet passed the reservation test of a nullifier, or has failed.\<close>

fun before_test :: "hash32 \<Rightarrow> transaction \<Rightarrow> insert_pc \<Rightarrow> bool" where
  "before_test nf tx (At_Db nfs) \<longleftrightarrow> nf \<in> set nfs"
| "before_test nf tx (At_Pending nfs) \<longleftrightarrow> nf \<in> set nfs"
| "before_test nf tx (At_Reserve nfs) \<longleftrightarrow> False"
| "before_test nf tx At_Store \<longleftrightarrow> False"
| "before_test nf tx (Returned r) \<longleftrightarrow> (\<exists>e. r = Inl e)"
| "before_test nf tx _ \<longleftrightarrow> nf \<in> set (tx_nullifiers tx)"

definition blocked :: "hash32 \<Rightarrow> nat \<Rightarrow> 'db pool_system \<Rightarrow> bool" where
  "blocked nf i s \<longleftrightarrow> mp_pending (ps_pool s) nf \<noteq> None \<and> i < length (ps_calls s) \<and>
     (\<forall>c \<in> set (ps_calls s). \<exists>tx pc. c = Insert tx pc) \<and>
     (\<exists>tx pc. ps_calls s ! i = Insert tx pc \<and> pc_ok pc \<and> before_test nf tx pc)"

lemma insert_step_blocked:
  assumes "before_test nf tx pc" "pc_ok pc" "mp_pending p nf \<noteq> None" "insert_step X S db tx pc p = (pc', p')"
  shows "before_test nf tx pc'"
  using assms by (cases pc) (auto simp: check_from_def neq_Nil_conv split: if_splits sum.splits)

lemma insert_step_reserved:
  "mp_pending p nf \<noteq> None \<Longrightarrow> insert_step X S db tx pc p = (pc', p') \<Longrightarrow> mp_pending p' nf \<noteq> None"
  by (cases pc) (auto split: if_splits sum.splits)

lemma pool_step_blocked:
  assumes "blocked nf i s" "pool_step X S W s s'"
  shows "blocked nf i s'"
  using assms(2)
proof (cases rule: pool_step.cases)
  case (Step j c p)
  obtain tx pc where j: "ps_calls s ! j = Insert tx pc"
    using assms(1) nth_mem [OF Step(2)] unfolding blocked_def by blast
  obtain pc' where c: "c = Insert tx pc'" "insert_step X S (ps_db s) tx pc (ps_pool s) = (pc', p)"
    using Step(3) j by (cases "insert_step X S (ps_db s) tx pc (ps_pool s)") auto
  have "mp_pending p nf \<noteq> None"
    using assms(1) insert_step_reserved [OF _ c(2)] by (simp add: blocked_def)
  moreover have "\<forall>d \<in> set ((ps_calls s)[j := c]). \<exists>tx pc. d = Insert tx pc"
    using assms(1) c(1) by (auto simp: blocked_def dest!: set_update_subset_insert [THEN subsetD])
  moreover have "\<exists>tx pc. (ps_calls s)[j := c] ! i = Insert tx pc \<and> pc_ok pc \<and> before_test nf tx pc"
  proof (cases "j = i")
    case True
    then show ?thesis
      using assms(1) j c insert_step_blocked [OF _ _ _ c(2)] insert_step_progress(1) [OF _ c(2)] Step(2)
      by (simp add: blocked_def)
  qed (use assms(1) in \<open>simp add: blocked_def\<close>)
  ultimately show ?thesis
    using assms(1) by (simp add: blocked_def Step(1))
next
  case (Database db)
  then show ?thesis
    using assms(1) by (simp add: blocked_def)
qed

text \<open>
  Among insertions a conflict is detected across threads unless the two calls overlap: once a
  nullifier is reserved, a call that has not begun and spends it too is never accepted, whatever
  the interleaving.
\<close>

theorem reserved_nullifier_refuses_later_calls:
  assumes "pool_runs X S W s s'" "mp_pending (ps_pool s) nf \<noteq> None" "nf \<in> set (tx_nullifiers tx)"
    and "\<forall>c \<in> set (ps_calls s). \<exists>t pc. c = Insert t pc"
    and "i < length (ps_calls s)" "ps_calls s ! i = Insert tx At_Len"
  shows "ps_calls s' ! i \<noteq> Insert tx (Returned (Inr ())) \<and> mp_pending (ps_pool s') nf \<noteq> None"
proof -
  have "blocked nf i s"
    using assms(2-6) by (simp add: blocked_def)
  with assms(1) have "blocked nf i s'"
    unfolding pool_runs_def by (induction rule: rtranclp_induct) (auto intro: pool_step_blocked)
  then show ?thesis
    by (auto simp: blocked_def)
qed

text \<open>One thread runs for a while; with as many workers as calls every call may run.\<close>

lemma pool_runs_alone:
  assumes "i < length (ps_calls s)" "ps_calls s ! i = Insert tx pc" "length (ps_calls s) \<le> W"
    and "insert_steps X S (ps_db s) tx n (pc, ps_pool s) = (pc', p')"
  shows "pool_runs X S W s (s\<lparr>ps_pool := p', ps_calls := (ps_calls s)[i := Insert tx pc']\<rparr>)"
  using assms
proof (induction n arbitrary: s pc)
  case 0
  have "(ps_calls s)[i := Insert tx pc] = ps_calls s"
    using 0(2) by (metis list_update_id)
  then show ?case
    using 0 by (auto simp: insert_steps_0 pool_runs_def)
next
  case (Suc n)
  obtain pc1 p1 where step: "insert_step X S (ps_db s) tx pc (ps_pool s) = (pc1, p1)"
    by fastforce
  define s1 where "s1 = s\<lparr>ps_pool := p1, ps_calls := (ps_calls s)[i := Insert tx pc1]\<rparr>"
  have "length (filter in_flight ((ps_calls s)[i := Insert tx pc1])) \<le> W"
    using Suc.prems(3) by (metis length_filter_le length_list_update order_trans)
  then have "pool_step X S W s s1"
    unfolding s1_def using Suc.prems(1,2) step by (intro pool_step.Step) simp_all
  moreover have "pool_runs X S W s1 (s1\<lparr>ps_pool := p', ps_calls := (ps_calls s1)[i := Insert tx pc']\<rparr>)"
    using Suc.prems step by (intro Suc.IH [of s1 pc1]) (simp_all add: s1_def insert_steps_Suc)
  ultimately show ?case
    unfolding pool_runs_def by (simp add: s1_def converse_rtranclp_into_rtranclp)
qed

lemma accepted_checks:
  assumes "fst (mempool_insert X S db tx p) = Inr ()"
  shows "\<exists>n. insert_steps X S db tx n (At_Len, p) = (check_from tx [], p)"
proof -
  obtain p' where "mempool_insert X S db tx p = (Inr (), p')"
    using assms by (cases "mempool_insert X S db tx p") auto
  note ins = mempool_insert_Inr [OF this]
  obtain n where "insert_steps X S db tx n (check_from tx (tx_nullifiers tx), p) =
      (case check_spends S db p (tx_nullifiers tx) of Inl e \<Rightarrow> Returned (Inl e) | Inr _ \<Rightarrow> check_from tx [], p)"
    using checks_alone [of X S db tx "tx_nullifiers tx" p] by (elim exE)
  moreover have "\<not> tx_fee tx < MIN_FEE" "map_of (mp_txs p) (tx_id_of X tx) = None"
    using ins(1,2) validate_format_fee [of X tx] by (auto simp: map_of_eq_None_iff not_less)
  ultimately have "insert_steps X S db tx (Suc (Suc n)) (At_Len, p) = (check_from tx [], p)"
    using ins(2-4) by (simp add: insert_steps_Suc)
  then show ?thesis by (rule exI)
qed

text \<open>
  C19: overlapping calls defeat the conflict check. Any two different transactions that the pool
  would accept by themselves can both be accepted and pooled when their insertions overlap, also
  when they spend the same nullifier: one thread passes all its tests, the other runs in between.
\<close>

theorem overlapping_insertions_both_accepted:
  assumes "fst (mempool_insert X S db t1 p) = Inr ()" "fst (mempool_insert X S db t2 p) = Inr ()"
    and "tx_id_of X t1 \<noteq> tx_id_of X t2"
  shows "\<exists>p'. pool_runs X S 2 \<lparr>ps_db = db, ps_pool = p, ps_calls = [Insert t1 At_Len, Insert t2 At_Len]\<rparr>
      \<lparr>ps_db = db, ps_pool = p', ps_calls = [Insert t1 (Returned (Inr ())), Insert t2 (Returned (Inr ()))]\<rparr> \<and>
    map_of (mp_txs p') (tx_id_of X t1) = Some t1 \<and> map_of (mp_txs p') (tx_id_of X t2) = Some t2"
proof -
  define sys where "sys q a b = \<lparr>ps_db = db, ps_pool = q, ps_calls = [Insert t1 a, Insert t2 b]\<rparr>" for q a b
  have first: "pool_runs X S 2 (sys q a b) (sys q' a' b)"
    if "insert_steps X S db t1 n (a, q) = (a', q')" for q a b q' a' n
    using pool_runs_alone [of 0 "sys q a b" t1 a 2 X S n a' q'] that by (simp add: sys_def)
  have second: "pool_runs X S 2 (sys q a b) (sys q' a b')"
    if "insert_steps X S db t2 n (b, q) = (b', q')" for q a b q' b' n
    using pool_runs_alone [of 1 "sys q a b" t2 b 2 X S n b' q'] that by (simp add: sys_def)
  obtain n where n: "insert_steps X S db t1 n (At_Len, p) = (check_from t1 [], p)"
    using accepted_checks [OF assms(1)] by blast
  define q where "q = snd (mempool_insert X S db t2 p)"
  obtain m where m: "insert_steps X S db t2 m (At_Len, p) = (Returned (Inr ()), q)"
    using insert_alone_some [of X S db t2 p] unfolding assms(2) q_def [symmetric] by (elim exE)
  obtain k where k: "insert_steps X S db t1 k (check_from t1 [], q) =
    (Returned (Inr ()), q\<lparr>mp_pending := fold (\<lambda>nf m. m(nf \<mapsto> tx_id_of X t1)) (tx_nullifiers t1) (mp_pending q),
       mp_txs := AList.update (tx_id_of X t1) t1 (mp_txs q)\<rparr>)" (is "_ = (_, ?r)")
    using store_alone [of X S db t1 q] by (elim exE)
  have "pool_runs X S 2 (sys p At_Len At_Len) (sys ?r (Returned (Inr ())) (Returned (Inr ())))"
    using first [OF n, of At_Len] second [OF m, of "check_from t1 []"] first [OF k, of "Returned (Inr ())"]
    unfolding pool_runs_def by (blast intro: rtranclp_trans)
  moreover have "mempool_insert X S db t2 p = (Inr (), q)"
    by (simp add: q_def prod_eq_iff assms(2))
  note ins = mempool_insert_Inr [OF this]
  have "mp_txs q = mp_txs p @ [(tx_id_of X t2, t2)]"
    by (subst ins(5)) simp
  then have "map_of (mp_txs q) (tx_id_of X t2) = Some t2"
    using ins(1) [folded map_of_eq_None_iff] by (simp add: map_add_def)
  then have "map_of (mp_txs ?r) (tx_id_of X t1) = Some t1" "map_of (mp_txs ?r) (tx_id_of X t2) = Some t2"
    using assms(3) by (simp_all add: update_conv')
  ultimately show ?thesis
    unfolding sys_def by blast
qed

section \<open>Concrete runs\<close>

definition race_tx :: transaction where
  "race_tx = (sample_tx 1)\<lparr>tx_fee := 100000\<rparr>"

text \<open>A stand-in encoding that tells the two transactions apart.\<close>

definition fee_ext :: ext where
  "fee_ext = sample_ext\<lparr>bincode_tx := (\<lambda>tx. u64_to_le (tx_fee tx))\<rparr>"

lemma race_tx_simps [simp]: "tx_nullifiers race_tx = [replicate 32 1]" "tx_fee race_tx = 100000"
  by (simp_all add: race_tx_def tx_nullifiers_def sample_tx_def sample_spend_def)

lemma fee_ext_id_bytes: "take 8 (tx_id_of fee_ext t) = u64_to_le (tx_fee t)"
  by (simp add: tx_id_of_def fee_ext_def sample_ext_def sample_hash_def min_def)

lemma fee_ext_ids_differ: "tx_id_of fee_ext (sample_tx 1) \<noteq> tx_id_of fee_ext race_tx"
proof
  assume "tx_id_of fee_ext (sample_tx 1) = tx_id_of fee_ext race_tx"
  then have "u64_to_le (tx_fee (sample_tx 1)) = u64_to_le (tx_fee race_tx)"
    by (simp only: flip: fee_ext_id_bytes)
  then show False by simp
qed

lemma fee_ext_formats:
  "validate_format fee_ext (sample_tx 1) = Inr ()" "validate_format fee_ext race_tx = Inr ()"
  by (simp_all add: validate_format_Inr well_formatted_def race_tx_def sample_tx_def fee_ext_def sample_ext_def
      FEE_TIERS_def)

lemma accepted_alone:
  "fst (mempool_insert fee_ext mem_sled mem_empty (sample_tx 1) mempool_new) = Inr ()"
  "fst (mempool_insert fee_ext mem_sled mem_empty race_tx mempool_new) = Inr ()"
  by (simp_all add: mempool_insert_def mempool_new_def MAX_MEMPOOL_SIZE_def Let_def fee_ext_formats
      mem.nullifier_contains_eq mem_empty_def MIN_FEE_def)

theorem overlapping_insertions_both_accepted_witness:
  "\<exists>p' :: mempool. map_of (mp_txs p') (tx_id_of fee_ext (sample_tx 1)) = Some (sample_tx 1) \<and>
    map_of (mp_txs p') (tx_id_of fee_ext race_tx) = Some race_tx \<and>
    set (tx_nullifiers (sample_tx 1)) \<inter> set (tx_nullifiers race_tx) \<noteq> {}"
proof -
  obtain p' :: mempool where "map_of (mp_txs p') (tx_id_of fee_ext (sample_tx 1)) = Some (sample_tx 1)"
      "map_of (mp_txs p') (tx_id_of fee_ext race_tx) = Some race_tx"
    using overlapping_insertions_both_accepted [OF accepted_alone fee_ext_ids_differ] by (elim exE conjE)
  moreover have "set (tx_nullifiers (sample_tx 1)) \<inter> set (tx_nullifiers race_tx) \<noteq> {}"
    by simp
  ultimately show ?thesis by blast
qed

text \<open>A single call that runs from its beginning to its end.\<close>

definition one_call :: "mempool \<Rightarrow> insert_pc \<Rightarrow> mem_db pool_system" where
  "one_call p pc = \<lparr>ps_db = mem_empty, ps_pool = p, ps_calls = [Insert (sample_tx 1) pc]\<rparr>"

lemma one_call_runs:
  "pool_runs sample_ext mem_sled 1 (one_call p At_Len)
    (one_call (snd (mempool_insert sample_ext mem_sled mem_empty (sample_tx 1) p))
      (Returned (fst (mempool_insert sample_ext mem_sled mem_empty (sample_tx 1) p))))"
proof -
  obtain n where n: "insert_steps sample_ext mem_sled mem_empty (sample_tx 1) n (At_Len, p) =
      (Returned (fst (mempool_insert sample_ext mem_sled mem_empty (sample_tx 1) p)),
       snd (mempool_insert sample_ext mem_sled mem_empty (sample_tx 1) p))"
    using insert_alone_some [of sample_ext mem_sled mem_empty "sample_tx 1" p] by (elim exE)
  show ?thesis
    using pool_runs_alone [of 0 "one_call p At_Len" "sample_tx 1" At_Len 1 sample_ext mem_sled n] n
    by (simp add: one_call_def)
qed

theorem pool_threads_keep_valid_witness:
  "mempool_len sample_pool < MAX_MEMPOOL_SIZE + 1"
  using pool_threads_keep_valid [OF one_call_runs [of mempool_new]] by (simp add: one_call_def sample_pool_def)

theorem reserved_nullifier_refuses_later_calls_witness:
  "fst (mempool_insert sample_ext mem_sled mem_empty (sample_tx 1) sample_pool) \<noteq> Inr ()"
proof -
  have "mp_pending sample_pool (replicate 32 1) \<noteq> None"
    using pool_invD(4) [OF sample_pool_inv, of _ "sample_tx 1"] by (simp add: sample_pool_txs)
  then show ?thesis
    using reserved_nullifier_refuses_later_calls [OF one_call_runs [of sample_pool], of "replicate 32 1" "sample_tx 1" 0]
    by (simp add: one_call_def)
qed

end
