(* ===== verification/Node_Threads.thy ===== *)
theory Node_Threads
  imports Node Pool_Threads
begin

text \<open>
  The node program with its mempool calls taken apart. In theory \<open>Node\<close> an insertion is one step;
  here the gossip task, the RPC handlers and the engine begin calls on the shared pool, and each
  call goes on in the steps of theory \<open>Pool_Threads\<close>, between which every task of the node may
  act. What the node does with one-step insertions it can do here too; what holds here holds of
  the program's threads.
\<close>

section \<open>State and steps\<close>

record 'db threaded_node =
  tn_node :: "'db node"
  tn_calls :: "pool_call list"

abbreviation tn_pool :: "'db threaded_node \<Rightarrow> mempool" where
  "tn_pool tn \<equiv> en_pool (no_engine (tn_node tn))"

abbreviation with_pool :: "mempool \<Rightarrow> 'db node \<Rightarrow> 'db node" where
  "with_pool p nd \<equiv> nd\<lparr>no_engine := (no_engine nd)\<lparr>en_pool := p\<rparr>\<rparr>"

abbreviation with_command :: "network_command \<Rightarrow> 'db node \<Rightarrow> 'db node" where
  "with_command cmd nd \<equiv> nd\<lparr>no_engine := (no_engine nd)\<lparr>en_out := priority_send cmd (en_out (no_engine nd))\<rparr>\<rparr>"

text \<open>
  A task acts and leaves the pool alone; the mempool task takes a transaction and begins to insert
  it; an RPC handler begins to insert a submitted one; a handler whose insertion was accepted
  broadcasts it; the engine finishes a turn and begins to remove what was mined; or a call takes
  its next step, on the pool and database as they are then, if an insertion that starts finds one
  of the \<open>W\<close> worker threads free. Which transactions the engine removes is left open here.
\<close>

inductive threads_step ::
  "'db node_env \<Rightarrow> limited_codec \<Rightarrow> hex_codec \<Rightarrow> nat \<Rightarrow> 'db threaded_node \<Rightarrow> 'db threaded_node \<Rightarrow> bool" for E C H W
where
  Task: "node_step E C H (tn_node tn) nd \<Longrightarrow> en_pool (no_engine nd) = tn_pool tn \<Longrightarrow>
    threads_step E C H W tn (tn\<lparr>tn_node := nd\<rparr>)"
| Take: "no_mempool_rx (tn_node tn) = tx # rest \<Longrightarrow>
    threads_step E C H W tn (tn\<lparr>tn_node := (tn_node tn)\<lparr>no_mempool_rx := rest\<rparr>, tn_calls := tn_calls tn @ [Insert tx At_Len]\<rparr>)"
| Submit: "bincode_tx_de (nd_ext E) tx_bytes = Some tx \<Longrightarrow>
    threads_step E C H W tn (tn\<lparr>tn_calls := tn_calls tn @ [Insert tx At_Len]\<rparr>)"
| Reply: "Insert tx (Returned (Inr ())) \<in> set (tn_calls tn) \<Longrightarrow> bincode_tx_de (nd_ext E) tx_bytes = Some tx \<Longrightarrow>
    threads_step E C H W tn (tn\<lparr>tn_node := with_command (BroadcastTx tx_bytes) (tn_node tn)\<rparr>)"
| Turn: "engine_task E now arm (tn_node tn) = Some nd \<Longrightarrow>
    threads_step E C H W tn (tn\<lparr>tn_node := with_pool (tn_pool tn) nd, tn_calls := tn_calls tn @ [Remove (At_Remove txs)]\<rparr>)"
| Call: "i < length (tn_calls tn) \<Longrightarrow>
    call_step (nd_ext E) (nd_sled E) (ss_db (en_store (no_engine (tn_node tn)))) (tn_calls tn ! i) (tn_pool tn) = (c, p) \<Longrightarrow>
    length (filter in_flight ((tn_calls tn)[i := c])) \<le> W \<Longrightarrow>
    threads_step E C H W tn (tn\<lparr>tn_node := with_pool p (tn_node tn), tn_calls := (tn_calls tn)[i := c]\<rparr>)"

abbreviation threads_run ::
  "'db node_env \<Rightarrow> limited_codec \<Rightarrow> hex_codec \<Rightarrow> nat \<Rightarrow> 'db threaded_node \<Rightarrow> 'db threaded_node \<Rightarrow> bool" where
  "threads_run E C H W \<equiv> (threads_step E C H W)\<^sup>*\<^sup>*"

section \<open>What the pool keeps\<close>

text \<open>The shared pool and the calls on it, as a system of \<open>Pool_Threads\<close>.\<close>

definition tn_system :: "'db threaded_node \<Rightarrow> 'db pool_system" where
  "tn_system tn = \<lparr>ps_db = ss_db (en_store (no_engine (tn_node tn))), ps_pool = tn_pool tn, ps_calls = tn_calls tn\<rparr>"

lemma system_ok_begin:
  "system_ok X W \<lparr>ps_db = db', ps_pool = p, ps_calls = cs\<rparr> \<Longrightarrow> unstarted c \<Longrightarrow>
    system_ok X W \<lparr>ps_db = db, ps_pool = p, ps_calls = cs @ [c]\<rparr>"
  using unstarted_ok by (auto simp: system_ok_def)

lemma system_ok_db: "system_ok X W \<lparr>ps_db = db, ps_pool = p, ps_calls = cs\<rparr> \<Longrightarrow> system_ok X W \<lparr>ps_db = db', ps_pool = p, ps_calls = cs\<rparr>"
  by (simp add: system_ok_def)

lemma threads_step_ok:
  assumes "system_ok (nd_ext E) W (tn_system tn)" "threads_step E C H W tn tn'"
  shows "system_ok (nd_ext E) W (tn_system tn')"
  using assms(2)
proof cases
  case (Call i c p)
  have "pool_step (nd_ext E) (nd_sled E) W (tn_system tn) ((tn_system tn)\<lparr>ps_pool := p, ps_calls := (tn_calls tn)[i := c]\<rparr>)"
    using pool_step.Step [of i "tn_system tn" "nd_ext E" "nd_sled E" c p W] Call by (simp add: tn_system_def)
  from pool_step_ok [OF assms(1) this] show ?thesis
    by (simp add: tn_system_def Call)
qed (use assms(1) in \<open>auto simp: tn_system_def elim: system_ok_db system_ok_begin\<close>)

lemma threads_run_ok:
  assumes "threads_run E C H W tn tn'" "system_ok (nd_ext E) W (tn_system tn)"
  shows "system_ok (nd_ext E) W (tn_system tn')"
  using assms by induction (auto intro: threads_step_ok)

text \<open>
  C20: in every state the node program can reach, with its mempool calls on W worker threads
  interleaved in any way with each other and with its tasks, and whatever it receives, the pool
  holds each transaction once, under its own identifier, and only transactions that pass the
  format check; it holds fewer than W transactions more than its capacity.
\<close>

theorem node_pool_stays_valid:
  assumes "node_start E store devnet sk now = Some nd0" "0 < W"
    and "threads_run E C H W \<lparr>tn_node = nd0, tn_calls = []\<rparr> tn"
  shows "distinct (map fst (mp_txs (tn_pool tn))) \<and>
    (\<forall>(txid, tx) \<in> set (mp_txs (tn_pool tn)). txid = tx_id_of (nd_ext E) tx \<and> validate_format (nd_ext E) tx = Inr ()) \<and>
    mempool_len (tn_pool tn) < MAX_MEMPOOL_SIZE + W"
proof -
  have "en_pool (no_engine nd0) = mempool_new"
    using assms(1) by (auto simp: node_start_def engine_new_def Let_def dest!: begin_height_shared)
  then have "system_ok (nd_ext E) W (tn_system \<lparr>tn_node = nd0, tn_calls = []\<rparr>)"
    using assms(2) by (simp add: tn_system_def system_ok_def valid_pool_def mempool_new_def)
  from threads_run_ok [OF assms(3) this] show ?thesis
    by (auto simp: tn_system_def system_ok_def valid_pool_def validate_format_Inr mempool_len_def)
qed

section \<open>The node's own runs are among these\<close>

text \<open>A call that runs alone, as the last that began.\<close>

lemma call_alone:
  assumes "filter in_flight cs = []" "0 < W"
    and "call_step (nd_ext E) (nd_sled E) (ss_db (en_store (no_engine nd))) c (en_pool (no_engine nd)) = (c', p')"
  shows "threads_step E C H W \<lparr>tn_node = nd, tn_calls = cs @ [c]\<rparr> \<lparr>tn_node = with_pool p' nd, tn_calls = cs @ [c']\<rparr>"
proof -
  have "length (filter in_flight (cs @ [c'])) \<le> W"
    using assms(1,2) by simp
  then show ?thesis
    using threads_step.Call [of "length cs" "\<lparr>tn_node = nd, tn_calls = cs @ [c]\<rparr>" E c' p' W C H] assms(3) by simp
qed

lemma insert_runs:
  assumes "filter in_flight cs = []" "0 < W"
    and "insert_steps (nd_ext E) (nd_sled E) (ss_db (en_store (no_engine nd))) tx n (pc, en_pool (no_engine nd)) = (pc', p')"
  shows "threads_run E C H W \<lparr>tn_node = nd, tn_calls = cs @ [Insert tx pc]\<rparr> \<lparr>tn_node = with_pool p' nd, tn_calls = cs @ [Insert tx pc']\<rparr>"
  using assms(3)
proof (induction n arbitrary: nd pc)
  case 0
  then show ?case
    by (auto simp: insert_steps_0)
next
  case (Suc n)
  obtain pc1 p1 where step: "insert_step (nd_ext E) (nd_sled E) (ss_db (en_store (no_engine nd))) tx pc (en_pool (no_engine nd)) = (pc1, p1)"
    by fastforce
  have "threads_step E C H W \<lparr>tn_node = nd, tn_calls = cs @ [Insert tx pc]\<rparr> \<lparr>tn_node = with_pool p1 nd, tn_calls = cs @ [Insert tx pc1]\<rparr>"
    by (rule call_alone [OF assms(1,2)]) (simp add: step)
  then show ?case
    using Suc.IH [of "with_pool p1 nd" pc1] Suc.prems
    by (simp add: insert_steps_Suc step converse_rtranclp_into_rtranclp)
qed

lemma remove_runs:
  assumes "filter in_flight cs = []" "0 < W" "remove_steps (nd_ext E) n (pc, en_pool (no_engine nd)) = (pc', p')"
  shows "threads_run E C H W \<lparr>tn_node = nd, tn_calls = cs @ [Remove pc]\<rparr> \<lparr>tn_node = with_pool p' nd, tn_calls = cs @ [Remove pc']\<rparr>"
  using assms(3)
proof (induction n arbitrary: nd pc)
  case 0
  then show ?case
    by (auto simp: remove_steps_simps)
next
  case (Suc n)
  obtain pc1 p1 where step: "remove_step (nd_ext E) pc (en_pool (no_engine nd)) = (pc1, p1)"
    by fastforce
  have "threads_step E C H W \<lparr>tn_node = nd, tn_calls = cs @ [Remove pc]\<rparr> \<lparr>tn_node = with_pool p1 nd, tn_calls = cs @ [Remove pc1]\<rparr>"
    by (rule call_alone [OF assms(1,2)]) (simp add: step)
  then show ?case
    using Suc.IH [of pc1 "with_pool p1 nd"] Suc.prems
    by (simp add: remove_steps_simps step converse_rtranclp_into_rtranclp)
qed

text \<open>The one-step insertion, as a call from its beginning to its end.\<close>

abbreviation inserted :: "'db node_env \<Rightarrow> transaction \<Rightarrow> 'db node \<Rightarrow> (mempool_error + unit) \<times> mempool" where
  "inserted E tx nd \<equiv> mempool_insert (nd_ext E) (nd_sled E) (ss_db (en_store (no_engine nd))) tx (en_pool (no_engine nd))"

lemma insert_call_runs:
  assumes "filter in_flight cs = []" "0 < W"
  shows "threads_run E C H W \<lparr>tn_node = nd, tn_calls = cs @ [Insert tx At_Len]\<rparr>
    \<lparr>tn_node = with_pool (snd (inserted E tx nd)) nd, tn_calls = cs @ [Insert tx (Returned (fst (inserted E tx nd)))]\<rparr>"
proof -
  obtain n where "insert_steps (nd_ext E) (nd_sled E) (ss_db (en_store (no_engine nd))) tx n (At_Len, en_pool (no_engine nd)) =
      (Returned (fst (inserted E tx nd)), snd (inserted E tx nd))"
    using insert_alone_some [of "nd_ext E" "nd_sled E" "ss_db (en_store (no_engine nd))" tx "en_pool (no_engine nd)"]
    by (elim exE)
  then show ?thesis
    by (rule insert_runs [OF assms])
qed

lemma with_own_pool: "p = en_pool (no_engine nd) \<Longrightarrow> with_pool p nd = nd"
  by simp

lemma rpc_task_pool:
  "en_pool (no_engine (rpc_task E H channel reply rq nd)) = en_pool (no_engine nd) \<or>
   (\<exists>tx_bytes tx. bincode_tx_de (nd_ext E) tx_bytes = Some tx \<and> fst (inserted E tx nd) = Inr () \<and>
      rpc_task E H channel reply rq nd = with_command (BroadcastTx tx_bytes) (with_pool (snd (inserted E tx nd)) nd))"
proof (cases "rq_method rq = ''noirnet_sendTransaction'' \<and> length (rq_params rq) = 1")
  case True
  then show ?thesis
    by (auto simp: rpc_task_def rpc_dispatch_def rpc_send_transaction_def rpc_start_def network_send_def Let_def split_beta
        dest: mempool_insert_Inl split: sum.split option.split prod.split)
next
  case False
  then show ?thesis
    by (auto simp: rpc_task_def rpc_dispatch_def rpc_get_sync_status_def rpc_start_def network_send_def Let_def split_beta
        split: option.split)
qed

text \<open>
  So every run of theory \<open>Node\<close> is a run of the threads in which each call goes through before
  anything else happens, and no call is left in the middle.
\<close>

lemma node_step_threads:
  assumes "sled_db (nd_sled E)" "node_step E C H nd nd'" "filter in_flight cs = []" "0 < W"
  shows "\<exists>cs'. filter in_flight cs' = [] \<and>
    threads_run E C H W \<lparr>tn_node = nd, tn_calls = cs\<rparr> \<lparr>tn_node = nd', tn_calls = cs'\<rparr>"
proof -
  note call = insert_call_runs [OF assms(3,4)]
  have task: ?thesis if "en_pool (no_engine nd') = en_pool (no_engine nd)"
    using threads_step.Task [of E C H "\<lparr>tn_node = nd, tn_calls = cs\<rparr>" nd' W] assms(2,3) that by auto
  show ?thesis
    using assms(2)
  proof cases
    case Insert
    then obtain tx rest where rx: "no_mempool_rx nd = tx # rest"
      and nd': "nd' = with_pool (snd (inserted E tx nd)) (nd\<lparr>no_mempool_rx := rest\<rparr>)"
      by (auto simp: mempool_task_def Let_def split: list.splits)
    have "threads_step E C H W \<lparr>tn_node = nd, tn_calls = cs\<rparr> \<lparr>tn_node = nd\<lparr>no_mempool_rx := rest\<rparr>, tn_calls = cs @ [Insert tx At_Len]\<rparr>"
      using threads_step.Take [of "\<lparr>tn_node = nd, tn_calls = cs\<rparr>" tx rest] rx by simp
    then show ?thesis
      using call [of E C H "nd\<lparr>no_mempool_rx := rest\<rparr>" tx] assms(3)
      by (intro exI [of _ "cs @ [Insert tx (Returned (fst (inserted E tx nd)))]"]) (simp add: nd')
  next
    case (Request channel reply rq)
    consider "en_pool (no_engine nd') = en_pool (no_engine nd)" | tx_bytes tx p where
      "bincode_tx_de (nd_ext E) tx_bytes = Some tx" "inserted E tx nd = (Inr (), p)"
      "nd' = with_command (BroadcastTx tx_bytes) (with_pool p nd)"
      using rpc_task_pool [of E H channel reply rq nd] Request by (metis prod.collapse)
    then show ?thesis
    proof cases
      case 2
      let ?cs = "cs @ [Insert tx (Returned (Inr ()))]"
      have "threads_step E C H W \<lparr>tn_node = nd, tn_calls = cs\<rparr> \<lparr>tn_node = nd, tn_calls = cs @ [Insert tx At_Len]\<rparr>"
        using threads_step.Submit [of E tx_bytes tx C H W "\<lparr>tn_node = nd, tn_calls = cs\<rparr>"] 2(1) by simp
      moreover have "threads_step E C H W \<lparr>tn_node = with_pool p nd, tn_calls = ?cs\<rparr> \<lparr>tn_node = nd', tn_calls = ?cs\<rparr>"
        using threads_step.Reply [of tx "\<lparr>tn_node = with_pool p nd, tn_calls = ?cs\<rparr>" E tx_bytes C H W] 2 by simp
      ultimately show ?thesis
        using call [of E C H nd tx] 2(2) assms(3)
        by (intro exI [of _ ?cs]) (simp add: converse_rtranclp_into_rtranclp rtranclp.rtrancl_into_rtrancl)
    qed (rule task)
  next
    case (Engine now arm)
    then obtain ev nd1 rv en where "receive arm nd = Some (ev, nd1)"
        "engine_run_step E now ev (no_round nd1, no_engine nd1) = Some (rv, en)" "no_engine nd' = en"
      by (auto simp: engine_task_def split: option.splits)
    then have "evolves E (no_engine nd) (no_engine nd')"
      using evolves_run_step [OF assms(1)] receive_engine by metis
    then obtain txs where txs: "en_pool (no_engine nd') = remove_mined (nd_ext E) txs (en_pool (no_engine nd))"
      by (auto simp: evolves_def)
    let ?nd = "with_pool (en_pool (no_engine nd)) nd'"
    have "threads_step E C H W \<lparr>tn_node = nd, tn_calls = cs\<rparr> \<lparr>tn_node = ?nd, tn_calls = cs @ [Remove (At_Remove txs)]\<rparr>"
      using threads_step.Turn [of E now arm "\<lparr>tn_node = nd, tn_calls = cs\<rparr>" nd' C H W txs] Engine by simp
    moreover have "threads_run E C H W \<lparr>tn_node = ?nd, tn_calls = cs @ [Remove (At_Remove txs)]\<rparr>
        \<lparr>tn_node = nd', tn_calls = cs @ [Remove (At_Remove [])]\<rparr>"
      using remove_runs [OF assms(3,4) remove_alone_is_atomic [of "nd_ext E" txs "en_pool (no_engine ?nd)"], of C H]
      by (simp add: with_own_pool [OF txs [symmetric]])
    ultimately show ?thesis
      using assms(3) by (intro exI [of _ "cs @ [Remove (At_Remove [])]"]) (simp add: converse_rtranclp_into_rtranclp)
  qed (use task in \<open>auto simp: command_task_def prune_task_def Let_def split: prod.splits service_turn.splits\<close>)
qed

theorem node_run_threads:
  assumes "sled_db (nd_sled E)" "node_run E C H nd nd'" "0 < W"
  shows "\<exists>cs. filter in_flight cs = [] \<and>
    threads_run E C H W \<lparr>tn_node = nd, tn_calls = []\<rparr> \<lparr>tn_node = nd', tn_calls = cs\<rparr>"
  using assms(2)
proof induction
  case (step nd1 nd2)
  then obtain cs where "filter in_flight cs = []"
      "threads_run E C H W \<lparr>tn_node = nd, tn_calls = []\<rparr> \<lparr>tn_node = nd1, tn_calls = cs\<rparr>"
    by blast
  then show ?case
    using node_step_threads [OF assms(1) step(2) _ assms(3)] by (blast intro: rtranclp_trans)
qed (auto intro: exI [of _ "[]"])

section \<open>Concrete runs\<close>

text \<open>A gossip codec that decodes every payload as one transaction, and a node that receives it.\<close>

definition gossiped :: limited_codec where
  "gossiped = sample_gossip_codec\<lparr>lc_tx := (\<lambda>_. Some (sample_tx 1))\<rparr>"

definition started_node :: "mem_db node" where
  "started_node = \<lparr>no_round = first_round, no_engine = observer, no_mempool_rx = [],
     no_block_rx = [], no_vote_rx = [], no_sync_req_rx = [], no_sync_res_rx = []\<rparr>"

lemma started_node_starts: "node_start sample_node (fresh_store mem_empty) False [] 0 = Some started_node"
proof -
  have "engine_new (fresh_store mem_empty) mempool_new None \<lparr>ps_high = [], ps_low = []\<rparr> = observer"
    by (simp add: observer_def sample_engine_def)
  then show ?thesis
    by (simp add: node_start_def observer_begins started_node_def)
qed

lemma gossip_pooled:
  "\<exists>nd. node_run sample_node gossiped plain_hex started_node nd \<and> mp_txs (en_pool (no_engine nd)) \<noteq> []"
proof -
  let ?nd1 = "fold deliver (handle_swarm_event gossiped (GossipMessage ''noirnet-txs'' [])) started_node"
  have nd1: "?nd1 = started_node\<lparr>no_mempool_rx := [sample_tx 1]\<rparr>"
    by (simp add: handle_swarm_event_def gossiped_def started_node_def)
  have valid: "validate_format sample_codec (sample_tx 1) = Inr ()"
    using well_formatted_sample_tx [of 1] by (simp add: validate_format_Inr well_formatted_def sample_codec_def)
  have "mempool_insert sample_codec mem_sled (ss_db (fresh_store mem_empty)) (sample_tx 1) mempool_new =
      (Inr (), \<lparr>mp_txs = [(tx_id_of sample_codec (sample_tx 1), sample_tx 1)],
        mp_pending = [replicate 32 1 \<mapsto> tx_id_of sample_codec (sample_tx 1)]\<rparr>)"
    by (simp add: mempool_insert_def Let_def mempool_new_def MAX_MEMPOOL_SIZE_def valid MIN_FEE_def
        mem.nullifier_contains_eq fresh_store_def mem_empty_def)
  then obtain nd2 where nd2: "mempool_task sample_node ?nd1 = Some nd2" "mp_txs (en_pool (no_engine nd2)) \<noteq> []"
    unfolding nd1 by (simp add: mempool_task_def Let_def observer_def sample_node_def started_node_def)
  have "node_step sample_node gossiped plain_hex started_node ?nd1"
    by (rule node_step.Gossip)
  moreover have "node_step sample_node gossiped plain_hex ?nd1 nd2"
    by (rule node_step.Insert [OF nd2(1)])
  ultimately show ?thesis
    using nd2(2) by (meson converse_rtranclp_into_rtranclp r_into_rtranclp)
qed

theorem node_pool_stays_valid_witness:
  "\<exists>tn. mp_txs (tn_pool tn) \<noteq> [] \<and> mempool_len (tn_pool tn) < MAX_MEMPOOL_SIZE + 4 \<and>
     threads_run sample_node gossiped plain_hex 4 \<lparr>tn_node = started_node, tn_calls = []\<rparr> tn"
proof -
  obtain nd where nd: "node_run sample_node gossiped plain_hex started_node nd" "mp_txs (en_pool (no_engine nd)) \<noteq> []"
    using gossip_pooled by blast
  have "sled_db (nd_sled sample_node)"
    by (simp add: sample_node_def mem.sled_db_axioms)
  then obtain cs where run: "threads_run sample_node gossiped plain_hex 4
      \<lparr>tn_node = started_node, tn_calls = []\<rparr> \<lparr>tn_node = nd, tn_calls = cs\<rparr>"
    using node_run_threads [OF _ nd(1), of 4] by auto
  show ?thesis
    using node_pool_stays_valid [OF started_node_starts _ run] nd(2) run
    by (intro exI [of _ "\<lparr>tn_node = nd, tn_calls = cs\<rparr>"]) simp
qed

end
