(* ===== verification/Sync_Serving.thy ===== *)
theory Sync_Serving
  imports Engine_Rounds
begin

text \<open>
  Serving blocks to other nodes: the engine's answer to a sync request, on top of the read-back of
  an accepted chain.
\<close>

lemma collect_blocks_all:
  assumes "\<And>h. h \<in> set hs \<Longrightarrow> get_block_by_height (nd_ext E) (nd_sled E) h db = Inr (Some (f h))"
  shows "collect_blocks E db hs = Some (map f hs)"
  using assms by (induction hs) simp_all

lemma requested_heights_bounds:
  assumes "unat (sreq_start_height req) + unat (sreq_limit req) < 2 ^ 64" "0 < n" "n < 2 ^ 64"
  shows "requested_heights req (word_of_nat (n - 1)) =
    map word_of_nat [unat (sreq_start_height req)..<min (unat (sreq_start_height req) + unat (sreq_limit req)) n]"
proof -
  have limit: "unat (ucast (sreq_limit req) :: u64) = unat (sreq_limit req)"
    using unsigned_less [of "sreq_limit req", where ?'a = nat] by (simp add: unsigned_ucast_eq take_bit_nat_eq_self)
  then have "unat (sreq_start_height req + ucast (sreq_limit req)) = unat (sreq_start_height req) + unat (sreq_limit req)"
    using assms(1) by (subst unat_add_no_wrap) simp_all
  moreover have "(word_of_nat (n - 1) :: u64) + 1 = word_of_nat n"
    using assms(2) by (cases n) (simp_all add: add.commute)
  moreover from this have "unat ((word_of_nat (n - 1) :: u64) + 1) = n"
    using assms(3) by (simp add: unat_of_nat)
  ultimately show ?thesis
    by (simp add: requested_heights_def Let_def min_def word_le_nat_alt)
qed

text \<open>
  C21: a node that holds a chain serves it faithfully. The answer to a request for \<open>limit\<close> blocks
  from a height on is exactly that segment of the chain, cut at the chain's end and empty beyond
  it, sent on the request's channel; nothing else of the engine changes.
\<close>

theorem sync_answer_is_chain_segment:
  assumes "sled_db (nd_sled E)" "no_data (nd_sled E) db" "length (chain_commitments bs) < 2 ^ 32"
    and "run = apply_chain (nd_ext E) (nd_sled E) bs (fresh_store db)" "fst run = Inr ()"
    and "readable_chain (nd_ext E) bs" "bs \<noteq> []" "length bs < 2 ^ 64" "en_store en = snd run"
    and "unat (sreq_start_height req) + unat (sreq_limit req) < 2 ^ 64"
  shows "handle_sync_request E req channel en =
    Some (send_command (SendSyncResponse channel
      \<lparr>sres_blocks = map fst (take (unat (sreq_limit req)) (drop (unat (sreq_start_height req)) bs))\<rparr>) en)"
proof -
  let ?s = "unat (sreq_start_height req)" and ?l = "unat (sreq_limit req)" and ?n = "length bs"
  have height: "get_chain_height (nd_sled E) (ss_db (en_store en)) = Inr (word_of_nat (?n - 1))"
    and reads: "\<And>i. i < ?n \<Longrightarrow> get_block_by_height (nd_ext E) (nd_sled E) (word_of_nat i) (ss_db (en_store en)) = Inr (Some (fst (bs ! i)))"
    using chain_reads [OF assms(1-7)] assms(8,9) by simp_all
  have "collect_blocks E (ss_db (en_store en)) (map word_of_nat [?s..<min (?s + ?l) ?n]) =
      Some (map (\<lambda>h :: u64. fst (bs ! unat h)) (map word_of_nat [?s..<min (?s + ?l) ?n]))"
  proof (rule collect_blocks_all)
    fix h :: u64
    assume "h \<in> set (map word_of_nat [?s..<min (?s + ?l) ?n])"
    then obtain i where "h = word_of_nat i" "i < ?n"
      by auto
    then show "get_block_by_height (nd_ext E) (nd_sled E) h (ss_db (en_store en)) = Inr (Some (fst (bs ! unat h)))"
      using reads [of i] assms(8) by (simp add: unat_of_nat)
  qed
  moreover have "map (\<lambda>h :: u64. fst (bs ! unat h)) (map word_of_nat [?s..<min (?s + ?l) ?n]) =
      map fst (take ?l (drop ?s bs))"
  proof (rule nth_equalityI)
    fix i
    assume "i < length (map (\<lambda>h :: u64. fst (bs ! unat h)) (map word_of_nat [?s..<min (?s + ?l) ?n]))"
    then have "?s + i < ?n" "i < ?l" "?s + i < min (?s + ?l) ?n"
      by auto
    then show "map (\<lambda>h :: u64. fst (bs ! unat h)) (map word_of_nat [?s..<min (?s + ?l) ?n]) ! i =
        map fst (take ?l (drop ?s bs)) ! i"
      using assms(8) by (simp add: unat_of_nat del: of_nat_add)
  qed auto
  ultimately show ?thesis
    using requested_heights_bounds [OF assms(10), of ?n] assms(7,8)
    by (simp add: handle_sync_request_def height Let_def)
qed

theorem sync_answer_is_chain_segment_witness:
  "handle_sync_request sample_node \<lparr>sreq_start_height = 1, sreq_limit = 5\<rparr> 3
     (observer\<lparr>en_store := snd (apply_chain sample_codec mem_sled sample_chain (fresh_store mem_empty))\<rparr>) =
   Some (send_command (SendSyncResponse 3 \<lparr>sres_blocks = [sample_block 1 [sample_tx 2]]\<rparr>)
     (observer\<lparr>en_store := snd (apply_chain sample_codec mem_sled sample_chain (fresh_store mem_empty))\<rparr>))"
proof -
  have node: "nd_sled sample_node = mem_sled" "nd_ext sample_node = sample_codec"
    by (simp_all add: sample_node_def)
  have "sample_chain \<noteq> []" "length sample_chain = 2" "map fst (drop 1 sample_chain) = [sample_block 1 [sample_tx 2]]"
    by (simp_all add: sample_chain_def)
  then show ?thesis
    using sync_answer_is_chain_segment [of sample_node, unfolded node, OF mem.sled_db_axioms no_data_mem
        chain_accepted_sample(2) refl chain_accepted_sample(1) readable_sample_chain,
        of "observer\<lparr>en_store := snd (apply_chain sample_codec mem_sled sample_chain (fresh_store mem_empty))\<rparr>"
          "\<lparr>sreq_start_height = 1, sreq_limit = 5\<rparr>" 3]
    by (simp add: take_map drop_map)
qed

end
