(* ===== verification/Round_Progress.thy ===== *)
theory Round_Progress
  imports Bft
begin

text \<open>
  Progress within one round of bft.rs: phases are ordered and only go forward, and the operations
  that have an effect (a vote that is new, an advance that happens) are bounded in number, so
  repeated votes cannot keep a round busy.
\<close>

section \<open>The order of the phases\<close>

fun phase_rank :: "bft_phase \<Rightarrow> nat" where
  "phase_rank Bft_Propose = 0"
| "phase_rank Bft_Prevote = 1"
| "phase_rank Bft_Precommit = 2"
| "phase_rank Bft_Commit = 3"

lemma phase_rank_inject [simp]: "phase_rank p = phase_rank q \<longleftrightarrow> p = q"
  by (cases p; cases q) simp_all

lemma phase_rank_le: "phase_rank p \<le> 3"
  by (cases p) simp_all

instantiation bft_phase :: linorder
begin

definition less_eq_bft_phase :: "bft_phase \<Rightarrow> bft_phase \<Rightarrow> bool" where
  "less_eq_bft_phase p q \<longleftrightarrow> phase_rank p \<le> phase_rank q"

definition less_bft_phase :: "bft_phase \<Rightarrow> bft_phase \<Rightarrow> bool" where
  "less_bft_phase p q \<longleftrightarrow> phase_rank p < phase_rank q"

instance
  by standard (auto simp: less_eq_bft_phase_def less_bft_phase_def)

end

lemma advance_phase_less: "try_advance_phase h s = (Some p, s') \<Longrightarrow> brs_phase s < brs_phase s'"
  by (auto simp: try_advance_phase_def less_bft_phase_def split: if_splits)

section \<open>Operations with an effect\<close>

text \<open>
  \<open>M\<close> are the validators the node accepts votes from and \<open>H\<close> the block hashes voted on; a step is
  a vote that \<open>add_vote\<close> reports as new, or an advance that \<open>try_advance_phase\<close> reports.
\<close>

inductive round_activity :: "bytes set \<Rightarrow> hash32 set \<Rightarrow> bft_round_state \<Rightarrow> bft_round_state \<Rightarrow> bool" for M H where
  NewVote: "add_vote v s = (True, s') \<Longrightarrow> vote_validator_id v \<in> M \<Longrightarrow> vote_block_hash v \<in> H \<Longrightarrow>
    round_activity M H s s'"
| NewPhase: "try_advance_phase h s = (Some p, s') \<Longrightarrow> round_activity M H s s'"

text \<open>What is left to do: the votes not yet counted, and the phases not yet reached.\<close>

definition open_votes :: "bytes set \<Rightarrow> hash32 set \<Rightarrow> (hash32 \<rightharpoonup> bytes fset) \<Rightarrow> nat" where
  "open_votes M H m = (\<Sum>h \<in> H. card (M - voters m h))"

definition work_left :: "bytes set \<Rightarrow> hash32 set \<Rightarrow> bft_round_state \<Rightarrow> nat" where
  "work_left M H s = open_votes M H (brs_prevotes s) + open_votes M H (brs_precommits s) + (3 - phase_rank (brs_phase s))"

lemma open_votes_new:
  assumes "finite M" "finite H" "h \<in> H" "vid \<in> M" "vid \<notin> voters m h"
    and "\<And>k. voters m' k = (if k = h then insert vid (voters m k) else voters m k)"
  shows "open_votes M H m' < open_votes M H m"
proof -
  have "open_votes M H m' = card (M - insert vid (voters m h)) + (\<Sum>k \<in> H - {h}. card (M - voters m k))"
    using assms(2,3) by (simp add: open_votes_def sum.remove assms(6))
  moreover have "open_votes M H m = card (M - voters m h) + (\<Sum>k \<in> H - {h}. card (M - voters m k))"
    using assms(2,3) by (simp add: open_votes_def sum.remove)
  moreover have "card (M - insert vid (voters m h)) < card (M - voters m h)"
    using assms(1,4,5) by (intro psubset_card_mono) auto
  ultimately show ?thesis
    by simp
qed

lemma activity_decreases:
  assumes "finite M" "finite H" "round_activity M H s s'"
  shows "work_left M H s' < work_left M H s \<and> brs_phase s \<le> brs_phase s'"
  using assms(3)
proof cases
  case (NewVote v)
  have new: "vote_validator_id v \<notin> voters (case vote_kind v of Prevote \<Rightarrow> brs_prevotes s | Precommit \<Rightarrow> brs_precommits s) (vote_block_hash v)"
      "vote_height v = brs_height s" "vote_round v = brs_round s" "s' = snd (add_vote v s)"
    using NewVote(1) by (auto simp: add_vote_def record_voter_def voters_def Let_def
        split: if_splits vote_type.splits option.splits)
  show ?thesis
  proof (cases "vote_kind v")
    case Prevote
    have "open_votes M H (brs_prevotes s') < open_votes M H (brs_prevotes s)"
      by (rule open_votes_new [OF assms(1,2) NewVote(3,2)]) (use new Prevote in \<open>auto simp: add_vote_voters\<close>)
    moreover have "brs_precommits s' = brs_precommits s"
      using new Prevote by (simp add: add_vote_def split_beta)
    ultimately show ?thesis
      using new(4) by (simp add: work_left_def frame_simps)
  next
    case Precommit
    have "open_votes M H (brs_precommits s') < open_votes M H (brs_precommits s)"
      by (rule open_votes_new [OF assms(1,2) NewVote(3,2)]) (use new Precommit in \<open>auto simp: add_vote_voters\<close>)
    moreover have "brs_prevotes s' = brs_prevotes s"
      using new Precommit by (simp add: add_vote_def split_beta)
    ultimately show ?thesis
      using new(4) by (simp add: work_left_def frame_simps)
  qed
next
  case (NewPhase h p)
  have "s' = snd (try_advance_phase h s)"
    using NewPhase by simp
  then have "brs_prevotes s' = brs_prevotes s" "brs_precommits s' = brs_precommits s"
    by (simp_all add: frame_simps)
  then show ?thesis
    using advance_phase_less [OF NewPhase] phase_rank_le [of "brs_phase s'"]
    by (simp add: work_left_def less_bft_phase_def less_eq_bft_phase_def)
qed

lemma work_left_bound:
  assumes "finite M"
  shows "work_left M H s \<le> 2 * (card H * card M) + 3"
proof -
  have each: "open_votes M H m \<le> card H * card M" for m
    unfolding open_votes_def
    using sum_bounded_above [of H "\<lambda>h. card (M - voters m h)" "card M"] assms
    by (simp add: card_mono)
  show ?thesis
    using each [of "brs_prevotes s"] each [of "brs_precommits s"] unfolding work_left_def by linarith
qed

text \<open>
  C25: a round comes to rest. Whatever votes arrive and however often they are repeated, votes of n
  validators on k block hashes have at most 2nk + 3 effects in one round - every further vote is
  reported as known and every further attempt to advance as unsuccessful - and the phase only
  ever moves forward.
\<close>

theorem round_comes_to_rest:
  assumes "finite M" "finite H" "successively (round_activity M H) (s # ss)"
  shows "length ss \<le> 2 * (card H * card M) + 3 \<and> sorted (map brs_phase (s # ss))"
proof -
  have "length ss \<le> work_left M H s \<and> sorted (map brs_phase (s # ss))"
    using assms(3)
  proof (induction ss arbitrary: s)
    case (Cons t ts)
    then have "work_left M H t < work_left M H s" "brs_phase s \<le> brs_phase t"
      using activity_decreases [OF assms(1,2)] by auto
    moreover have "length ts \<le> work_left M H t" "sorted (map brs_phase (t # ts))"
      using Cons by auto
    ultimately show ?case
      by auto
  qed simp
  then show ?thesis
    using work_left_bound [OF assms(1), of H s] by linarith
qed

theorem round_comes_to_rest_witness:
  "sorted (map brs_phase [bft_round_new 1 0 1, snd (add_vote (sample_vote Precommit 5) (bft_round_new 1 0 1))])"
proof -
  have "add_vote (sample_vote Precommit 5) (bft_round_new 1 0 1) =
      (True, snd (add_vote (sample_vote Precommit 5) (bft_round_new 1 0 1)))"
    by (simp add: add_vote_def sample_vote_def bft_round_new_def record_voter_def)
  then have "round_activity {replicate 32 5} {Hash32_ZERO} (bft_round_new 1 0 1)
      (snd (add_vote (sample_vote Precommit 5) (bft_round_new 1 0 1)))"
    by (rule round_activity.NewVote) (simp_all add: sample_vote_def)
  then show ?thesis
    using round_comes_to_rest [of "{replicate 32 5}" "{Hash32_ZERO}" "bft_round_new 1 0 1"
        "[snd (add_vote (sample_vote Precommit 5) (bft_round_new 1 0 1))]"]
    by simp
qed

end
