(* ===== verification/Leader.thy ===== *)
theory Leader
  imports Validators "HOL-Library.List_Lexorder"
begin

text \<open>
  Leader selection, epochs and slashing of crates/noirnet-consensus (leader.rs, epoch.rs,
  slashing.rs). The draw of the leader selector is a second instance of \<open>weighted_loop\<close>.
\<close>

section \<open>The leader selector\<close>

record leader_selector =
  ls_active_validators :: "validator_state list"

text \<open>\<open>LeaderSelector::new\<close>: a stable sort by the bytes of the identifier.\<close>

definition leader_selector_new :: "validator_state list \<Rightarrow> leader_selector" where
  "leader_selector_new validators =
     \<lparr>ls_active_validators = sort_key (\<lambda>v. map unat (vr_validator_id (vs_registration v))) validators\<rparr>"

text \<open>The loop of \<open>select_leader\<close>.\<close>

fun select_loop_stake :: "u128 \<Rightarrow> u128 \<Rightarrow> validator_state list \<Rightarrow> validator_state option" where
  "select_loop_stake target cumulative [] = None"
| "select_loop_stake target cumulative (v # vs) =
     (let cumulative = cumulative + vs_total_stake v
      in if cumulative > target then Some v else select_loop_stake target cumulative vs)"

definition leader_seed :: "ext \<Rightarrow> bytes \<Rightarrow> u32 \<Rightarrow> bytes" where
  "leader_seed X entropy rnd =
     blake3 X (ascii ''NoirNet_leader_selection_v1'' @ entropy @ u32_to_le rnd)"

text \<open>The panic without validators is \<open>None\<close>.\<close>

definition select_leader :: "ext \<Rightarrow> leader_selector \<Rightarrow> bytes \<Rightarrow> u32 \<Rightarrow> validator_id option" where
  "select_leader X sel entropy rnd =
     (let vs = ls_active_validators sel
      in if vs = [] then None
      else let seed = leader_seed X entropy rnd;
               total_stake = sum_list (map vs_total_stake vs)
      in if total_stake = 0
         then let idx = unat (u32_from_le (take 4 seed)) mod length vs
              in Some (vr_validator_id (vs_registration (vs ! idx)))
         else let target = u128_from_le (take 16 seed) mod total_stake
              in case select_loop_stake target 0 vs of
                   Some v \<Rightarrow> Some (vr_validator_id (vs_registration v))
                 | None \<Rightarrow> Some (vr_validator_id (vs_registration (last vs))))"

interpretation selection: weighted_loop vs_total_stake select_loop_stake
  by unfold_locales (simp_all add: Let_def)

section \<open>Epochs\<close>

definition DEFAULT_EPOCH_LENGTH :: u64 where
  "DEFAULT_EPOCH_LENGTH = 1000"

record epoch_schedule =
  es_epoch_length :: u64

definition epoch_schedule_default :: epoch_schedule where
  "epoch_schedule_default = \<lparr>es_epoch_length = DEFAULT_EPOCH_LENGTH\<rparr>"

definition epoch_at_height :: "epoch_schedule \<Rightarrow> u64 \<Rightarrow> u64" where
  "epoch_at_height es height = height div max (es_epoch_length es) 1"

text \<open>\<open>u64::saturating_mul\<close>, \<open>u128::saturating_mul\<close> and \<open>u128::saturating_add\<close>.\<close>

definition sat_mul :: "'a::len word \<Rightarrow> 'a word \<Rightarrow> 'a word" where
  "sat_mul a b = (if unat a * unat b < 2 ^ LENGTH('a) then a * b else - 1)"

definition sat_add :: "'a::len word \<Rightarrow> 'a word \<Rightarrow> 'a word" where
  "sat_add a b = (if unat a + unat b < 2 ^ LENGTH('a) then a + b else - 1)"

definition first_height :: "epoch_schedule \<Rightarrow> u64 \<Rightarrow> u64" where
  "first_height es epoch = sat_mul epoch (max (es_epoch_length es) 1)"

definition is_epoch_boundary :: "epoch_schedule \<Rightarrow> u64 \<Rightarrow> bool" where
  "is_epoch_boundary es height \<longleftrightarrow> height > 0 \<and> height mod max (es_epoch_length es) 1 = 0"

definition active_validators :: "validator_state list \<Rightarrow> validator_state list" where
  "active_validators vs = filter vs_is_active vs"

section \<open>Slashing\<close>

datatype consensus_error =
    NotLeader
  | InvalidProposal string
  | InvalidAggregateProof
  | InsufficientPrecommits
  | DoubleSign

record slash_outcome =
  so_validator_id :: validator_id
  so_amount :: u128
  so_tombstoned :: bool

definition calculate_slash :: "u128 \<Rightarrow> u64 \<Rightarrow> u128" where
  "calculate_slash stake slash_bps = sat_mul stake (ucast slash_bps) div 10000"

definition apply_double_sign_evidence ::
  "double_sign_evidence \<Rightarrow> slash_params \<Rightarrow> validator_state \<Rightarrow>
    (consensus_error + slash_outcome) \<times> validator_state" where
  "apply_double_sign_evidence evidence params v =
     (if vr_validator_id (vs_registration v) \<noteq> dse_validator_id evidence
      then (Inl (InvalidProposal ''evidence validator does not match validator state''), v)
      else if dse_block_hash_1 evidence = dse_block_hash_2 evidence
      then (Inl (InvalidProposal ''double-sign evidence must contain two different block hashes''), v)
      else let amount = calculate_slash (vs_total_stake v) (sp_double_sign_bps params)
           in (Inr \<lparr>so_validator_id = dse_validator_id evidence, so_amount = amount, so_tombstoned = True\<rparr>,
               v\<lparr>vs_total_slashed := sat_add (vs_total_slashed v) amount, vs_status := Tombstoned\<rparr>))"

section \<open>Facts\<close>

lemma unat_max_value: "unat (- 1 :: 'a::len word) = 2 ^ LENGTH('a) - 1"
  by (simp add: unsigned_minus_1_eq_mask mask_eq_exp_minus_1)

lemma unat_sat_add: "unat (sat_add a b) = min (unat a + unat b) (2 ^ LENGTH('a) - 1)" for a b :: "'a::len word"
  by (auto simp: sat_add_def unat_add_no_wrap unat_max_value min_def)

lemma unat_sat_mul: "unat (sat_mul a b) = min (unat a * unat b) (2 ^ LENGTH('a) - 1)" for a b :: "'a::len word"
proof (cases "unat a * unat b < 2 ^ LENGTH('a)")
  case True
  then have "unat (a * b) = unat a * unat b"
    by (simp add: unat_word_ariths)
  moreover have "min (unat a * unat b) (2 ^ LENGTH('a) - 1) = unat a * unat b"
    using True by (intro min_absorb1) linarith
  ultimately show ?thesis using True by (simp add: sat_mul_def)
next
  case False
  then have "min (unat a * unat b) (2 ^ LENGTH('a) - 1) = 2 ^ LENGTH('a) - 1"
    by linarith
  with False show ?thesis by (simp add: sat_mul_def unat_max_value)
qed

lemma unat_inj: "inj (unat :: 'a::len word \<Rightarrow> nat)"
  by (auto intro: injI)

text \<open>
  Every node that knows the same validators, in whatever order, builds the same selector and
  so draws the same leader from the same entropy and round, provided identifiers are distinct.
\<close>

theorem leader_selection_order_independent:
  assumes "mset us = mset vs" "distinct (map (\<lambda>v. vr_validator_id (vs_registration v)) vs)"
  shows "leader_selector_new us = leader_selector_new vs"
proof -
  let ?k = "\<lambda>v. map unat (vr_validator_id (vs_registration v))"
  have "inj_on ?k (set vs)"
    using assms(2) by (auto simp: distinct_map inj_on_def inj_map_eq_map [OF unat_inj])
  moreover have "set us = set vs"
    by (rule mset_eq_setD [OF assms(1)])
  ultimately have "sort_key ?k us = sort_key ?k vs"
    using assms(1) by (intro sort_key_inj_key_eq) simp_all
  then show ?thesis
    by (simp add: leader_selector_new_def)
qed

definition sample_validator :: "u8 \<Rightarrow> u128 \<Rightarrow> validator_state" where
  "sample_validator n stake =
     \<lparr>vs_registration = \<lparr>vr_bls_pubkey = replicate 48 n, vr_network_pubkey = replicate 32 n, vr_stake = stake,
        vr_commission_bps = 1000, vr_epoch = 0, vr_signature = replicate 64 0\<rparr>,
      vs_status = Active, vs_own_stake = stake, vs_delegated_stake = 0, vs_consecutive_misses = 0,
      vs_last_signed_height = 0, vs_pending_rewards = 0, vs_total_slashed = 0\<rparr>"

theorem leader_selection_order_independent_witness:
  "leader_selector_new [sample_validator 2 200, sample_validator 1 100] =
   leader_selector_new [sample_validator 1 100, sample_validator 2 200]"
  by (rule leader_selection_order_independent) (simp_all add: sample_validator_def vr_validator_id_def)

lemma unat_total_weight:
  "total_weight w vs < 2 ^ 128 \<Longrightarrow> unat (sum_list (map w vs)) = total_weight w vs"
  unfolding total_weight_def by (subst unat_sum_list_no_wrap) (simp_all add: comp_def)

lemma select_leader_draw:
  assumes "vs = ls_active_validators sel" "total_weight vs_total_stake vs < 2 ^ 128" "0 < total_weight vs_total_stake vs"
    and "t = u128_from_le (take 16 (leader_seed X entropy rnd)) mod sum_list (map vs_total_stake vs)"
  shows "\<exists>v. select_loop_stake t 0 vs = Some v \<and> v \<in> set vs \<and> vs_total_stake v \<noteq> 0 \<and>
    select_leader X sel entropy rnd = Some (vr_validator_id (vs_registration v))"
proof -
  note T = unat_total_weight [OF assms(2)]
  have "unat t < total_weight vs_total_stake vs"
    using assms(3,4) T by (simp add: unat_mod)
  then obtain v where "select_loop_stake t 0 vs = Some v" "v \<in> set vs" "vs_total_stake v \<noteq> 0"
    using selection.draw_hits [of 0 vs t] assms(2) by auto
  moreover have "sum_list (map vs_total_stake vs) \<noteq> 0"
    using T assms(3) by auto
  moreover have "vs \<noteq> []" using assms(3) by auto
  ultimately show ?thesis
    using assms(1,4) by (auto simp: select_leader_def Let_def)
qed

text \<open>
  When the total stake fits 128 bits and is positive, selection returns a validator with a
  positive stake (never the last-validator fallback), and it is fair: over the hash outputs that
  carry a number below the total, a validator is selected by exactly as many as its stake.
\<close>

theorem select_leader_fair:
  assumes "vs = ls_active_validators sel" "total_weight vs_total_stake vs < 2 ^ 128" "0 < total_weight vs_total_stake vs"
    and "distinct (map (\<lambda>v. vr_validator_id (vs_registration v)) vs)" "v \<in> set vs"
  shows "(\<exists>u \<in> set vs. vs_total_stake u \<noteq> 0 \<and>
      select_leader X sel entropy rnd = Some (vr_validator_id (vs_registration u))) \<and>
    card {r. r < total_weight vs_total_stake vs \<and>
      select_leader (X\<lparr>blake3 := \<lambda>_. vrf_of_nat r\<rparr>) sel entropy rnd = Some (vr_validator_id (vs_registration v))} =
    unat (vs_total_stake v)"
proof
  show "\<exists>u \<in> set vs. vs_total_stake u \<noteq> 0 \<and>
      select_leader X sel entropy rnd = Some (vr_validator_id (vs_registration u))"
    using select_leader_draw [OF assms(1-3) refl] by blast
  let ?id = "\<lambda>v. vr_validator_id (vs_registration v)"
  note T = unat_total_weight [OF assms(2)]
  have inj: "inj_on ?id (set vs)" and dist: "distinct vs"
    using assms(4) by (simp_all add: distinct_map)
  have "select_leader (X\<lparr>blake3 := \<lambda>_. vrf_of_nat r\<rparr>) sel entropy rnd = Some (?id v) \<longleftrightarrow>
      select_loop_stake (word_of_nat r) 0 vs = Some v" if r: "r < total_weight vs_total_stake vs" for r
  proof -
    have ur: "unat (word_of_nat r :: u128) = r"
      using r assms(2) by (simp add: unat_of_nat)
    have "(word_of_nat r :: u128) mod sum_list (map vs_total_stake vs) = word_of_nat r"
      using ur r T by (simp add: word_arith_nat_mod)
    then obtain u where "select_loop_stake (word_of_nat r) 0 vs = Some u" "u \<in> set vs"
        "select_leader (X\<lparr>blake3 := \<lambda>_. vrf_of_nat r\<rparr>) sel entropy rnd = Some (?id u)"
      using select_leader_draw [OF assms(1-3) refl, of "X\<lparr>blake3 := \<lambda>_. vrf_of_nat r\<rparr>" entropy rnd]
      by (auto simp: leader_seed_def u128_from_vrf_of_nat)
    then show ?thesis
      using inj assms(5) by (auto dest: inj_onD)
  qed
  then have "{r. r < total_weight vs_total_stake vs \<and>
      select_leader (X\<lparr>blake3 := \<lambda>_. vrf_of_nat r\<rparr>) sel entropy rnd = Some (?id v)} =
    {t. unat (0 :: u128) \<le> t \<and> t < unat (0 :: u128) + total_weight vs_total_stake vs \<and>
      select_loop_stake (word_of_nat t) 0 vs = Some v}"
    by auto
  then show "card {r. r < total_weight vs_total_stake vs \<and>
      select_leader (X\<lparr>blake3 := \<lambda>_. vrf_of_nat r\<rparr>) sel entropy rnd = Some (?id v)} = unat (vs_total_stake v)"
    using selection.draw_count [of 0 vs v] assms(2,5) dist by simp
qed

theorem select_leader_fair_witness:
  "card {r. r < 300 \<and> select_leader (sample_ext\<lparr>blake3 := \<lambda>_. vrf_of_nat r\<rparr>)
      \<lparr>ls_active_validators = [sample_validator 1 100, sample_validator 2 200]\<rparr> [] 0 = Some (replicate 48 2)} = 200"
  using select_leader_fair [of "[sample_validator 1 100, sample_validator 2 200]"
      "\<lparr>ls_active_validators = [sample_validator 1 100, sample_validator 2 200]\<rparr>" "sample_validator 2 200" sample_ext "[]" 0]
  by (simp add: sample_validator_def vr_validator_id_def vs_total_stake_def)

text \<open>
  Double-sign evidence. Mismatching evidence is refused and changes nothing; accepted
  evidence tombstones the validator and records a slash of at most its stake (for rates up to
  100 per cent; exactly rate times stake over 10000 when the product fits), while the stake
  itself is not reduced. Neither the signatures nor the height of the evidence take part, and
  the same evidence is accepted again.
\<close>

theorem double_sign_evidence_effect:
  assumes "run = apply_double_sign_evidence ev params v"
  shows "(case fst run of
      Inl e \<Rightarrow> snd run = v \<and> (vr_validator_id (vs_registration v) \<noteq> dse_validator_id ev \<or>
        dse_block_hash_1 ev = dse_block_hash_2 ev)
    | Inr out \<Rightarrow> so_amount out = calculate_slash (vs_total_stake v) (sp_double_sign_bps params) \<and>
        vs_status (snd run) = Tombstoned \<and> vs_total_stake (snd run) = vs_total_stake v \<and>
        unat (vs_total_slashed (snd run)) = min (unat (vs_total_slashed v) + unat (so_amount out)) (2 ^ 128 - 1) \<and>
        fst (apply_double_sign_evidence ev params (snd run)) = Inr out) \<and>
    fst (apply_double_sign_evidence (ev\<lparr>dse_sig_1 := s1, dse_sig_2 := s2, dse_height := h\<rparr>) params v) = fst run"
  using assms by (auto simp: apply_double_sign_evidence_def Let_def unat_sat_add vs_total_stake_def)

definition sample_evidence :: double_sign_evidence where
  "sample_evidence = \<lparr>dse_validator_id = replicate 48 1, dse_height = 100, dse_block_hash_1 = replicate 32 1,
     dse_block_hash_2 = replicate 32 2, dse_sig_1 = [], dse_sig_2 = []\<rparr>"

theorem double_sign_evidence_effect_witness:
  "vs_status (snd (apply_double_sign_evidence sample_evidence slash_params_default (sample_validator 1 10000))) = Tombstoned"
  using double_sign_evidence_effect [OF refl, of sample_evidence slash_params_default "sample_validator 1 10000"]
  by (simp add: apply_double_sign_evidence_def sample_evidence_def sample_validator_def vr_validator_id_def Let_def)

text \<open>
  A slash takes exactly the rate's share of the stake, rounded down, and never more than the stake.\<close>

theorem calculate_slash_bounds:
  assumes "unat bps \<le> 10000"
  shows "unat (calculate_slash stake bps) \<le> unat stake \<and>
    (unat stake * unat bps < 2 ^ 128 \<longrightarrow> unat (calculate_slash stake bps) = unat stake * unat bps div 10000)"
proof -
  have bps: "unat (ucast bps :: u128) = unat bps"
    by (simp add: unsigned_ucast_eq take_bit_nat_eq_self_iff) (rule order.strict_trans [OF unsigned_less], simp)
  have "unat (calculate_slash stake bps) = min (unat stake * unat bps) (2 ^ 128 - 1) div 10000"
    by (simp add: calculate_slash_def unat_div unat_sat_mul bps)
  moreover have "min (unat stake * unat bps) (2 ^ 128 - 1) div 10000 \<le> unat stake * 10000 div 10000"
    using assms by (intro div_le_mono) (simp add: min.coboundedI1)
  ultimately show ?thesis by (auto simp: min_def)
qed

theorem calculate_slash_bounds_witness: "unat (calculate_slash 10000 500) = 500"
  using calculate_slash_bounds [of 500 10000] by simp

text \<open>
  Epochs partition the heights: a height lies in the epoch computed for it, between that
  epoch's first height and the next one's, and a boundary is a positive first height.
\<close>

theorem epoch_schedule_partitions:
  assumes "unat (epoch_at_height es height) * unat (max (es_epoch_length es) 1) + unat (max (es_epoch_length es) 1) < 2 ^ 64"
  shows "first_height es (epoch_at_height es height) \<le> height \<and>
    unat height < unat (first_height es (epoch_at_height es height)) + unat (max (es_epoch_length es) 1) \<and>
    (is_epoch_boundary es height \<longleftrightarrow> height > 0 \<and> first_height es (epoch_at_height es height) = height)"
proof -
  let ?len = "max (es_epoch_length es) 1"
  have pos: "unat ?len > 0"
    by (metis gr0I max.cobounded2 unat_0 unat_1 word_le_nat_alt zero_neq_one le_zero_eq)
  have F: "unat (first_height es (epoch_at_height es height)) = unat height div unat ?len * unat ?len"
    using assms by (simp add: first_height_def epoch_at_height_def unat_sat_mul unat_div)
  have H: "unat height = unat height div unat ?len * unat ?len + unat height mod unat ?len"
    by simp
  have M: "height mod ?len = 0 \<longleftrightarrow> unat height mod unat ?len = 0"
    by (subst unat_eq_0 [symmetric]) (simp only: unat_mod)
  have eq: "first_height es (epoch_at_height es height) = height \<longleftrightarrow> unat height mod unat ?len = 0"
    by (subst word_unat_eq_iff) (use F H in linarith)
  have "unat height mod unat ?len < unat ?len"
    by (rule mod_less_divisor [OF pos])
  then have "unat height < unat (first_height es (epoch_at_height es height)) + unat ?len"
    and "unat (first_height es (epoch_at_height es height)) \<le> unat height"
    using F H by linarith+
  then show ?thesis
    using M eq by (simp add: is_epoch_boundary_def word_le_nat_alt)
qed

theorem epoch_schedule_partitions_witness:
  "first_height epoch_schedule_default (epoch_at_height epoch_schedule_default 2500) \<le> 2500"
  using epoch_schedule_partitions [of epoch_schedule_default 2500]
  by (simp add: epoch_schedule_default_def DEFAULT_EPOCH_LENGTH_def epoch_at_height_def)

end
