(* ===== verification/Engine_Forks.thy ===== *)
theory Engine_Forks
  imports Engine_Rounds Leader
begin

text \<open>
  Successive rounds of one height. A validator's precommit binds it in no later round: the
  engine keeps neither a lock nor the block it precommitted (engine.rs, the arms for timeouts
  and for blocks), so the rounds of a height can commit different blocks.
\<close>

section \<open>A new round\<close>

lemma voters_none: "voters (\<lambda>x. None) h = {}"
  by (simp add: voters_def)

lemma timeout_run:
  assumes "handle_timeout (rv, en) = (rv', en')"
  shows "rv' = rv\<lparr>rv_round := rv_round rv + 1,
      rv_bft := bft_round_new (rv_height rv) (rv_round rv + 1) (rv_total_validators rv)\<rparr>"
    "en_sync en' = en_sync en" "en_store en' = en_store en" "en_pool en' = en_pool en"
    "en_local_id en' = en_local_id en" "en_secret_key en' = en_secret_key en"
  using assms by (auto simp: handle_timeout_def Let_def)

text \<open>A block of the engine's own height does not start a download, so it is taken as the proposal.\<close>

lemma own_height_no_download:
  assumes "unat h + 4 < 2 ^ 64" "\<not> sm_is_syncing m"
  shows "handle_peer_height p h (sat_sub h 1) m = (None, m\<lparr>sm_active_peers := insert p (sm_active_peers m)\<rparr>)"
proof -
  have "\<not> h > sat_sub h 1 + 5"
  proof (cases "h = 0")
    case True
    then show ?thesis by (simp add: sat_sub_def)
  next
    case False
    then have pred: "unat (h - 1) = unat h - 1" and pos: "0 < unat h"
      by (simp_all add: unat_minus_one unat_gt_0)
    have "unat (h - 1 + 5) = unat (h - 1) + 5"
      using assms(1) pred pos by (simp add: unat_word_ariths)
    then have "\<not> unat (h - 1 + 5) < unat h"
      using pred pos by linarith
    moreover have "1 \<le> h"
      using pos unfolding word_le_nat_alt by (simp add: Suc_le_eq)
    ultimately show ?thesis
      by (simp add: sat_sub_def word_less_nat_alt)
  qed
  with assms(2) show ?thesis
    by (simp add: handle_peer_height_def)
qed

text \<open>In a new round the proposal is voted for, whatever was voted for before.\<close>

definition own_vote :: "'db node_env \<Rightarrow> round_vars \<Rightarrow> 'db engine \<Rightarrow> bytes \<Rightarrow> vote_type \<Rightarrow> hash32 \<Rightarrow> vote" where
  "own_vote E rv en sk kind h =
     \<lparr>vote_height = rv_height rv, vote_round = rv_round rv, vote_block_hash = h, vote_kind = kind,
      vote_validator_id = en_local_id en, vote_signature = bls_sign (nd_crypto E) sk h\<rparr>"

lemma proposal_of_fresh_round:
  assumes "unat (rv_height rv) + 4 < 2 ^ 64" "\<not> sm_is_syncing (en_sync en)" "bh_height (blk_header b) = rv_height rv"
    and "rv_bft rv = bft_round_new (rv_height rv) (rv_round rv) (rv_total_validators rv)"
    and "handle_block E peer b (rv, en) = (rv2, en2)" "h = header_hash (nd_ext E) (blk_header b)"
  shows "rv_current_block rv2 = Some b" "brs_phase (rv_bft rv2) = Bft_Prevote"
    "rv_height rv2 = rv_height rv" "rv_round rv2 = rv_round rv" "rv_val_set rv2 = rv_val_set rv"
    "rv_total_validators rv2 = rv_total_validators rv" "brs_height (rv_bft rv2) = rv_height rv"
    "brs_round (rv_bft rv2) = rv_round rv" "brs_total_validators (rv_bft rv2) = rv_total_validators rv"
    "voters (brs_prevotes (rv_bft rv2)) h \<subseteq> {en_local_id en}" "voters (brs_precommits (rv_bft rv2)) h' = {}"
    "en_local_id en2 = en_local_id en" "en_store en2 = en_store en" "en_pool en2 = en_pool en"
    "en_secret_key en2 = en_secret_key en"
    "\<forall>sk. en_secret_key en = Some sk \<longrightarrow>
       BroadcastVote (bincode_vote (nd_ext E) (own_vote E rv en sk Prevote h)) \<in> set (ps_high (en_out en2))"
proof -
  let ?rv = "rv\<lparr>rv_current_block := Some b, rv_bft := (rv_bft rv)\<lparr>brs_phase := Bft_Prevote\<rparr>\<rparr>"
  let ?en = "en\<lparr>en_sync := (en_sync en)\<lparr>sm_active_peers := insert peer (sm_active_peers (en_sync en))\<rparr>\<rparr>"
  have hb: "(rv2, en2) = cast_vote E h Prevote (?rv, ?en)"
    using assms(2-5) own_height_no_download [OF assms(1), of "en_sync en" peer]
    unfolding handle_block_def assms(6)
    by (simp add: Let_def try_advance_phase_def bft_round_new_def)
  show "rv_current_block rv2 = Some b" "brs_phase (rv_bft rv2) = Bft_Prevote"
    "rv_height rv2 = rv_height rv" "rv_round rv2 = rv_round rv" "rv_val_set rv2 = rv_val_set rv"
    "rv_total_validators rv2 = rv_total_validators rv" "brs_height (rv_bft rv2) = rv_height rv"
    "brs_round (rv_bft rv2) = rv_round rv" "brs_total_validators (rv_bft rv2) = rv_total_validators rv"
    "voters (brs_prevotes (rv_bft rv2)) h \<subseteq> {en_local_id en}" "voters (brs_precommits (rv_bft rv2)) h' = {}"
    "en_local_id en2 = en_local_id en" "en_store en2 = en_store en" "en_pool en2 = en_pool en"
    "en_secret_key en2 = en_secret_key en"
    "\<forall>sk. en_secret_key en = Some sk \<longrightarrow>
       BroadcastVote (bincode_vote (nd_ext E) (own_vote E rv en sk Prevote h)) \<in> set (ps_high (en_out en2))"
    using hb assms(4)
    by (auto simp: cast_vote_def Let_def frame_simps add_vote_voters bft_round_new_def own_vote_def
        send_command_def priority_send_def voters_none split: option.splits if_splits)
qed

text \<open>After a timeout too, whatever was voted for in the round before.\<close>

lemma proposal_of_new_round:
  assumes "unat (rv_height rv) + 4 < 2 ^ 64" "\<not> sm_is_syncing (en_sync en)" "bh_height (blk_header b) = rv_height rv"
    and "handle_block E peer b (handle_timeout (rv, en)) = (rv2, en2)" "h = header_hash (nd_ext E) (blk_header b)"
  shows "rv_current_block rv2 = Some b" "brs_phase (rv_bft rv2) = Bft_Prevote"
    "rv_height rv2 = rv_height rv" "rv_round rv2 = rv_round rv + 1" "rv_val_set rv2 = rv_val_set rv"
    "rv_total_validators rv2 = rv_total_validators rv"
    "voters (brs_prevotes (rv_bft rv2)) h \<subseteq> {en_local_id en}" "voters (brs_precommits (rv_bft rv2)) h = {}"
    "en_local_id en2 = en_local_id en" "en_store en2 = en_store en" "en_pool en2 = en_pool en"
    "\<forall>sk. en_secret_key en = Some sk \<longrightarrow>
       BroadcastVote (bincode_vote (nd_ext E) (own_vote E rv2 en sk Prevote h)) \<in> set (ps_high (en_out en2))"
proof -
  obtain rv1 en1 where run: "handle_timeout (rv, en) = (rv1, en1)"
    by fastforce
  note r = timeout_run [OF run]
  have "unat (rv_height rv1) + 4 < 2 ^ 64" "\<not> sm_is_syncing (en_sync en1)" "bh_height (blk_header b) = rv_height rv1"
    "rv_bft rv1 = bft_round_new (rv_height rv1) (rv_round rv1) (rv_total_validators rv1)"
    "handle_block E peer b (rv1, en1) = (rv2, en2)"
    using assms(1-4) by (simp_all add: r run)
  note p = proposal_of_fresh_round [OF this assms(5)]
  show "rv_current_block rv2 = Some b" "brs_phase (rv_bft rv2) = Bft_Prevote"
    "rv_height rv2 = rv_height rv" "rv_round rv2 = rv_round rv + 1" "rv_val_set rv2 = rv_val_set rv"
    "rv_total_validators rv2 = rv_total_validators rv"
    "voters (brs_prevotes (rv_bft rv2)) h \<subseteq> {en_local_id en}" "voters (brs_precommits (rv_bft rv2)) h = {}"
    "en_local_id en2 = en_local_id en" "en_store en2 = en_store en" "en_pool en2 = en_pool en"
    "\<forall>sk. en_secret_key en = Some sk \<longrightarrow>
       BroadcastVote (bincode_vote (nd_ext E) (own_vote E rv2 en sk Prevote h)) \<in> set (ps_high (en_out en2))"
    using p by (simp_all add: r own_vote_def)
qed

text \<open>
  C14: no lock binds the rounds of a height. Take an engine that has seen the prevote quorum for
  the proposal \<open>a\<close> (of hash \<open>ha\<close>, if the voters are honest) and has precommitted it. If the
  precommits of two thirds of the validators reach it, it executes \<open>a\<close>. If they are late and the round times out, then a block \<open>b\<close> of the same
  height that arrives next is voted for, and prevotes and precommits for its hash by the same
  validators make the engine execute \<open>b\<close>: from one state, two orders of arrival, two different
  blocks on the same parent store.
\<close>

theorem no_lock_between_rounds:
  assumes "engine_reach E en0 (rv, en)" "sync_ok (en_sync en0)" "\<not> sm_is_syncing (en_sync en)"
    and "rv_current_block rv = Some a" "brs_phase (rv_bft rv) = Bft_Precommit"
    and "fresh_votes E rv Precommit ha (voters (brs_precommits (rv_bft rv)) ha) us" "3 * length us > 2 * rv_total_validators rv"
    and "bh_height (blk_header b) = rv_height rv" "unat (rv_height rv) + 4 < 2 ^ 64"
    and "hb = header_hash (nd_ext E) (blk_header b)"
    and "fresh_votes E (rv\<lparr>rv_round := rv_round rv + 1\<rparr>) Prevote hb {en_local_id en} vs"
    and "3 * length vs > 2 * rv_total_validators rv"
    and "fresh_votes E (rv\<lparr>rv_round := rv_round rv + 1\<rparr>) Precommit hb {en_local_id en} ws"
    and "3 * length ws > 2 * rv_total_validators rv"
  shows "(\<exists>rv' en1. deliver_votes E now us (rv, en) = (Break, rv', execute_and_apply_block E now a en1) \<and>
      en_store en1 = en_store en) \<and>
    (\<exists>rv' en1. deliver_votes E now (vs @ ws) (handle_block E peer b (handle_timeout (rv, en))) =
        (Break, rv', execute_and_apply_block E now b en1) \<and> en_store en1 = en_store en) \<and>
    (\<forall>sk. en_secret_key en = Some sk \<longrightarrow>
       BroadcastVote (bincode_vote (nd_ext E) (own_vote E (rv\<lparr>rv_round := rv_round rv + 1\<rparr>) en sk Prevote hb))
         \<in> set (ps_high (en_out (snd (handle_block E peer b (handle_timeout (rv, en)))))))"
proof -
  have inv: "round_inv E (rv, en)"
    by (rule round_inv_reach [OF assms(1,2)])
  obtain votes where "bft_reach (rv_height rv) (rv_round rv) (rv_total_validators rv) votes (rv_bft rv)"
    using inv by (auto simp: round_inv_def votes_vouched_def)
  from bft_reach_tables [OF this] assms(4) have at: "round_at en rv a (rv, en)"
    by (simp add: round_at_def)
  have one: "broke_with E now en a (deliver_votes E now us (rv, en))"
    by (rule deliver_precommits [OF at assms(5,6)]) (use assms(7) in auto)
  obtain rv2 en2 where two: "handle_block E peer b (handle_timeout (rv, en)) = (rv2, en2)"
    by fastforce
  note p = proposal_of_new_round [OF assms(9,3,8) two assms(10)]
  have inv2: "round_inv E (rv2, en2)"
    using round_inv_block round_inv_timeout [OF inv] by (metis two surj_pair)
  have fresh: "fresh_votes E rv2 Prevote hb (voters (brs_prevotes (rv_bft rv2)) hb) vs"
    "fresh_votes E rv2 Precommit hb (insert (en_local_id en2) (voters (brs_precommits (rv_bft rv2)) hb)) ws"
    using assms(11,13) p by (auto simp: fresh_votes_def)
  have "broke_with E now en2 b (deliver_votes E now (vs @ ws) (rv2, en2))"
    by (rule votes_commit [OF inv2 p(1,2) fresh(1) _ fresh(2)]) (use assms(12,14) p(6) in simp_all)
  moreover have "own_vote E rv2 en sk Prevote hb = own_vote E (rv\<lparr>rv_round := rv_round rv + 1\<rparr>) en sk Prevote hb" for sk
    by (simp add: own_vote_def p)
  ultimately show ?thesis
    using one p by (auto simp: broke_with_def two split: prod.splits)
qed

section \<open>Two proposals in one round\<close>

text \<open>A block of the current height is voted for, whether or not one was voted for before.\<close>

lemma own_height_block:
  assumes "unat (rv_height rv) + 4 < 2 ^ 64" "\<not> sm_is_syncing (en_sync en)" "bh_height (blk_header b) = rv_height rv"
    and "en_secret_key en = Some sk" "h = header_hash (nd_ext E) (blk_header b)"
  obtains rv' en' where "handle_block E peer b (rv, en) = (rv', en')" "rv_height rv' = rv_height rv"
    "rv_round rv' = rv_round rv" "\<not> sm_is_syncing (en_sync en')" "en_secret_key en' = Some sk"
    "en_local_id en' = en_local_id en"
    "ps_high (en_out en') = ps_high (en_out en) @ [BroadcastVote (bincode_vote (nd_ext E) (own_vote E rv en sk Prevote h))]"
proof -
  have hp: "handle_peer_height peer (rv_height rv) (sat_sub (rv_height rv) 1) (en_sync en) =
      (None, (en_sync en)\<lparr>sm_active_peers := insert peer (sm_active_peers (en_sync en))\<rparr>)"
    by (rule own_height_no_download [OF assms(1,2)])
  obtain rv' en' where run: "handle_block E peer b (rv, en) = (rv', en')"
    by fastforce
  have "rv_height rv' = rv_height rv" "rv_round rv' = rv_round rv" "\<not> sm_is_syncing (en_sync en')"
    "en_secret_key en' = Some sk" "en_local_id en' = en_local_id en"
    "ps_high (en_out en') = ps_high (en_out en) @ [BroadcastVote (bincode_vote (nd_ext E) (own_vote E rv en sk Prevote h))]"
    using run assms(2-5)
    by (auto simp: handle_block_def hp Let_def cast_vote_def own_vote_def send_command_def priority_send_def)
  with run show ?thesis
    by (rule that)
qed

text \<open>
  C40: a validator that follows the code signs twice and can be slashed for it. Two different
  blocks of its height in one round, which a dishonest leader (or, without a leader check on
  arriving blocks, any peer) sends it, make it sign and broadcast a prevote for each. The two
  signed hashes are double-sign evidence that tombstones the validator.
\<close>

theorem honest_validator_double_signs:
  assumes "unat (rv_height rv) + 4 < 2 ^ 64" "\<not> sm_is_syncing (en_sync en)" "en_secret_key en = Some sk"
    and "bh_height (blk_header b1) = rv_height rv" "bh_height (blk_header b2) = rv_height rv"
    and "h1 = header_hash (nd_ext E) (blk_header b1)" "h2 = header_hash (nd_ext E) (blk_header b2)" "h1 \<noteq> h2"
    and "ev = \<lparr>dse_validator_id = vr_validator_id (vs_registration v), dse_height = rv_height rv,
      dse_block_hash_1 = h1, dse_block_hash_2 = h2, dse_sig_1 = bls_sign (nd_crypto E) sk h1,
      dse_sig_2 = bls_sign (nd_crypto E) sk h2\<rparr>"
  shows "ps_high (en_out (snd (handle_block E p2 b2 (handle_block E p1 b1 (rv, en))))) = ps_high (en_out en) @
      map (\<lambda>h. BroadcastVote (bincode_vote (nd_ext E) \<lparr>vote_height = rv_height rv, vote_round = rv_round rv,
        vote_block_hash = h, vote_kind = Prevote, vote_validator_id = en_local_id en,
        vote_signature = bls_sign (nd_crypto E) sk h\<rparr>)) [h1, h2] \<and>
    vs_status (snd (apply_double_sign_evidence ev params v)) = Tombstoned"
proof -
  obtain rv1 en1 where one: "handle_block E p1 b1 (rv, en) = (rv1, en1)" "rv_height rv1 = rv_height rv"
      "rv_round rv1 = rv_round rv" "\<not> sm_is_syncing (en_sync en1)" "en_secret_key en1 = Some sk"
      "en_local_id en1 = en_local_id en"
      "ps_high (en_out en1) = ps_high (en_out en) @ [BroadcastVote (bincode_vote (nd_ext E) (own_vote E rv en sk Prevote h1))]"
    using own_height_block [OF assms(1,2,4,3,6)] by metis
  obtain rv2 en2 where two: "handle_block E p2 b2 (rv1, en1) = (rv2, en2)"
      "ps_high (en_out en2) = ps_high (en_out en1) @ [BroadcastVote (bincode_vote (nd_ext E) (own_vote E rv1 en1 sk Prevote h2))]"
    using own_height_block [of rv1 en1 b2 sk, OF _ _ _ _ assms(7)] one assms(1,5) by metis
  have "vs_status (snd (apply_double_sign_evidence ev params v)) = Tombstoned"
    using assms(8,9) by (simp add: apply_double_sign_evidence_def Let_def)
  then show ?thesis
    using one two by (simp add: own_vote_def)
qed

section \<open>A concrete fork\<close>

text \<open>
  A node at height 1 that has seen three of four validators prevote for the hash \<open>[9]\<close>; the same
  three vote for another block of height 1 in the next round.
\<close>

definition precommit_round :: round_vars where
  "precommit_round = proposal_round\<lparr>rv_bft := (bft_round_new 1 0 4)\<lparr>brs_phase := Bft_Precommit,
     brs_prevotes := [[9] \<mapsto> {|[3], [2], [1]|}]\<rparr>\<rparr>"

definition rival_block :: block where
  "rival_block = (sample_block 1 [])\<lparr>blk_header := (sample_header 1)\<lparr>bh_timestamp := 5\<rparr>\<rparr>"

definition next_ballots :: "vote_type \<Rightarrow> vote list" where
  "next_ballots kind = map (\<lambda>i. \<lparr>vote_height = 1, vote_round = 1,
     vote_block_hash = header_hash sample_codec (blk_header rival_block), vote_kind = kind,
     vote_validator_id = [i], vote_signature = []\<rparr>) [1, 2, 3]"

lemma prevotes_counted:
  "deliver_votes sample_node 0 (ballots Prevote) (proposal_round, proposal_engine) =
     (Continue, precommit_round, proposal_engine)"
  by (simp add: ballots_def handle_vote_def proposal_round_def first_round_def bft_round_new_def add_vote_def
      record_voter_def try_advance_phase_def has_quorum_prevote_def
      has_quorum_precommit_def fcard_finsert_if vote_is_valid_def get_by_id_def
      vset_is_empty_def cast_vote_def proposal_engine_def precommit_round_def Let_def)

lemma deliver_votes_reach:
  "engine_reach E en0 s \<Longrightarrow> deliver_votes E now vs s = (Continue, s') \<Longrightarrow> engine_reach E en0 s'"
proof (induction vs arbitrary: s)
  case (Cons v vs)
  obtain ctl s1 where run: "handle_vote E now v s = (ctl, s1)"
    by (cases "handle_vote E now v s") auto
  then have "ctl = Continue"
    using Cons.prems(2) by (cases ctl) simp_all
  then have "engine_run_step E now (VoteArrived v) s = Some s1"
    using run by (cases s) (simp add: engine_run_step_def engine_turn_def)
  with Cons.prems run \<open>ctl = Continue\<close> show ?case
    by (intro Cons.IH [OF engine_reach.Event]) simp_all
qed simp

lemma precommit_reach: "engine_reach sample_node observer (precommit_round, proposal_engine)"
  by (rule deliver_votes_reach [OF proposal_reach prevotes_counted])

theorem no_lock_between_rounds_witness:
  "fst (deliver_votes sample_node 0 (ballots Precommit) (precommit_round, proposal_engine)) = Break \<and>
   fst (deliver_votes sample_node 0 (next_ballots Prevote @ next_ballots Precommit)
      (handle_block sample_node [7] rival_block (handle_timeout (precommit_round, proposal_engine)))) = Break"
proof -
  have p: "rv_current_block precommit_round = Some (sample_block 1 [])" "brs_phase (rv_bft precommit_round) = Bft_Precommit"
    "rv_total_validators precommit_round = 4" "rv_height precommit_round = 1"
    "\<not> sm_is_syncing (en_sync proposal_engine)"
    by (simp_all add: precommit_round_def proposal_round_def first_round_def proposal_engine_def observer_def
        sample_engine_def engine_new_def sync_manager_new_def)
  have now: "fresh_votes sample_node precommit_round Precommit [9] (voters (brs_precommits (rv_bft precommit_round)) [9])
      (ballots Precommit)"
    by (auto simp: fresh_votes_def ballots_def precommit_round_def proposal_round_def first_round_def vote_is_valid_def
        get_by_id_def vset_is_empty_def bft_round_new_def voters_none)
  have later: "fresh_votes sample_node (precommit_round\<lparr>rv_round := rv_round precommit_round + 1\<rparr>) kind
      (header_hash (nd_ext sample_node) (blk_header rival_block)) {en_local_id proposal_engine} (next_ballots kind)" for kind
    by (auto simp: fresh_votes_def next_ballots_def precommit_round_def proposal_round_def first_round_def
        vote_is_valid_def get_by_id_def vset_is_empty_def proposal_facts)
  have "(\<exists>rv' en1. deliver_votes sample_node 0 (ballots Precommit) (precommit_round, proposal_engine) =
      (Break, rv', execute_and_apply_block sample_node 0 (sample_block 1 []) en1) \<and> en_store en1 = en_store proposal_engine) \<and>
    (\<exists>rv' en1. deliver_votes sample_node 0 (next_ballots Prevote @ next_ballots Precommit)
        (handle_block sample_node [7] rival_block (handle_timeout (precommit_round, proposal_engine))) =
      (Break, rv', execute_and_apply_block sample_node 0 rival_block en1) \<and> en_store en1 = en_store proposal_engine)"
    using no_lock_between_rounds [OF precommit_reach _ p(5,1,2) now _ _ _ refl later _ later, of 0 "[7]"]
    by (simp add: sync_ok_new p proposal_facts next_ballots_def rival_block_def sample_header_def)
  then show ?thesis
    by auto
qed

text \<open>A validator whose codec tells headers apart by their timestamp.\<close>

definition stamped_node :: "mem_db node_env" where
  "stamped_node = sample_node\<lparr>nd_ext := sample_codec\<lparr>bincode_header := \<lambda>h. u64_to_le (bh_timestamp h)\<rparr>\<rparr>"

definition lone_validator :: "mem_db engine" where
  "lone_validator = sample_engine (fresh_store mem_empty) mempool_new (Some ([1], [2]))"

lemma stamped_hashes: "header_hash (nd_ext stamped_node) (blk_header (sample_block 1 [])) \<noteq>
    header_hash (nd_ext stamped_node) (blk_header rival_block)"
proof -
  have hash: "header_hash (nd_ext stamped_node) h = u64_to_le (bh_timestamp h) @ replicate 24 0" for h
    by (simp add: header_hash_def stamped_node_def sample_codec_def sample_ext_def sample_hash_def)
  have stamps: "bh_timestamp (blk_header (sample_block 1 [])) \<noteq> bh_timestamp (blk_header rival_block)"
    by (simp add: rival_block_def sample_block_def sample_header_def)
  show ?thesis
    using stamps by (simp add: hash)
qed

theorem honest_validator_double_signs_witness:
  "length (ps_high (en_out (snd (handle_block stamped_node [8] rival_block
      (handle_block stamped_node [7] (sample_block 1 []) (first_round, lone_validator)))))) = 2 \<and>
   (\<exists>ev. vs_status (snd (apply_double_sign_evidence ev slash_params_default (sample_validator 1 10000))) = Tombstoned)"
proof -
  have s: "unat (rv_height first_round) + 4 < 2 ^ 64" "\<not> sm_is_syncing (en_sync lone_validator)"
    "en_secret_key lone_validator = Some [2]" "bh_height (blk_header (sample_block 1 [])) = rv_height first_round"
    "bh_height (blk_header rival_block) = rv_height first_round" "ps_high (en_out lone_validator) = []"
    by (simp_all add: first_round_def lone_validator_def sync_manager_new_def rival_block_def sample_header_def
        sample_engine_def engine_new_def)
  show ?thesis
    using honest_validator_double_signs [OF s(1-5) refl refl stamped_hashes refl,
        of "[8]" "[7]" "sample_validator 1 10000" slash_params_default]
    by (auto simp: s(6))
qed

end
