(* ===== verification/Bls_Keys.thy ===== *)
theory Bls_Keys
  imports Crypto
begin

text \<open>
  The rest of the BLS wrappers (crates/noirnet-crypto/src/bls.rs): key generation and the serde
  representation of public keys and signatures. A serde format is a parameter: how it writes a
  byte string and how it reads a vector of bytes; the locale \<open>byte_format\<close> is the contract of a
  format that reads back what it wrote, and bincode's fixed-length format satisfies it.
\<close>

section \<open>Formats\<close>

record serde_format =
  sf_serialize_bytes :: "bytes \<Rightarrow> bytes"
  sf_deserialize_vec :: "bytes \<Rightarrow> bytes option"

locale byte_format =
  fixes F :: serde_format
  assumes reads_back: "length bs < 2 ^ 64 \<Longrightarrow> sf_deserialize_vec F (sf_serialize_bytes F bs) = Some bs"

text \<open>\<open>bincode::serialize\<close>: the length as 8 little-endian bytes, then the bytes.\<close>

definition bincode_format :: serde_format where
  "bincode_format =
     \<lparr>sf_serialize_bytes = (\<lambda>bs. u64_to_le (word_of_nat (length bs)) @ bs),
      sf_deserialize_vec = (\<lambda>s. if length s < 8 then None
        else let n = unat (u64_from_le (take 8 s))
             in if length (drop 8 s) < n then None else Some (take n (drop 8 s)))\<rparr>"

interpretation bincode: byte_format bincode_format
proof
  fix bs :: bytes
  assume "length bs < 2 ^ 64"
  then have "unat (word_of_nat (length bs) :: u64) = length bs"
    by (simp add: unat_of_nat)
  then show "sf_deserialize_vec bincode_format (sf_serialize_bytes bincode_format bs) = Some bs"
    by (simp add: bincode_format_def)
qed

section \<open>Operations\<close>

text \<open>\<open>BlsSecretKey::generate\<close> on the random bytes it drew; a failing \<open>key_gen\<close> panics.\<close>

definition bls_generate :: "(bytes \<Rightarrow> bytes option) \<Rightarrow> bytes \<Rightarrow> bytes option" where
  "bls_generate key_gen ikm = key_gen ikm"

definition bls_aggregate_from_bytes :: "crypto_ext \<Rightarrow> bytes \<Rightarrow> bls_error + bytes" where
  "bls_aggregate_from_bytes K bs = (if bls_signature_ok K bs then Inr bs else Inl InvalidSignature)"

definition serialize_48 :: "serde_format \<Rightarrow> bytes \<Rightarrow> bytes" where
  "serialize_48 F pk = sf_serialize_bytes F pk"

definition deserialize_48 :: "crypto_ext \<Rightarrow> serde_format \<Rightarrow> bytes \<Rightarrow> bytes option" where
  "deserialize_48 K F s =
     (case sf_deserialize_vec F s of
        None \<Rightarrow> None
      | Some bs \<Rightarrow> if bls_public_ok K bs then Some bs else None)"

definition serialize_96 :: "serde_format \<Rightarrow> bytes \<Rightarrow> bytes" where
  "serialize_96 F sig = sf_serialize_bytes F sig"

definition deserialize_96 :: "crypto_ext \<Rightarrow> serde_format \<Rightarrow> bytes \<Rightarrow> bytes option" where
  "deserialize_96 K F s =
     (case sf_deserialize_vec F s of
        None \<Rightarrow> None
      | Some bs \<Rightarrow> if bls_signature_ok K bs then Some bs else None)"

section \<open>Signatures\<close>

text \<open>
  BLS12-381 as documented: keys and signatures it makes are well-formed, and a signature verifies
  under its signer's public key. The stand-in of theory Crypto meets it.
\<close>

locale bls_scheme =
  fixes K :: crypto_ext
  assumes public_ok: "bls_public_ok K (bls_public_key K sk)"
    and signature_ok: "bls_signature_ok K (bls_sign K sk msg)"
    and verifies: "bls_verify K (bls_sign K sk msg) msg (bls_public_key K sk)"

sublocale bls_scheme \<subseteq> bls: signature_scheme "bls_public_key K" "bls_sign K" "\<lambda>pk msg sig. bls_verify K sig msg pk"
  by unfold_locales (rule verifies)

interpretation sample_bls: bls_scheme sample_crypto
  by unfold_locales (simp_all add: sample_crypto_def bls_public_key_def bls_sign_def bls_verify_def)

section \<open>Round trips\<close>

text \<open>
  A key or signature that the wrappers accepted from its bytes is what deserialization gives back,
  and whatever deserialization accepts is a valid key or signature: a value of these types is
  always one the library accepted.
\<close>

context byte_format
begin

lemma public_roundtrip:
  "bls_public_from_bytes K bs = Inr pk \<Longrightarrow> length bs < 2 ^ 64 \<Longrightarrow> deserialize_48 K F (serialize_48 F pk) = Some pk"
  by (auto simp: bls_public_from_bytes_def deserialize_48_def serialize_48_def reads_back split: if_splits)

lemma signature_roundtrip:
  "bls_signature_from_bytes K bs = Inr sig \<Longrightarrow> length bs < 2 ^ 64 \<Longrightarrow> deserialize_96 K F (serialize_96 F sig) = Some sig"
  by (auto simp: bls_signature_from_bytes_def deserialize_96_def serialize_96_def reads_back split: if_splits)

end

theorem bls_bincode_roundtrip:
  assumes "bls_public_from_bytes K bs = Inr pk" "length bs = 48" "bls_aggregate K sigs = Inr agg"
    and "length agg = 96" "bls_signature_ok K agg"
  shows "deserialize_48 K bincode_format (serialize_48 bincode_format pk) = Some pk \<and>
    deserialize_96 K bincode_format (serialize_96 bincode_format agg) = Some agg \<and> sigs \<noteq> []"
proof -
  have "bls_signature_from_bytes K agg = Inr agg"
    using assms(5) by (simp add: bls_signature_from_bytes_def)
  then show ?thesis
    using bincode.public_roundtrip [OF assms(1)] bincode.signature_roundtrip [of K agg agg] assms(2-4)
    by (auto simp: bls_aggregate_def)
qed

end
