(* ===== verification/Honest_Round.thy ===== *)
theory Honest_Round
  imports Engine_Forks Bls_Keys
begin

text \<open>
  A round among several engines (engine.rs, the arms for blocks and votes): each runs the event
  loop on its own state, and the votes each broadcasts are the ones the others receive. With at
  least four validators that all follow the code, a block that reaches all of them is executed by
  all of them.
\<close>

section \<open>One engine\<close>

lemma add_vote_phase: "add_vote v s = (new, t) \<Longrightarrow> brs_phase t = brs_phase s"
  using add_vote_frame [of v s] by simp

text \<open>A vote delivered to an engine: what stays, and when it precommits.\<close>

lemma handle_vote_out:
  assumes "handle_vote E now v (rv, en) = (Continue, rv', en')" "en_secret_key en = Some sk"
  shows "en_secret_key en' = Some sk" "set (ps_high (en_out en)) \<subseteq> set (ps_high (en_out en'))"
    "brs_phase (rv_bft rv) = Bft_Prevote \<Longrightarrow> brs_phase (rv_bft rv') = Bft_Precommit \<Longrightarrow>
     BroadcastVote (bincode_vote (nd_ext E) (own_vote E rv en sk Precommit (vote_block_hash v))) \<in> set (ps_high (en_out en'))"
  using assms
  by (auto simp: handle_vote_def cast_vote_def Let_def own_vote_def send_command_def priority_send_def
      try_advance_phase_def frame_simps
      dest: add_vote_phase split: if_splits prod.splits option.splits bft_phase.splits)

lemma handle_prevote_stays:
  assumes "vote_kind v = Prevote" "2 \<le> brs_total_validators (rv_bft rv)"
    and "voters (brs_precommits (rv_bft rv)) (vote_block_hash v) \<subseteq> {x}"
  shows "fst (handle_vote E now v (rv, en)) = Continue"
proof (rule ccontr)
  assume "fst (handle_vote E now v (rv, en)) \<noteq> Continue"
  then obtain s where "try_advance_phase (vote_block_hash v) (snd (add_vote v (rv_bft rv))) = (Some Bft_Commit, s)"
    by (cases E now v rv en rule: handle_vote_cases) auto
  from advance_to_commit [OF this]
  have "3 * card (voters (brs_precommits (snd (add_vote v (rv_bft rv)))) (vote_block_hash v)) >
      2 * brs_total_validators (rv_bft rv)"
    by (simp add: has_quorum_voters frame_simps)
  moreover have "card (voters (brs_precommits (snd (add_vote v (rv_bft rv)))) (vote_block_hash v)) \<le> card {x}"
    using assms(1,3) by (intro card_mono) (auto simp: add_vote_voters)
  ultimately show False
    using assms(2) by simp
qed

text \<open>
  Prevotes of others, numerous enough, delivered to an engine with a key: it goes on, and has
  broadcast its precommit.
\<close>

definition precommitted :: "'db node_env \<Rightarrow> round_vars \<Rightarrow> 'db engine \<Rightarrow> bytes \<Rightarrow> hash32 \<Rightarrow> 'db engine \<Rightarrow> bool" where
  "precommitted E rv0 en0 sk h en \<longleftrightarrow>
     BroadcastVote (bincode_vote (nd_ext E) (own_vote E rv0 en0 sk Precommit h)) \<in> set (ps_high (en_out en))"

lemma prevotes_make_precommit:
  assumes "round_at en0 rv0 b (rv, en)" "brs_phase (rv_bft rv) \<in> {Bft_Prevote, Bft_Precommit}"
    and "fresh_votes E rv0 Prevote h (voters (brs_prevotes (rv_bft rv)) h) vs"
    and "brs_phase (rv_bft rv) = Bft_Prevote \<longrightarrow>
      vs \<noteq> [] \<and> 3 * (card (voters (brs_prevotes (rv_bft rv)) h) + length vs) > 2 * rv_total_validators rv0"
    and "voters (brs_precommits (rv_bft rv)) h \<subseteq> {en_local_id en0}" "2 \<le> rv_total_validators rv0"
    and "en_secret_key en = Some sk" "brs_phase (rv_bft rv) = Bft_Precommit \<longrightarrow> precommitted E rv0 en0 sk h en"
  shows "\<exists>rv' en'. deliver_votes E now vs (rv, en) = (Continue, rv', en') \<and> round_at en0 rv0 b (rv', en') \<and>
    voters (brs_precommits (rv_bft rv')) h \<subseteq> {en_local_id en0} \<and> brs_phase (rv_bft rv') = Bft_Precommit \<and>
    precommitted E rv0 en0 sk h en'"
  using assms
proof (induction vs arbitrary: rv en)
  case Nil
  then show ?case by auto
next
  case (Cons v vs)
  let ?P = "voters (brs_prevotes (rv_bft rv)) h"
  have v: "vote_height v = rv_height rv0" "vote_round v = rv_round rv0" "vote_kind v = Prevote"
      "vote_block_hash v = h" "vote_is_valid E (rv_val_set rv0) v" "vote_validator_id v \<notin> ?P"
    using Cons.prems(3) by (simp_all add: fresh_votes_def)
  have same: "rv_height rv = rv_height rv0" "rv_round rv = rv_round rv0" "en_local_id en = en_local_id en0"
      "brs_total_validators (rv_bft rv) = rv_total_validators rv0"
    using Cons.prems(1) by (simp_all add: round_at_def)
  have stays: "fst (handle_vote E now v (rv, en)) = Continue"
    by (rule handle_prevote_stays [OF v(3)]) (use Cons.prems(5,6) v(4) same in simp_all)
  show ?case
  proof (rule deliver_prevote [OF Cons.prems(1,2) v, of now])
    assume "broke_with E now en0 b (handle_vote E now v (rv, en))"
    then show ?case
      using stays by (auto simp: broke_with_def split: prod.splits)
  next
    fix rv' en'
    assume run: "handle_vote E now v (rv, en) = (Continue, rv', en')" "round_at en0 rv0 b (rv', en')"
      and pre: "voters (brs_prevotes (rv_bft rv')) h = insert (vote_validator_id v) ?P"
      and com: "voters (brs_precommits (rv_bft rv')) h \<subseteq> insert (en_local_id en0) (voters (brs_precommits (rv_bft rv)) h)"
      and phase: "brs_phase (rv_bft rv') = Bft_Precommit \<or>
        brs_phase (rv_bft rv) = Bft_Prevote \<and> brs_phase (rv_bft rv') = Bft_Prevote \<and>
        \<not> 3 * card (insert (vote_validator_id v) ?P) > 2 * rv_total_validators rv0"
    note out = handle_vote_out [OF run(1) Cons.prems(7)]
    have cast: "own_vote E rv en sk Precommit h = own_vote E rv0 en0 sk Precommit h"
      by (simp add: own_vote_def same)
    have fresh: "fresh_votes E rv0 Prevote h (voters (brs_prevotes (rv_bft rv')) h) vs"
      unfolding pre by (rule fresh_votes_Cons [OF Cons.prems(3)])
    have card: "card (voters (brs_prevotes (rv_bft rv')) h) = Suc (card ?P)"
      using v(6) by (simp add: pre)
    have rest: "brs_phase (rv_bft rv') = Bft_Prevote \<longrightarrow>
        vs \<noteq> [] \<and> 3 * (card (voters (brs_prevotes (rv_bft rv')) h) + length vs) > 2 * rv_total_validators rv0"
      using phase Cons.prems(4) v(6) unfolding card by auto
    have "brs_phase (rv_bft rv') = Bft_Precommit \<longrightarrow> precommitted E rv0 en0 sk h en'"
      using out(2,3) Cons.prems(2,8) v(4) by (auto simp: precommitted_def cast)
    moreover have "voters (brs_precommits (rv_bft rv')) h \<subseteq> {en_local_id en0}"
      using com Cons.prems(5) by auto
    ultimately show ?case
      using Cons.IH [OF run(2) _ fresh rest _ Cons.prems(6) out(1)] phase run(1) by auto
  qed
qed

section \<open>Several engines\<close>

text \<open>The key of a validator is registered, or there are no validators and every vote passes.\<close>

definition registered :: "'db node_env \<Rightarrow> validator_set \<Rightarrow> bytes \<Rightarrow> bytes \<Rightarrow> bool" where
  "registered E vals vid sk \<longleftrightarrow> (case get_by_id vals vid of
      Some val \<Rightarrow> se_bls_pubkey val = bls_public_key (nd_crypto E) sk
    | None \<Rightarrow> vset_is_empty vals)"

lemma own_vote_valid:
  assumes "bls_scheme (nd_crypto E)" "registered E vals (en_local_id en) sk"
  shows "vote_is_valid E vals (own_vote E rv en sk kind h)"
  using assms bls_scheme.public_ok [OF assms(1)] bls_scheme.signature_ok [OF assms(1)] bls_scheme.verifies [OF assms(1)]
  by (auto simp: vote_is_valid_def registered_def own_vote_def bls_public_from_bytes_def bls_signature_from_bytes_def
      split: option.splits)

text \<open>An engine at the start of a round among \<open>n\<close> validators.\<close>

definition at_round_start :: "u64 \<Rightarrow> u32 \<Rightarrow> validator_set \<Rightarrow> usize \<Rightarrow> bytes \<Rightarrow> round_vars \<times> 'db engine \<Rightarrow> bool" where
  "at_round_start H R vals n sk = (\<lambda>(rv, en). rv_height rv = H \<and> rv_round rv = R \<and> rv_val_set rv = vals \<and>
     rv_total_validators rv = n \<and> rv_bft rv = bft_round_new H R n \<and> \<not> sm_is_syncing (en_sync en) \<and>
     en_secret_key en = Some sk)"

text \<open>The votes of one kind that the engine \<open>i\<close> receives: those of all others, in any order.\<close>

definition votes_of_others ::
  "'db node_env \<Rightarrow> (nat \<Rightarrow> round_vars \<times> 'db engine) \<Rightarrow> (nat \<Rightarrow> bytes) \<Rightarrow> usize \<Rightarrow> nat \<Rightarrow> vote_type \<Rightarrow> hash32 \<Rightarrow> vote list \<Rightarrow> bool" where
  "votes_of_others E nodes sk n i kind h vs \<longleftrightarrow> distinct vs \<and>
     set vs = (\<lambda>j. own_vote E (fst (nodes j)) (snd (nodes j)) (sk j) kind h) ` ({..<n} - {i})"

lemma votes_of_others_fresh:
  assumes "votes_of_others E nodes sk n i kind h vs" "inj_on (\<lambda>j. en_local_id (snd (nodes j))) {..<n}" "i < n"
    and "bls_scheme (nd_crypto E)"
    and "\<forall>j<n. at_round_start H R vals n (sk j) (nodes j) \<and> registered E vals (en_local_id (snd (nodes j))) (sk j)"
    and "rv_height rv0 = H" "rv_round rv0 = R" "rv_val_set rv0 = vals" "known \<subseteq> {en_local_id (snd (nodes i))}"
  shows "fresh_votes E rv0 kind h known vs" "length vs = n - 1"
proof -
  let ?v = "\<lambda>j. own_vote E (fst (nodes j)) (snd (nodes j)) (sk j) kind h"
  have vs: "distinct vs" "set vs = ?v ` ({..<n} - {i})"
    using assms(1) by (simp_all add: votes_of_others_def)
  have id: "vote_validator_id (?v j) = en_local_id (snd (nodes j))" for j
    by (simp add: own_vote_def)
  have inj: "inj_on ?v ({..<n} - {i})"
  proof (rule inj_onI)
    fix j k
    assume "j \<in> {..<n} - {i}" "k \<in> {..<n} - {i}" "?v j = ?v k"
    then show "j = k"
      using id inj_onD [OF assms(2), of j k] by (metis DiffD1)
  qed
  have "length vs = card ({..<n} - {i})"
    using vs card_image [OF inj] by (metis distinct_card)
  then show "length vs = n - 1"
    using assms(3) by simp
  have "inj_on vote_validator_id (set vs)"
  proof (rule inj_onI)
    fix v w
    assume "v \<in> set vs" "w \<in> set vs" "vote_validator_id v = vote_validator_id w"
    moreover from this obtain j k where "v = ?v j" "w = ?v k" "j < n" "k < n"
      unfolding vs(2) by blast
    ultimately show "v = w"
      using id inj_onD [OF assms(2), of j k] by simp
  qed
  then have "distinct (map vote_validator_id vs)"
    using vs(1) by (simp add: distinct_map)
  moreover have "vote_height v = H \<and> vote_round v = R \<and> vote_kind v = kind \<and> vote_block_hash v = h \<and>
      vote_is_valid E vals v \<and> vote_validator_id v \<notin> known" if "v \<in> set vs" for v
  proof -
    obtain j where j: "j < n" "j \<noteq> i" "v = ?v j"
      using \<open>v \<in> set vs\<close> vs(2) by auto
    have "en_local_id (snd (nodes j)) \<noteq> en_local_id (snd (nodes i))"
      using inj_onD [OF assms(2), of j i] j(1,2) assms(3) by auto
    then show ?thesis
      using j assms(5,9) own_vote_valid [OF assms(4)]
      by (cases "nodes j") (auto simp: own_vote_def at_round_start_def)
  qed
  ultimately show "fresh_votes E rv0 kind h known vs"
    using assms(6-8) by (simp add: fresh_votes_def)
qed

text \<open>
  C8: an honest round commits. At least four engines with registered keys are at the start of the
  same round, and one block of their height reaches them all. Then each broadcasts its prevote
  for the block; each that has received the prevotes of the others, in whatever order, broadcasts
  its precommit; and each that has then received the precommits of the others executes the block
  on the store it had.
\<close>

theorem honest_round_commits:
  assumes "bls_scheme (nd_crypto E)" "4 \<le> n" "i < n" "inj_on (\<lambda>j. en_local_id (snd (nodes j))) {..<n}"
    and "\<forall>j<n. at_round_start H R vals n (sk j) (nodes j) \<and> registered E vals (en_local_id (snd (nodes j))) (sk j)"
    and "bh_height (blk_header b) = H" "unat H + 4 < 2 ^ 64" "h = header_hash (nd_ext E) (blk_header b)"
    and "votes_of_others E nodes sk n i Prevote h vs" "votes_of_others E nodes sk n i Precommit h ws"
    and "own = (\<lambda>kind. BroadcastVote (bincode_vote (nd_ext E) (own_vote E (fst (nodes i)) (snd (nodes i)) (sk i) kind h)))"
    and "voting = handle_block E peer b (nodes i)"
  shows "own Prevote \<in> set (ps_high (en_out (snd voting))) \<and>
    (\<exists>rv' en'. deliver_votes E now vs voting = (Continue, rv', en') \<and> own Precommit \<in> set (ps_high (en_out en'))) \<and>
    (\<exists>rv' en1. deliver_votes E now (vs @ ws) voting = (Break, rv', execute_and_apply_block E now b en1) \<and>
       en_store en1 = en_store (snd (nodes i)))"
proof -
  obtain rv en where node: "nodes i = (rv, en)"
    by fastforce
  have start: "rv_height rv = H" "rv_round rv = R" "rv_val_set rv = vals" "rv_total_validators rv = n"
      "rv_bft rv = bft_round_new H R n" "\<not> sm_is_syncing (en_sync en)" "en_secret_key en = Some (sk i)"
    using assms(3,5) node by (auto simp: at_round_start_def)
  obtain rv2 en2 where run: "handle_block E peer b (rv, en) = (rv2, en2)"
    by fastforce
  have "unat (rv_height rv) + 4 < 2 ^ 64" "bh_height (blk_header b) = rv_height rv"
    "rv_bft rv = bft_round_new (rv_height rv) (rv_round rv) (rv_total_validators rv)"
    using assms(6,7) start by simp_all
  note p = proposal_of_fresh_round [OF this(1) start(6) this(2,3) run assms(8)]
  have at: "round_at en2 rv2 b (rv2, en2)"
    using p(1,3-9) by (simp add: round_at_def)
  note votes = votes_of_others_fresh [OF _ assms(4,3,1,5)]
  have pre: "fresh_votes E rv2 Prevote h (voters (brs_prevotes (rv_bft rv2)) h) vs" "length vs = n - 1"
    using votes [OF assms(9), of rv2] p(3-5,10) start node by simp_all
  have many: "vs \<noteq> []" "3 * (card (voters (brs_prevotes (rv_bft rv2)) h) + length vs) > 2 * rv_total_validators rv2"
    using pre(2) assms(2) p(6) start(4) by auto
  then obtain rv3 en3 where delivered: "deliver_votes E now vs (rv2, en2) = (Continue, rv3, en3)" "round_at en2 rv2 b (rv3, en3)"
      "voters (brs_precommits (rv_bft rv3)) h \<subseteq> {en_local_id en2}" "brs_phase (rv_bft rv3) = Bft_Precommit"
      "precommitted E rv2 en2 (sk i) h en3"
    using prevotes_make_precommit [OF at _ pre(1), of "sk i" now] p(2,6,11,15) start(4,7) assms(2) pre(2) by auto
  have com: "fresh_votes E rv2 Precommit h (voters (brs_precommits (rv_bft rv3)) h) ws" "length ws = n - 1"
    using votes [OF assms(10), of rv2] p(3-5,12) start node delivered(3) by simp_all
  have "broke_with E now en2 b (deliver_votes E now ws (rv3, en3))"
    by (rule deliver_precommits [OF delivered(2,4) com(1)]) (use com(2) assms(2) p(6) start(4) in auto)
  then have "broke_with E now en2 b (deliver_votes E now (vs @ ws) (rv2, en2))"
    by (simp add: deliver_votes_append delivered(1))
  moreover have "own_vote E rv2 en2 (sk i) kind h = own_vote E rv en (sk i) kind h" for kind
    by (simp add: own_vote_def p)
  ultimately show ?thesis
    using delivered(1,5) p(13,16) start(7)
    by (auto simp: assms(11,12) node run precommitted_def broke_with_def split: prod.splits)
qed

section \<open>Four validators\<close>

definition four_validators :: validator_set where
  "four_validators = validator_set_new 0 (map (\<lambda>k. sample_entry k 10 Active) [1, 2, 3, 4])"

definition validator_key :: "nat \<Rightarrow> bytes" where
  "validator_key j = replicate 48 (word_of_nat (j + 1))"

definition validator_at :: "nat \<Rightarrow> round_vars \<times> mem_db engine" where
  "validator_at j =
     (first_round\<lparr>rv_val_set := four_validators\<rparr>,
      sample_engine (fresh_store mem_empty) mempool_new (Some (replicate 32 (word_of_nat (j + 1)), validator_key j)))"

lemma four_validators_list:
  "vset_validators four_validators = map (\<lambda>k. sample_entry k 10 Active) [1, 2, 3, 4]"
  by (simp add: four_validators_def validator_set_new_def Let_def sample_entry_def)

lemma below_four: "j < 4 \<Longrightarrow> j = 0 \<or> j = 1 \<or> j = 2 \<or> j = (3 :: nat)"
  by auto

lemma replicate_id: "0 < n \<Longrightarrow> replicate n x = replicate n y \<longleftrightarrow> x = y"
  by (auto simp: replicate_eq_replicate)

lemma validators_start:
  "j < 4 \<Longrightarrow> at_round_start 1 0 four_validators 4 (validator_key j) (validator_at j)"
  "j < 4 \<Longrightarrow> registered sample_node four_validators (en_local_id (snd (validator_at j))) (validator_key j)"
  by (auto dest!: below_four simp: at_round_start_def validator_at_def first_round_def sync_manager_new_def
      registered_def get_by_id_def four_validators_list se_id_def sample_entry_def validator_key_def
      sample_engine_def engine_new_def bls_public_key_def sample_crypto_def)

lemma validator_ids: "inj_on (\<lambda>j. en_local_id (snd (validator_at j))) {..<4}"
  by (auto simp: inj_on_def validator_at_def sample_engine_def engine_new_def dest!: below_four)

definition four_votes :: "nat \<Rightarrow> vote_type \<Rightarrow> hash32 \<Rightarrow> vote list" where
  "four_votes i kind h = map (\<lambda>j. own_vote sample_node (fst (validator_at j)) (snd (validator_at j)) (validator_key j) kind h)
     (filter (\<lambda>j. j \<noteq> i) [3, 1, 0, 2])"

lemma four_votes_others: "votes_of_others sample_node validator_at validator_key 4 i kind h (four_votes i kind h)"
proof -
  have "own_vote sample_node (fst (validator_at j)) (snd (validator_at j)) sk kind h \<noteq>
      own_vote sample_node (fst (validator_at k)) (snd (validator_at k)) sk' kind h" if "j < 4" "k < 4" "j \<noteq> k" for j k sk sk'
    using that inj_onD [OF validator_ids, of j k] by (auto simp: own_vote_def)
  then have "distinct (four_votes i kind h)"
    by (auto simp: four_votes_def distinct_map inj_on_def)
  moreover have "{..<4} = {3, 1, 0, 2 :: nat}"
    by auto
  ultimately show ?thesis
    by (auto simp: votes_of_others_def four_votes_def)
qed

theorem honest_round_commits_witness:
  "map (\<lambda>i. fst (deliver_votes sample_node 0
      (four_votes i Prevote (header_hash sample_codec (blk_header (sample_block 1 []))) @
       four_votes i Precommit (header_hash sample_codec (blk_header (sample_block 1 []))))
      (handle_block sample_node [9] (sample_block 1 []) (validator_at i)))) [0, 1, 2, 3] = replicate 4 Break"
proof -
  let ?h = "header_hash (nd_ext sample_node) (blk_header (sample_block 1 []))"
  have nodes: "\<forall>j<4. at_round_start 1 0 four_validators 4 (validator_key j) (validator_at j) \<and>
      registered sample_node four_validators (en_local_id (snd (validator_at j))) (validator_key j)"
    using validators_start by blast
  have scheme: "bls_scheme (nd_crypto sample_node)"
    by (simp add: sample_bls.bls_scheme_axioms)
  have "fst (deliver_votes sample_node 0 (four_votes i Prevote ?h @ four_votes i Precommit ?h)
      (handle_block sample_node [9] (sample_block 1 []) (validator_at i))) = Break" if "i < 4" for i
    using honest_round_commits [OF scheme _ that validator_ids nodes _ _ refl four_votes_others four_votes_others refl refl,
        of "sample_block 1 []" "[9]" 0] by auto
  then show ?thesis
    by (simp add: numeral_eq_Suc)
qed

end
