(* ===== verification/Token_Contract.thy ===== *)
theory Token_Contract
  imports Vm_Host
begin

text \<open>
  The token contract (src/contracts/token/src/lib.rs) as a client of the host interface. The
  locale \<open>host_kv\<close> states what the contract relies on; the virtual machine's context provides
  it. Slices the contract passes by pointer are read by the host from the contract's own memory,
  so here they are passed by value.
\<close>

section \<open>The host interface\<close>

text \<open>
  \<open>view\<close> is what a key reads as. A failing call traps: the contract does not see an error, the
  whole execution ends with it.
\<close>

locale host_kv =
  fixes view :: "'s \<Rightarrow> bytes \<rightharpoonup> bytes"
    and kv_set :: "bytes \<Rightarrow> bytes \<Rightarrow> ('s, 'e, unit) fallible"
    and kv_get :: "bytes \<Rightarrow> ('s, 'e, bytes option) fallible"
    and kv_emit :: "bytes \<Rightarrow> ('s, 'e, unit) fallible"
  assumes set_view: "fst (kv_set k v s) = Inr () \<Longrightarrow> view (snd (kv_set k v s)) = (view s)(k \<mapsto> v)"
    and get_result: "fst (kv_get k s) = Inr r \<Longrightarrow> r = view s k"
    and get_view: "view (snd (kv_get k s)) = view s"
    and emit_view: "view (snd (kv_emit d s)) = view s"
begin

text \<open>Writing several keys and then emitting, as \<open>init\<close> does.\<close>

lemma set_all_view:
  "fst (forEach (\<lambda>(k, v). kv_set k v) kvs s) = Inr () \<Longrightarrow>
   view (snd (forEach (\<lambda>(k, v). kv_set k v) kvs s)) = view s ++ map_of (rev kvs)"
proof (induction kvs arbitrary: s)
  case (Cons kv kvs)
  obtain k v where kv: "kv = (k, v)" by (cases kv)
  show ?case
  proof (cases "fst (kv_set k v s)")
    case (Inr u)
    have eq: "view s ++ map_of (rev ((k, v) # kvs)) = (view s)(k \<mapsto> v) ++ map_of (rev kvs)"
      by (simp add: map_of_append map_add_assoc [symmetric])
    have run: "forEach (\<lambda>(k, v). kv_set k v) ((k, v) # kvs) s =
        forEach (\<lambda>(k, v). kv_set k v) kvs (snd (kv_set k v s))"
      using Inr by (simp add: andThen_Inr)
    show ?thesis
      using Cons.IH [of "snd (kv_set k v s)"] Cons.prems set_view [of k v s] Inr unfolding kv run eq by (simp add: fun_upd_def)
  qed (use Cons.prems kv in \<open>simp add: andThen_Inl\<close>)
qed simp

end

interpretation ctx_kv: host_kv ctx_view storage_set_bytes storage_get_bytes emit_event_bytes
proof (unfold_locales, goal_cases)
  case (1 k v s)
  then show ?case
    by (auto simp: storage_set_bytes_def andThen_def charge_gas_def ctx_view_def fun_eq_iff update_conv'
        split: if_splits option.splits)
next
  case (2 k s r)
  then show ?case
    by (auto simp: storage_get_bytes_def andThen_def charge_gas_def ctx_view_def split: if_splits option.splits)
next
  case (3 k s)
  then show ?case
    by (simp add: storage_get_bytes_def andThen_def charge_gas_def ctx_view_def fun_eq_iff split: option.splits)
next
  case (4 d s)
  then show ?case
    by (simp add: emit_event_bytes_def andThen_def charge_gas_def ctx_view_def fun_eq_iff split: option.splits)
qed

section \<open>The contract\<close>

definition balance_key :: "bytes \<Rightarrow> bytes" where
  "balance_key account = ascii ''bal:'' @ account"

text \<open>
  \<open>get_balance\<close> passes an 8-byte zeroed buffer that the host overwrites with the value; a missing
  key is balance 0. A value longer than the buffer would be written past it; the contract stores
  8 bytes under these keys.
\<close>

definition get_balance :: "bytes \<Rightarrow> u64 vm_op" where
  "get_balance account =
     andThen (storage_get_bytes (balance_key account)) (\<lambda>found.
       case found of
         None \<Rightarrow> ok 0
       | Some v \<Rightarrow> ok (u64_from_le (take 8 (v @ drop (length v) (replicate 8 0)))))"

definition set_balance :: "bytes \<Rightarrow> u64 \<Rightarrow> unit vm_op" where
  "set_balance account amount = storage_set_bytes (balance_key account) (u64_to_le amount)"

definition treasury :: bytes where "treasury = replicate 32 0"
definition token_recipient :: bytes where "token_recipient = replicate 32 1"

definition token_init :: "unit vm_op" where
  "token_init =
     (let total_supply = 1000000000
      in andThen (set_balance treasury total_supply) (\<lambda>_.
         andThen (storage_set_bytes (ascii ''TOTAL_SUPPLY'') (u64_to_le total_supply)) (\<lambda>_.
         andThen (storage_set_bytes (ascii ''DECIMALS'') [8]) (\<lambda>_.
         andThen (storage_set_bytes (ascii ''SYMBOL'') (ascii ''NOIR'')) (\<lambda>_.
         andThen (storage_set_bytes (ascii ''NAME'') (ascii ''NoirNet Token'')) (\<lambda>_.
         emit_event_bytes (ascii ''TokenInitialized:1000000000'')))))))"

definition token_transfer :: "unit vm_op" where
  "token_transfer =
     (let amount = 1000
      in andThen (get_balance treasury) (\<lambda>from_balance.
         if from_balance < amount then emit_event_bytes (ascii ''TransferFailed:InsufficientBalance'')
         else andThen (get_balance token_recipient) (\<lambda>to_balance.
              andThen (set_balance treasury (from_balance - amount)) (\<lambda>_.
              andThen (set_balance token_recipient (to_balance + amount)) (\<lambda>_.
              emit_event_bytes (ascii ''Transfer:1000''))))))"

section \<open>Balances\<close>

text \<open>What an account's balance reads as in a context.\<close>

definition balance_of :: "exec_ctx \<Rightarrow> bytes \<Rightarrow> u64" where
  "balance_of c account =
     (case ctx_view c (balance_key account) of
        None \<Rightarrow> 0
      | Some v \<Rightarrow> u64_from_le (take 8 (v @ drop (length v) (replicate 8 0))))"

lemma balance_key_inject [simp]: "balance_key a = balance_key b \<longleftrightarrow> a = b"
  by (simp add: balance_key_def)

lemma treasury_recipient [simp]: "treasury \<noteq> token_recipient" "token_recipient \<noteq> treasury"
  by (simp_all add: treasury_def token_recipient_def)

lemma get_balance_run:
  assumes "fst (get_balance account c) = Inr b"
  shows "b = balance_of c account" "ctx_view (snd (get_balance account c)) = ctx_view c"
proof -
  let ?get = "storage_get_bytes (balance_key account)"
  obtain r where r: "fst (?get c) = Inr r"
    using assms by (cases "fst (?get c)") (auto simp: get_balance_def andThen_Inl)
  then show "b = balance_of c account" "ctx_view (snd (get_balance account c)) = ctx_view c"
    using assms ctx_kv.get_result [OF r] ctx_kv.get_view [of "balance_key account" c]
    by (auto simp: get_balance_def andThen_Inr balance_of_def split: option.splits)
qed

lemma set_balance_view:
  "fst (set_balance account amount c) = Inr () \<Longrightarrow>
   ctx_view (snd (set_balance account amount c)) = (ctx_view c)(balance_key account \<mapsto> u64_to_le amount)"
  by (simp add: set_balance_def ctx_kv.set_view)

lemma balance_of_view:
  "ctx_view c' = (ctx_view c)(balance_key a \<mapsto> u64_to_le x, balance_key b \<mapsto> u64_to_le y) \<Longrightarrow>
   balance_of c' d = (if d = b then y else if d = a then x else balance_of c d)"
  by (simp add: balance_of_def)

lemma andThen_success:
  assumes "fst (andThen m f s) = Inr b"
  obtains a where "fst (m s) = Inr a" "andThen m f s = f a (snd (m s))"
  using assms by (cases "fst (m s)") (auto simp: andThen_Inl andThen_Inr)

text \<open>What a transfer that does not trap writes.\<close>

lemma token_transfer_view:
  assumes "fst (token_transfer c) = Inr ()"
  shows "ctx_view (snd (token_transfer c)) =
    (if balance_of c treasury < 1000 then ctx_view c
     else (ctx_view c)(balance_key treasury \<mapsto> u64_to_le (balance_of c treasury - 1000),
       balance_key token_recipient \<mapsto> u64_to_le (balance_of c token_recipient + 1000)))"
proof -
  obtain b where b: "fst (get_balance treasury c) = Inr b"
    "token_transfer c = (if b < 1000 then emit_event_bytes (ascii ''TransferFailed:InsufficientBalance'')
       else andThen (get_balance token_recipient) (\<lambda>t.
              andThen (set_balance treasury (b - 1000)) (\<lambda>_.
              andThen (set_balance token_recipient (t + 1000)) (\<lambda>_.
              emit_event_bytes (ascii ''Transfer:1000''))))) (snd (get_balance treasury c))"
    using assms unfolding token_transfer_def Let_def by (rule andThen_success) simp
  let ?c1 = "snd (get_balance treasury c)"
  note get1 = get_balance_run [OF b(1)]
  show ?thesis
  proof (cases "b < 1000")
    case True
    then show ?thesis
      using b(2) get1 by (simp add: ctx_kv.emit_view)
  next
    case False
    then have run: "token_transfer c = andThen (get_balance token_recipient) (\<lambda>t.
        andThen (set_balance treasury (b - 1000)) (\<lambda>_.
        andThen (set_balance token_recipient (t + 1000)) (\<lambda>_.
        emit_event_bytes (ascii ''Transfer:1000'')))) ?c1"
      using b(2) by simp
    obtain t where t: "fst (get_balance token_recipient ?c1) = Inr t"
      and run2: "token_transfer c = andThen (set_balance treasury (b - 1000)) (\<lambda>_.
        andThen (set_balance token_recipient (t + 1000)) (\<lambda>_.
        emit_event_bytes (ascii ''Transfer:1000''))) (snd (get_balance token_recipient ?c1))"
      using assms unfolding run by (rule andThen_success) simp
    let ?c2 = "snd (get_balance token_recipient ?c1)"
    obtain u where set1: "fst (set_balance treasury (b - 1000) ?c2) = Inr u"
      and run3: "token_transfer c = andThen (set_balance token_recipient (t + 1000)) (\<lambda>_.
        emit_event_bytes (ascii ''Transfer:1000'')) (snd (set_balance treasury (b - 1000) ?c2))"
      using assms unfolding run2 by (rule andThen_success) simp
    let ?c3 = "snd (set_balance treasury (b - 1000) ?c2)"
    obtain w where set2: "fst (set_balance token_recipient (t + 1000) ?c3) = Inr w"
      and run4: "token_transfer c = emit_event_bytes (ascii ''Transfer:1000'') (snd (set_balance token_recipient (t + 1000) ?c3))"
      using assms unfolding run3 by (rule andThen_success) simp
    note get2 = get_balance_run [OF t]
    have "b = balance_of c treasury" "t = balance_of c token_recipient"
      using get1 get2 by (simp_all add: balance_of_def)
    then show ?thesis
      using set_balance_view set1 set2 get1(2) get2(2) run4 False by (simp add: ctx_kv.emit_view)
  qed
qed

text \<open>
  A transfer that does not trap moves exactly 1000 units from the treasury to the recipient
  when the treasury holds them, and otherwise changes no balance; no other account changes, and
  the supply (the exact sum of both balances) is conserved when it fits 64 bits.
\<close>

theorem token_transfer_conserves_supply:
  assumes "fst (token_transfer c) = Inr ()" "c' = snd (token_transfer c)"
    and "unat (balance_of c treasury) + unat (balance_of c token_recipient) < 2 ^ 64"
  shows "unat (balance_of c' treasury) + unat (balance_of c' token_recipient) =
      unat (balance_of c treasury) + unat (balance_of c token_recipient) \<and>
    (\<forall>a. a \<noteq> treasury \<and> a \<noteq> token_recipient \<longrightarrow> balance_of c' a = balance_of c a) \<and>
    unat (balance_of c' treasury) = (if 1000 \<le> unat (balance_of c treasury)
      then unat (balance_of c treasury) - 1000 else unat (balance_of c treasury))"
proof (cases "balance_of c treasury < 1000")
  case True
  then have "balance_of c' a = balance_of c a" for a
    using token_transfer_view [OF assms(1)] assms(2) by (simp add: balance_of_def)
  with True show ?thesis
    by (simp add: word_less_nat_alt)
next
  case False
  let ?b = "balance_of c treasury" and ?t = "balance_of c token_recipient"
  have le: "1000 \<le> unat ?b"
    using False by (simp add: word_less_nat_alt)
  then have arith: "unat (?b - 1000) = unat ?b - 1000" "unat (?t + 1000) = unat ?t + 1000"
    using assms(3) by (simp add: unat_sub word_le_nat_alt) (subst unat_add_no_wrap, use le assms(3) in simp_all)
  have "balance_of c' a = (if a = token_recipient then ?t + 1000 else if a = treasury then ?b - 1000 else balance_of c a)" for a
    using token_transfer_view [OF assms(1)] assms(2) False by (intro balance_of_view) simp
  then show ?thesis
    using le arith by simp
qed

definition token_ctx :: exec_ctx where
  "token_ctx = (sample_ctx 100000)\<lparr>ec_existing_state := [balance_key treasury \<mapsto> u64_to_le 5000]\<rparr>"

lemma balance_of_token_ctx:
  "balance_of token_ctx treasury = 5000" "balance_of token_ctx token_recipient = 0"
  by (simp_all add: balance_of_def token_ctx_def ctx_view_def sample_ctx_def)

lemma charge_gas_numeral:
  "charge_gas g (c\<lparr>ec_gas_remaining := r\<rparr>) =
     (if r < g then (Inl OutOfGas, c\<lparr>ec_gas_remaining := r\<rparr>) else (Inr (), c\<lparr>ec_gas_remaining := r - g\<rparr>))"
  by (simp add: charge_gas_def)

lemma length_balance_key: "length treasury = 32" "length token_recipient = 32"
  "length (balance_key a) = 4 + length a"
  by (simp_all add: treasury_def token_recipient_def balance_key_def)

lemma token_transfer_runs: "fst (token_transfer token_ctx) = Inr ()"
  by (simp add: token_transfer_def get_balance_def set_balance_def storage_get_bytes_def storage_set_bytes_def
      emit_event_bytes_def andThen_def charge_gas_def token_ctx_def sample_ctx_def ctx_view_def length_balance_key)

theorem token_transfer_conserves_supply_witness:
  "unat (balance_of (snd (token_transfer token_ctx)) treasury) = 4000"
  using token_transfer_conserves_supply [OF token_transfer_runs refl]
  by (simp add: balance_of_token_ctx)

section \<open>The contract on an engine\<close>

text \<open>
  An engine that runs this contract for every module: the exported functions are \<open>init\<close> and
  \<open>transfer\<close>, a failing host call traps, and no fuel is used.
\<close>

definition token_method :: "bytes \<Rightarrow> unit vm_op option" where
  "token_method method =
     (if method = ascii ''init'' then Some token_init
      else if method = ascii ''transfer'' then Some token_transfer else None)"

definition token_engine :: wasmtime where
  "token_engine = \<lparr>
     wt_module = (\<lambda>code. Inr ()),
     wt_instantiate = (\<lambda>code fuel c. (Inr (Some []), c, fuel)),
     wt_has_func = (\<lambda>code method. token_method method \<noteq> None),
     wt_call = (\<lambda>code method fuel c. case token_method method of
         None \<Rightarrow> (Inl ''unknown function'', c, fuel)
       | Some m \<Rightarrow> (case m c of (Inr _, c') \<Rightarrow> (Inr (), c', fuel) | (Inl _, c') \<Rightarrow> (Inl ''trap'', c', fuel))),
     wt_out_of_fuel = (\<lambda>msg. False)\<rparr>"

lemma guest_op_token: "guest_op token_init" "guest_op token_transfer"
  unfolding token_init_def token_transfer_def get_balance_def set_balance_def Let_def
  by (auto intro!: guest_op_andThen guest_op_parts guest_op_ok split: option.splits if_splits)

interpretation token: wasm_engine token_engine
proof (unfold_locales, goal_cases)
  case (2 c code name fuel)
  have reach: "vm_reach c (snd (m c))" if "token_method name = Some m" for m
    using that guest_op_token by (auto simp: token_method_def guest_op_def split: if_splits)
  show ?case
  proof (cases "token_method name")
    case (Some m)
    with reach [OF Some] show ?thesis
      by (cases "m c"; cases "fst (m c)") (simp_all add: token_engine_def)
  qed (auto simp: token_engine_def)
qed (auto simp: token_engine_def split: option.splits prod.splits sum.splits)

theorem vm_execute_sound_witness:
  "\<exists>r. vm_execute token_engine [] (ascii ''init'') [] (sample_ctx 100000) = Inr r \<and>
     length (er_state_changes r) = 5 \<and> written_cost (er_state_changes r) (er_events r) \<le> 100000"
proof -
  let ?c = "(sample_ctx 100000)\<lparr>ec_memory := Some []\<rparr>"
  have "fst (token_init ?c) = Inr ()" "length (ec_state_diff (snd (token_init ?c))) = 5"
    by (simp_all add: token_init_def set_balance_def storage_set_bytes_def emit_event_bytes_def andThen_def
        charge_gas_def sample_ctx_def Let_def balance_key_def ascii_def)
  then obtain r where r: "vm_execute token_engine [] (ascii ''init'') [] (sample_ctx 100000) = Inr r"
      "length (er_state_changes r) = 5"
    by (cases "token_init ?c") (simp add: vm_execute_def token_engine_def token_method_def Let_def)
  then show ?thesis
    using vm_execute_sound [OF token.wasm_engine_axioms, of "sample_ctx 100000" "[]" "ascii ''init''" "[]"]
    by (simp add: sample_ctx_def)
qed

text \<open>
  The gas an execution reports leaves out what host calls charge. On an engine that meets the
  laws, a transfer whose host calls charged gas reports 0 gas used: \<open>gas_used\<close> is the fuel alone,
  so fuel and host gas are two budgets, each as large as the limit.
\<close>

theorem reported_gas_ignores_host_calls:
  "wasm_engine token_engine \<and>
    (case vm_execute token_engine code (ascii ''transfer'') [] token_ctx of
       Inr r \<Rightarrow> er_gas_used r = 0 \<and> er_state_changes r \<noteq> [] | Inl _ \<Rightarrow> False) \<and>
    unat (ec_gas_remaining token_ctx) - unat (ec_gas_remaining (snd (token_transfer token_ctx))) = 2085"
proof -
  let ?m = "token_ctx\<lparr>ec_memory := Some []\<rparr>"
  have neq: "ascii ''transfer'' \<noteq> ascii ''init''"
    by (metis length_ascii length_Cons list.size(3) nat.inject Zero_not_Suc)
  have run: "fst (token_transfer ?m) = Inr ()" "ec_state_diff (snd (token_transfer ?m)) \<noteq> []"
    by (simp_all add: token_transfer_def get_balance_def set_balance_def storage_get_bytes_def storage_set_bytes_def
      emit_event_bytes_def andThen_def charge_gas_def token_ctx_def sample_ctx_def ctx_view_def length_balance_key)
  then obtain c' where "token_transfer ?m = (Inr (), c')" "ec_state_diff c' \<noteq> []"
    by (metis prod.collapse)
  then have "case vm_execute token_engine code (ascii ''transfer'') [] token_ctx of
       Inr r \<Rightarrow> er_gas_used r = 0 \<and> er_state_changes r \<noteq> [] | Inl _ \<Rightarrow> False"
    using neq by (simp add: vm_execute_def token_engine_def token_method_def sat_sub_def)
  moreover have "unat (ec_gas_remaining token_ctx) - unat (ec_gas_remaining (snd (token_transfer token_ctx))) = 2085"
    by (simp add: token_transfer_def get_balance_def set_balance_def storage_get_bytes_def storage_set_bytes_def
      emit_event_bytes_def andThen_def charge_gas_def token_ctx_def sample_ctx_def ctx_view_def length_balance_key)
  ultimately show ?thesis
    using token.wasm_engine_axioms by blast
qed

end
