(* ===== verification/Contract_Blocks.thy ===== *)
theory Contract_Blocks
  imports Engine_Blocks Token_Contract
begin

text \<open>
  Contracts in blocks: the engine's second phase (engine.rs, \<open>execute_and_apply_block\<close>), the
  virtual machine and the contract state of the store together, with the token contract as the
  program that runs. Every call of a block runs on the state before the block, and a deployment
  runs \<open>init\<close> whether or not the contract exists.
\<close>

section \<open>The effects of a block's calls\<close>

lemma distinct_merge_changes:
  "distinct (map fst changes) \<Longrightarrow> distinct (map fst (merge_changes cid diff changes))"
  by (induction diff arbitrary: changes) (auto simp: merge_changes_def distinct_update)

lemma map_of_merge_changes:
  "distinct (map fst diff) \<Longrightarrow>
   map_of (merge_changes cid diff changes) (cid @ key) =
     (case map_of diff key of Some v \<Rightarrow> Some v | None \<Rightarrow> map_of changes (cid @ key))"
proof (induction diff arbitrary: changes)
  case (Cons kv diff)
  obtain k v where kv: "kv = (k, v)" by (cases kv)
  have "map_of diff k = None"
    using Cons.prems kv by (simp add: map_of_eq_None_iff)
  moreover have "merge_changes cid (kv # diff) changes = merge_changes cid diff (AList.update (cid @ k) v changes)"
    by (simp add: merge_changes_def kv)
  ultimately show ?case
    using Cons kv by (auto simp: update_conv' split: option.split)
qed (simp add: merge_changes_def)

text \<open>What a contract would read under a key if the collected changes were stored.\<close>

definition overlay :: "hash32 \<Rightarrow> (bytes \<times> bytes) list \<Rightarrow> (bytes \<rightharpoonup> bytes) \<Rightarrow> bytes \<rightharpoonup> bytes" where
  "overlay cid changes existing key = (case map_of changes (cid @ key) of Some v \<Rightarrow> Some v | None \<Rightarrow> existing key)"

lemma overlay_Nil: "overlay cid [] existing = existing"
  by (simp add: overlay_def fun_eq_iff)

lemma overlay_other:
  "length cid = 32 \<Longrightarrow> length cid' = 32 \<Longrightarrow> cid' \<noteq> cid \<Longrightarrow>
   overlay cid (merge_changes cid' diff changes) existing = overlay cid changes existing"
proof (induction diff arbitrary: changes)
  case (Cons kv diff)
  have "overlay cid (AList.update (cid' @ fst kv) (snd kv) changes) existing = overlay cid changes existing"
    using Cons.prems by (simp add: overlay_def fun_eq_iff update_conv')
  then show ?case
    using Cons by (simp add: merge_changes_def split_beta)
qed (simp add: merge_changes_def)

lemma overlay_own:
  "distinct (map fst diff) \<Longrightarrow> overlay cid (merge_changes cid diff changes) existing =
    overlay cid changes existing ++ map_of diff"
  by (simp add: overlay_def fun_eq_iff map_of_merge_changes map_add_def split: option.split)

section \<open>What a contract reads after a block\<close>

context sled_db
begin

lemma contract_reads_final_view:
  assumes "represents X S s L" "length (lg_leaves L) + length (block_commitments b) < 2 ^ 32" "length cid = 32"
    and "ec_existing_state c = unwrap_or (get_contract_state_all S cid (ss_db s)) Map.empty"
    and "distinct (map fst (ec_state_diff c))" "changes = merge_changes cid (ec_state_diff c) []"
    and "fst (apply_block X S b changes contracts s) = Inr new_root"
  shows "get_contract_state S cid key (ss_db (snd (apply_block X S b changes contracts s))) = Inr (ctx_view c key)"
proof -
  obtain m where m: "get_contract_state_all S cid (ss_db s) = Inr m" "\<And>k. get_contract_state S cid k (ss_db s) = Inr (m k)"
    using get_contract_state_all_eq [OF assms(3)] by blast
  have changes: "distinct (map fst changes)"
    "map_of changes (cid @ key) = (case map_of (ec_state_diff c) key of Some v \<Rightarrow> Some v | None \<Rightarrow> None)"
    by (simp_all add: assms(6) distinct_merge_changes map_of_merge_changes [OF assms(5)] split: option.split)
  show ?thesis
    using get_contract_state_after [OF assms(1,2,7) changes(1), of cid key] changes(2) assms(4) m
    by (simp add: ctx_view_def split: option.splits)
qed

end

section \<open>The token contract in blocks\<close>

text \<open>
  Code that is the compiled token contract: instantiation leaves the context alone, and a call of
  an exported function that returns did what the function does, without a failing host call.
\<close>

locale token_code = wasm_engine +
  fixes code :: bytes
  assumes instantiated: "wt_instantiate W code fuel c = (Inr mem, c', fuel') \<Longrightarrow> c' = c"
    and called: "token_method method = Some op \<Longrightarrow> wt_call W code method fuel c = (Inr u, c', fuel') \<Longrightarrow>
      op c = (Inr (), c')"

interpretation token: token_code token_engine code for code
  by unfold_locales (auto simp: token_engine_def split: option.splits prod.splits sum.splits)

context token_code
begin

text \<open>A successful execution ends in the context the function leaves, started with some memory.\<close>

lemma execute_token:
  assumes "vm_execute W code method args (new_ctx cid caller gas existing) = Inr r" "token_method method = Some op"
  obtains c mem where "op ((new_ctx cid caller gas existing)\<lparr>ec_memory := Some mem\<rparr>) = (Inr (), c)"
    "er_state_changes r = ec_state_diff c" "ec_existing_state c = existing" "distinct (map fst (ec_state_diff c))"
proof -
  let ?ctx = "new_ctx cid caller gas existing"
  obtain mem ctx1 fuel1 c remaining where
    inst: "wt_instantiate W code (ec_gas_remaining ?ctx) ?ctx = (Inr (Some mem), ctx1, fuel1)" and
    call: "wt_call W code method fuel1 (ctx1\<lparr>ec_memory := Some mem\<rparr>) = (Inr (), c, remaining)" and
    r: "er_state_changes r = ec_state_diff c"
    using assms(1) by (auto simp: vm_execute_def Let_def split: sum.splits prod.splits option.splits if_splits wt_stop.splits)
  have "ctx1 = ?ctx"
    by (rule instantiated [OF inst])
  then have op: "op (?ctx\<lparr>ec_memory := Some mem\<rparr>) = (Inr (), c)"
    using called [OF assms(2) call] by simp
  have "ctx_le (?ctx\<lparr>ec_memory := Some mem\<rparr>) c"
    using call_steps [of "?ctx\<lparr>ec_memory := Some mem\<rparr>" code "method" fuel1] call \<open>ctx1 = ?ctx\<close>
    by (simp add: vm_reach_le)
  then show ?thesis
    by (intro that [OF op r]) (simp_all add: ctx_le_def new_ctx_def)
qed

end

text \<open>The balance of an account as the database stores it.\<close>

definition stored_balance :: "'db sled \<Rightarrow> hash32 \<Rightarrow> bytes \<Rightarrow> 'db \<Rightarrow> u64" where
  "stored_balance S cid account db =
     (case get_contract_state S cid (balance_key account) db of
        Inr (Some v) \<Rightarrow> u64_from_le (take 8 (v @ drop (length v) (replicate 8 0)))
      | _ \<Rightarrow> 0)"

lemma ctx_view_memory [simp]: "ctx_view (c\<lparr>ec_memory := mem\<rparr>) = ctx_view c"
  by (simp add: ctx_view_def fun_eq_iff split: option.split)

lemma ctx_view_new_ctx [simp]: "ctx_view (new_ctx cid caller gas existing) = existing"
  by (simp add: ctx_view_def new_ctx_def fun_eq_iff)

lemma stored_balance_view:
  "get_contract_state S cid (balance_key a) db = Inr (ctx_view c (balance_key a)) \<Longrightarrow> stored_balance S cid a db = balance_of c a"
  by (simp add: stored_balance_def balance_of_def split: option.split)

text \<open>What a token contract's balances are after a block whose only contract effects come from it.\<close>

lemma balances_after_block:
  assumes "sled_db S" "represents X S s L" "length (lg_leaves L) + length (block_commitments b) < 2 ^ 32" "length cid = 32"
    and "token_code W code" "token_method method = Some op"
    and "vm_execute W code method args (new_ctx cid caller gas
      (unwrap_or (get_contract_state_all S cid (ss_db s)) Map.empty)) = Inr r"
    and "changes = merge_changes cid (er_state_changes r) []"
    and "fst (apply_block X S b changes contracts s) = Inr new_root"
  obtains c0 c where "op c0 = (Inr (), c)" "\<And>a. balance_of c0 a = stored_balance S cid a (ss_db s)"
    "\<And>a. stored_balance S cid a (ss_db (snd (apply_block X S b changes contracts s))) = balance_of c a"
proof -
  let ?existing = "unwrap_or (get_contract_state_all S cid (ss_db s)) Map.empty"
  obtain c mem where c: "op ((new_ctx cid caller gas ?existing)\<lparr>ec_memory := Some mem\<rparr>) = (Inr (), c)"
      "er_state_changes r = ec_state_diff c" "ec_existing_state c = ?existing" "distinct (map fst (ec_state_diff c))"
    by (rule token_code.execute_token [OF assms(5,7,6)])
  obtain m where m: "get_contract_state_all S cid (ss_db s) = Inr m" "\<And>k. get_contract_state S cid k (ss_db s) = Inr (m k)"
    using sled_db.get_contract_state_all_eq [OF assms(1,4)] by blast
  have "stored_balance S cid a (ss_db s) = balance_of ((new_ctx cid caller gas ?existing)\<lparr>ec_memory := Some mem\<rparr>) a" for a
    by (rule stored_balance_view) (simp add: m)
  moreover have "stored_balance S cid a (ss_db (snd (apply_block X S b changes contracts s))) = balance_of c a" for a
    using sled_db.contract_reads_final_view [OF assms(1-4) c(3,4) _ assms(9)] assms(8) c(2)
    by (intro stored_balance_view) simp
  ultimately show ?thesis
    using c(1) that by metis
qed

text \<open>What the contract's functions do to balances, when they do not trap.\<close>

lemma transfer_not_init: "token_method (ascii ''transfer'') = Some token_transfer"
proof -
  have "ascii ''transfer'' \<noteq> ascii ''init''"
    by (metis length_ascii length_Cons list.size(3) nat.inject Zero_not_Suc)
  then show ?thesis
    by (simp add: token_method_def)
qed

lemma transfer_balances:
  assumes "token_transfer c0 = (Inr (), c)" "1000 \<le> unat (balance_of c0 treasury)"
  shows "balance_of c a = (if a = token_recipient then balance_of c0 token_recipient + 1000
    else if a = treasury then balance_of c0 treasury - 1000 else balance_of c0 a)"
  using token_transfer_view [of c0] assms by (intro balance_of_view) (simp add: word_less_nat_alt)

lemma set_then:
  assumes "andThen (storage_set_bytes k v) (\<lambda>_. m) c0 = (Inr x, c)"
  obtains c1 where "m c1 = (Inr x, c)" "ctx_view c1 = (ctx_view c0)(k \<mapsto> v)"
proof -
  obtain u where u: "fst (storage_set_bytes k v c0) = Inr u" "andThen (storage_set_bytes k v) (\<lambda>_. m) c0 = m (snd (storage_set_bytes k v c0))"
    using andThen_success [of "storage_set_bytes k v" "\<lambda>_. m" c0 x] assms by auto
  show ?thesis
    by (rule that [of "snd (storage_set_bytes k v c0)"]) (use assms u in \<open>simp_all add: ctx_kv.set_view\<close>)
qed

lemma init_balances:
  assumes "token_init c0 = (Inr (), c)"
  shows "balance_of c a = (if a = treasury then 1000000000 else balance_of c0 a)"
proof -
  obtain c1 where c1: "emit_event_bytes (ascii ''TokenInitialized:1000000000'') c1 = (Inr (), c)"
      "ctx_view c1 = (ctx_view c0)(balance_key treasury \<mapsto> u64_to_le 1000000000, ascii ''TOTAL_SUPPLY'' \<mapsto> u64_to_le 1000000000,
    ascii ''DECIMALS'' \<mapsto> [8], ascii ''SYMBOL'' \<mapsto> ascii ''NOIR'', ascii ''NAME'' \<mapsto> ascii ''NoirNet Token'')"
    using assms unfolding token_init_def set_balance_def Let_def by (elim set_then) metis
  have "ctx_view c = ctx_view c1"
    using ctx_kv.emit_view [of "ascii ''TokenInitialized:1000000000''" c1] c1(1) by simp
  moreover have "balance_key a \<noteq> k" if "hd k \<noteq> 98" for k
    using that by (auto simp: balance_key_def ascii_def)
  ultimately show ?thesis
    using c1(2) by (simp add: balance_of_def ascii_def)
qed

text \<open>A block that the node checks and the ledger accepts is applied with its contract effects.\<close>

definition block_fits :: "'db node_env \<Rightarrow> u64 \<Rightarrow> block \<Rightarrow> ledger \<Rightarrow> 'db engine \<Rightarrow> bool" where
  "block_fits E now b L en \<longleftrightarrow> sled_db (nd_sled E) \<and> represents (nd_ext E) (nd_sled E) (en_store en) L \<and>
     block_checked E now b en \<and> bh_height (blk_header b) = next_height L \<and> spendable (lg_spent L) b \<and>
     length (lg_leaves L) + length (block_commitments b) < 2 ^ 32"

lemma fitting_block_applied:
  assumes "block_fits E now b L en"
    and "run_contracts E (ss_db (en_store en)) (blk_transactions b) = (changes, contracts)"
  obtains new_root where "fst (apply_block (nd_ext E) (nd_sled E) b changes contracts (en_store en)) = Inr new_root"
    "en_store (execute_and_apply_block E now b en) = snd (apply_block (nd_ext E) (nd_sled E) b changes contracts (en_store en))"
proof -
  obtain store new_root where run: "apply_block (nd_ext E) (nd_sled E) b changes contracts (en_store en) = (Inr new_root, store)"
    using sled_db.apply_block_accepts [of "nd_sled E" "nd_ext E" "en_store en" L b changes contracts] assms(1)
    by (cases "apply_block (nd_ext E) (nd_sled E) b changes contracts (en_store en)") (auto simp: block_fits_def)
  have "block_checked E now b en"
    using assms(1) by (simp add: block_fits_def)
  from execute_checked [OF this assms(2)] run show ?thesis
    by (intro that) auto
qed

text \<open>
  What a transfer that returns leaves under the keys of the contract, as a function of what it
  found there: neither the caller nor the arguments nor the gas matter.
\<close>

definition balance_in :: "(bytes \<rightharpoonup> bytes) \<Rightarrow> bytes \<Rightarrow> u64" where
  "balance_in m a = (case m (balance_key a) of None \<Rightarrow> 0 | Some v \<Rightarrow> u64_from_le (take 8 (v @ drop (length v) (replicate 8 0))))"

definition paid :: "(bytes \<rightharpoonup> bytes) \<Rightarrow> bytes \<rightharpoonup> bytes" where
  "paid m = (if balance_in m treasury < 1000 then m
     else m(balance_key treasury \<mapsto> u64_to_le (balance_in m treasury - 1000),
       balance_key token_recipient \<mapsto> u64_to_le (balance_in m token_recipient + 1000)))"

lemma balance_in_paid:
  "1000 \<le> unat (balance_in m treasury) \<Longrightarrow> balance_in (paid m) a =
    (if a = token_recipient then balance_in m token_recipient + 1000
     else if a = treasury then balance_in m treasury - 1000 else balance_in m a)"
  by (simp add: paid_def word_less_nat_alt) (simp add: balance_in_def)

lemma stored_balance_in: "get_contract_state S cid (balance_key a) db = Inr (m (balance_key a)) \<Longrightarrow> stored_balance S cid a db = balance_in m a"
  by (simp add: stored_balance_def balance_in_def split: option.split)

context token_code
begin

lemma execute_transfer:
  assumes "vm_execute W code (ascii ''transfer'') args (new_ctx cid caller gas existing) = Inr r"
  shows "distinct (map fst (er_state_changes r)) \<and> existing ++ map_of (er_state_changes r) = paid existing"
proof -
  obtain c mem where c: "token_transfer ((new_ctx cid caller gas existing)\<lparr>ec_memory := Some mem\<rparr>) = (Inr (), c)"
      "er_state_changes r = ec_state_diff c" "ec_existing_state c = existing" "distinct (map fst (ec_state_diff c))"
    by (rule execute_token [OF assms transfer_not_init])
  have "balance_of d = balance_in (ctx_view d)" for d
    by (simp add: balance_of_def balance_in_def fun_eq_iff)
  then have "ctx_view c = paid existing"
    using token_transfer_view [of "(new_ctx cid caller gas existing)\<lparr>ec_memory := Some mem\<rparr>"] c(1) by (simp add: paid_def)
  moreover have "ctx_view c = existing ++ map_of (er_state_changes r)"
    by (simp add: ctx_view_def c(2,3) fun_eq_iff map_add_def split: option.split)
  ultimately show ?thesis
    using c(2,4) by simp
qed

end

text \<open>
  Transactions that touch a contract by calls of its \<open>transfer\<close> at most. They may call and deploy
  other contracts; identifiers have the 32 bytes of their type.
\<close>

definition only_transfers :: "ext \<Rightarrow> hash32 \<Rightarrow> transaction list \<Rightarrow> bool" where
  "only_transfers X cid txs \<longleftrightarrow> length cid = 32 \<and> (\<forall>tx \<in> set txs.
     (case tx_deploy_contract tx of None \<Rightarrow> True | Some bytecode \<Rightarrow> length (blake3 X bytecode) = 32 \<and> blake3 X bytecode \<noteq> cid) \<and>
     (case tx_contract_call tx of None \<Rightarrow> True | Some call \<Rightarrow> length (cc_contract_id call) = 32 \<and>
        (cc_contract_id call = cid \<longrightarrow> cc_method call = ascii ''transfer'')))"

text \<open>Whether a transaction's call of the contract is reached and returns.\<close>

definition call_returns :: "'db node_env \<Rightarrow> 'db \<Rightarrow> hash32 \<Rightarrow> bytes \<Rightarrow> transaction \<Rightarrow> bool" where
  "call_returns E db cid code tx =
     (case tx_contract_call tx of
        None \<Rightarrow> False
      | Some call \<Rightarrow> cc_contract_id call = cid \<and>
          (case tx_deploy_contract tx of None \<Rightarrow> True | Some bytecode \<Rightarrow> length bytecode \<le> MAX_CONTRACT_SIZE) \<and>
          (case vm_execute (nd_vm E) code (cc_method call) (cc_args call)
              (new_ctx cid (cc_caller_commitment call) (cc_gas_limit call)
                (unwrap_or (get_contract_state_all (nd_sled E) cid db) Map.empty)) of
             Inl _ \<Rightarrow> False | Inr _ \<Rightarrow> True))"

text \<open>
  With transfers at most, the collected changes amount to nothing or to one payment: a later
  transfer, which saw the same stored balances, writes the same values again.
\<close>

definition paid_at_most_once :: "hash32 \<Rightarrow> (bytes \<rightharpoonup> bytes) \<Rightarrow> contract_effects \<Rightarrow> bool" where
  "paid_at_most_once cid existing eff \<longleftrightarrow>
     distinct (map fst (fst eff)) \<and> overlay cid (fst eff) existing \<in> {existing, paid existing}"

definition paid_once :: "hash32 \<Rightarrow> (bytes \<rightharpoonup> bytes) \<Rightarrow> contract_effects \<Rightarrow> bool" where
  "paid_once cid existing eff \<longleftrightarrow> distinct (map fst (fst eff)) \<and> overlay cid (fst eff) existing = paid existing"

lemma map_add_same: "m ++ d = p \<Longrightarrow> p ++ d = p"
  by (auto simp: map_add_def fun_eq_iff split: option.splits)

lemma run_deploy_other:
  assumes "length cid = 32" "length (blake3 (nd_ext E) bytecode) = 32" "blake3 (nd_ext E) bytecode \<noteq> cid"
  shows "overlay cid (fst (run_deploy E db tx bytecode eff)) existing = overlay cid (fst eff) existing \<and>
    (distinct (map fst (fst eff)) \<longrightarrow> distinct (map fst (fst (run_deploy E db tx bytecode eff))))"
  by (cases eff) (simp add: run_deploy_def Let_def overlay_other [OF assms] distinct_merge_changes split: sum.split)

lemma run_call_other:
  assumes "length cid = 32" "length (cc_contract_id call) = 32" "cc_contract_id call \<noteq> cid"
  shows "overlay cid (fst (run_call E db call eff)) existing = overlay cid (fst eff) existing \<and>
    (distinct (map fst (fst eff)) \<longrightarrow> distinct (map fst (fst (run_call E db call eff))))"
  by (cases eff) (simp add: run_call_def Let_def overlay_other [OF assms] distinct_merge_changes split: sum.split option.split)

lemma run_call_transfer:
  assumes "token_code (nd_vm E) code" "get_contract_code (nd_sled E) cid db = Inr (Some code)"
    and "cc_contract_id call = cid" "cc_method call = ascii ''transfer''"
    and "existing = unwrap_or (get_contract_state_all (nd_sled E) cid db) Map.empty" "paid_at_most_once cid existing eff"
  shows "run_call E db call eff = eff \<and> (\<exists>e. vm_execute (nd_vm E) code (cc_method call) (cc_args call)
        (new_ctx cid (cc_caller_commitment call) (cc_gas_limit call) existing) = Inl e) \<or>
    paid_once cid existing (run_call E db call eff)"
proof (cases "vm_execute (nd_vm E) code (cc_method call) (cc_args call)
    (new_ctx cid (cc_caller_commitment call) (cc_gas_limit call) existing)")
  case (Inl e)
  then show ?thesis
    by (cases eff) (simp add: run_call_def assms(2,3) assms(5) [symmetric])
next
  case (Inr r)
  have paid: "distinct (map fst (er_state_changes r))" "existing ++ map_of (er_state_changes r) = paid existing"
    using token_code.execute_transfer [OF assms(1)] Inr assms(4) by auto
  have "fst (run_call E db call eff) = merge_changes cid (er_state_changes r) (fst eff)"
    using Inr by (cases eff) (simp add: run_call_def assms(2,3) assms(5) [symmetric])
  then have "paid_once cid existing (run_call E db call eff)"
    using assms(6) overlay_own [OF paid(1)] paid(2) map_add_same [OF paid(2)]
    by (auto simp: paid_once_def paid_at_most_once_def distinct_merge_changes)
  then show ?thesis ..
qed

lemma paid_once_weaker: "paid_once cid existing eff \<Longrightarrow> paid_at_most_once cid existing eff"
  by (simp add: paid_once_def paid_at_most_once_def)

lemma run_tx_transfers:
  assumes "token_code (nd_vm E) code" "get_contract_code (nd_sled E) cid db = Inr (Some code)" "only_transfers (nd_ext E) cid [tx]"
    and "existing = unwrap_or (get_contract_state_all (nd_sled E) cid db) Map.empty" "paid_at_most_once cid existing eff"
  shows "paid_at_most_once cid existing (run_tx E db tx eff) \<and>
    (call_returns E db cid code tx \<or> paid_once cid existing eff \<longrightarrow> paid_once cid existing (run_tx E db tx eff))"
proof -
  have call: "paid_at_most_once cid existing (run_call E db call eff') \<and>
      ((\<exists>r. cc_contract_id call = cid \<and> vm_execute (nd_vm E) code (cc_method call) (cc_args call)
        (new_ctx cid (cc_caller_commitment call) (cc_gas_limit call) existing) = Inr r) \<or> paid_once cid existing eff' \<longrightarrow>
       paid_once cid existing (run_call E db call eff'))"
    if "paid_at_most_once cid existing eff'" "tx_contract_call tx = Some call" for call eff'
  proof (cases "cc_contract_id call = cid")
    case True
    then show ?thesis
      using run_call_transfer [OF assms(1,2) True _ assms(4) that(1)] assms(3) that
        paid_once_weaker [of cid existing "run_call E db call eff'"]
      by (auto simp: only_transfers_def)
  next
    case False
    then show ?thesis
      using run_call_other [OF _ _ False, of E db eff' existing] assms(3) that
      by (auto simp: only_transfers_def paid_once_def paid_at_most_once_def)
  qed
  have deploy: "paid_at_most_once cid existing (run_deploy E db tx bytecode eff) \<and>
      (paid_once cid existing eff \<longrightarrow> paid_once cid existing (run_deploy E db tx bytecode eff))"
    if "tx_deploy_contract tx = Some bytecode" for bytecode
    using run_deploy_other [of cid E bytecode db tx eff existing] assms(3,5) that
    by (auto simp: only_transfers_def paid_once_def paid_at_most_once_def)
  show ?thesis
    using assms(4,5) call deploy
    by (auto simp: run_tx_def call_returns_def Let_def split: option.splits sum.splits)
qed

lemma run_txs_transfers:
  assumes "token_code (nd_vm E) code" "get_contract_code (nd_sled E) cid db = Inr (Some code)" "only_transfers (nd_ext E) cid txs"
    and "existing = unwrap_or (get_contract_state_all (nd_sled E) cid db) Map.empty" "paid_at_most_once cid existing eff"
  shows "paid_at_most_once cid existing (fold (run_tx E db) txs eff) \<and>
    ((\<exists>tx \<in> set txs. call_returns E db cid code tx) \<or> paid_once cid existing eff \<longrightarrow>
       paid_once cid existing (fold (run_tx E db) txs eff))"
  using assms(3,5)
proof (induction txs arbitrary: eff)
  case (Cons tx txs)
  have "only_transfers (nd_ext E) cid [tx]" "only_transfers (nd_ext E) cid txs"
    using Cons.prems(1) by (simp_all add: only_transfers_def)
  then show ?case
    using run_tx_transfers [OF assms(1,2) _ assms(4) Cons.prems(2), of tx] Cons.IH [of "run_tx E db tx eff"] by auto
qed simp

text \<open>
  C32: transfers of one block collapse into one. Let the transactions of a block that the node
  applies touch the deployed token contract by calls of \<open>transfer\<close> only, whoever calls it, with
  whatever arguments and gas limit and beside whatever calls and deployments of other contracts,
  and let the treasury hold the amount of 1000. If at least one of these calls returns, executing
  the block moves that amount once, however many there are: every call reads the balances stored
  before the block, and later calls write again what the first one wrote.
\<close>

theorem transfers_of_one_block_collapse:
  assumes "block_fits E now b L en" "db = ss_db (en_store en)"
    and "db' = ss_db (en_store (execute_and_apply_block E now b en))"
    and "token_code (nd_vm E) code" "get_contract_code (nd_sled E) cid db = Inr (Some code)"
    and "only_transfers (nd_ext E) cid (blk_transactions b)"
    and "\<exists>tx \<in> set (blk_transactions b). call_returns E db cid code tx"
    and "1000 \<le> unat (stored_balance (nd_sled E) cid treasury db)"
    and "unat (stored_balance (nd_sled E) cid token_recipient db) + 1000 < 2 ^ 64"
  shows "unat (stored_balance (nd_sled E) cid token_recipient db') = unat (stored_balance (nd_sled E) cid token_recipient db) + 1000 \<and>
    unat (stored_balance (nd_sled E) cid treasury db') = unat (stored_balance (nd_sled E) cid treasury db) - 1000 \<and>
    (\<forall>a. a \<noteq> treasury \<and> a \<noteq> token_recipient \<longrightarrow>
       stored_balance (nd_sled E) cid a db' = stored_balance (nd_sled E) cid a db)"
proof -
  let ?S = "nd_sled E"
  have fits: "sled_db ?S" "represents (nd_ext E) ?S (en_store en) L" "length (lg_leaves L) + length (block_commitments b) < 2 ^ 32"
    using assms(1) by (simp_all add: block_fits_def)
  have "length cid = 32"
    using assms(6) by (simp add: only_transfers_def)
  then obtain m where m: "get_contract_state_all ?S cid db = Inr m" "\<And>k. get_contract_state ?S cid k db = Inr (m k)"
    using sled_db.get_contract_state_all_eq [OF fits(1)] by blast
  obtain changes contracts where eff: "run_contracts E db (blk_transactions b) = (changes, contracts)"
    by fastforce
  have once: "distinct (map fst changes)" "overlay cid changes m = paid m"
    using run_txs_transfers [OF assms(4-6), of m "([], [])"] m(1) assms(7) eff
    by (simp_all add: paid_at_most_once_def paid_once_def overlay_Nil run_contracts_def)
  obtain new_root where applied: "fst (apply_block (nd_ext E) ?S b changes contracts (en_store en)) = Inr new_root"
      "db' = ss_db (snd (apply_block (nd_ext E) ?S b changes contracts (en_store en)))"
    using fitting_block_applied [OF assms(1) eff [unfolded assms(2)]] assms(3) by metis
  have "get_contract_state ?S cid key db' = Inr (overlay cid changes m key)" for key
    using sled_db.get_contract_state_after [OF fits applied(1) once(1), of cid key] m(2) [of key]
    by (simp add: applied(2) assms(2) overlay_def split: option.split)
  then have "stored_balance ?S cid a db' = balance_in (paid m) a" for a
    by (intro stored_balance_in) (simp add: once(2))
  moreover have "stored_balance ?S cid a db = balance_in m a" for a
    by (intro stored_balance_in m(2))
  ultimately show ?thesis
    using assms(8,9) by (auto simp: balance_in_paid unat_sub word_le_nat_alt unat_add_no_wrap)
qed

text \<open>
  C33: deploying the token again mints. A deployment runs \<open>init\<close> on the contract of the code's hash,
  also when it exists already: the treasury is back at the full supply of 1000000000 and every
  other account keeps what it holds, so the total grows by what had been paid out. Any
  transaction can carry the deployment.
\<close>

theorem redeployment_mints:
  assumes "block_fits E now b L en" "db = ss_db (en_store en)"
    and "db' = ss_db (en_store (execute_and_apply_block E now b en))"
    and "token_code (nd_vm E) code" "length cid = 32" "cid = blake3 (nd_ext E) code"
    and "blk_transactions b = [tx]" "tx_deploy_contract tx = Some code" "tx_contract_call tx = None"
    and "snd (run_contracts E db (blk_transactions b)) \<noteq> []"
  shows "stored_balance (nd_sled E) cid treasury db' = 1000000000 \<and>
    (\<forall>a. a \<noteq> treasury \<longrightarrow> stored_balance (nd_sled E) cid a db' = stored_balance (nd_sled E) cid a db) \<and>
    unat (stored_balance (nd_sled E) cid treasury db') + unat (stored_balance (nd_sled E) cid token_recipient db') =
      1000000000 + unat (stored_balance (nd_sled E) cid token_recipient db)"
proof -
  let ?S = "nd_sled E"
  obtain changes contracts where eff: "run_contracts E db (blk_transactions b) = (changes, contracts)"
    by fastforce
  obtain new_root where applied: "fst (apply_block (nd_ext E) ?S b changes contracts (en_store en)) = Inr new_root"
      "db' = ss_db (snd (apply_block (nd_ext E) ?S b changes contracts (en_store en)))"
    using fitting_block_applied [OF assms(1) eff [unfolded assms(2)]] assms(3) by metis
  have "run_tx E db tx ([], []) = (changes, contracts)"
    using assms(7) eff by (simp add: run_contracts_def)
  then have "run_deploy E db tx code ([], []) = (changes, contracts)"
    using assms(8-10) eff by (auto simp: run_tx_def split: if_splits)
  then obtain r where r: "vm_execute (nd_vm E) code (ascii ''init'') []
        (new_ctx cid (replicate 32 0) (tx_gas_limit tx) (unwrap_or (get_contract_state_all ?S cid db) Map.empty)) = Inr r"
      "changes = merge_changes cid (er_state_changes r) []"
    using assms(6,10) eff by (auto simp: run_deploy_def Let_def split: sum.splits)
  have fits: "sled_db ?S" "represents (nd_ext E) ?S (en_store en) L" "length (lg_leaves L) + length (block_commitments b) < 2 ^ 32"
    using assms(1) by (simp_all add: block_fits_def)
  have "token_method (ascii ''init'') = Some token_init"
    by (simp add: token_method_def)
  then obtain c0 c where c: "token_init c0 = (Inr (), c)" "\<And>a. balance_of c0 a = stored_balance ?S cid a db"
      "\<And>a. stored_balance ?S cid a db' = balance_of c a"
    using balances_after_block [OF fits assms(5,4) _ r(1) [unfolded assms(2)] r(2) applied(1)]
      assms(2) applied(2) by metis
  show ?thesis
    using init_balances [OF c(1)] c(2,3) by simp
qed

section \<open>A token on a chain\<close>

text \<open>A node with the token engine, and a store where the token is deployed and 2000 units are paid out.\<close>

definition token_node :: "mem_db node_env" where
  "token_node = sample_node\<lparr>nd_vm := token_engine\<rparr>"

lemma token_node_simps [simp]:
  "nd_ext token_node = sample_codec" "nd_sled token_node = mem_sled" "nd_vm token_node = token_engine"
  "nd_crypto token_node = sample_crypto" "nd_verify_spend token_node = verify_spend_proof counting_nova ()"
  by (simp_all add: token_node_def)

definition token_id :: hash32 where "token_id = sample_hash [7]"

definition token_state :: "(bytes \<times> bytes) list" where
  "token_state = [(token_id @ balance_key treasury, u64_to_le 999998000), (token_id @ balance_key token_recipient, u64_to_le 2000)]"

definition token_store :: "mem_db state_store" where
  "token_store = snd (apply_block sample_codec mem_sled (sample_block 0 [sample_tx 1]) token_state [(token_id, [7])] (fresh_store mem_empty))"

definition token_ledger :: ledger where
  "token_ledger = ledger_commit sample_codec (sample_block 0 [sample_tx 1]) token_state [(token_id, [7])] empty_ledger"

definition pay_call :: "u8 \<Rightarrow> contract_call" where
  "pay_call n = \<lparr>cc_contract_id = token_id, cc_method = ascii ''transfer'', cc_args = [n], cc_gas_limit = 100000 + ucast n,
     cc_caller_commitment = replicate 32 n\<rparr>"

definition pay_tx :: "u8 \<Rightarrow> transaction" where
  "pay_tx n = (proven_tx n)\<lparr>tx_contract_call := Some (pay_call n)\<rparr>"

definition deploy_tx :: "u8 \<Rightarrow> transaction" where
  "deploy_tx n = (proven_tx n)\<lparr>tx_deploy_contract := Some [7]\<rparr>"

definition token_observer :: "mem_db engine" where
  "token_observer = sample_engine token_store mempool_new None"

lemma token_applied: "fst (apply_block sample_codec mem_sled (sample_block 0 [sample_tx 1]) token_state [(token_id, [7])]
      (fresh_store mem_empty)) = Inr (ledger_root sample_codec token_ledger)"
  and token_represents: "represents sample_codec mem_sled token_store token_ledger"
  using mem.apply_block_accepts [OF empty_represents, of "sample_block 0 [sample_tx 1]" sample_codec token_state "[(token_id, [7])]"]
  by (simp_all add: token_store_def token_ledger_def spendable_def sample_block_lists)

lemma token_reads: "get_contract_state mem_sled token_id (balance_key treasury) (ss_db token_store) = Inr (Some (u64_to_le 999998000))"
    "get_contract_state mem_sled token_id (balance_key token_recipient) (ss_db token_store) = Inr (Some (u64_to_le 2000))"
  using mem.get_contract_state_after [OF empty_represents _ token_applied, of token_id]
  by (simp_all add: token_store_def token_state_def sample_block_lists)

lemma token_balances: "stored_balance mem_sled token_id treasury (ss_db token_store) = 999998000"
    "stored_balance mem_sled token_id token_recipient (ss_db token_store) = 2000"
  by (simp_all add: stored_balance_def token_reads)

lemma token_code_read: "get_contract_code mem_sled token_id (ss_db token_store) = Inr (Some [7])"
  using token_represents
  by (simp add: represents_def ledger_trees_def get_contract_code_def mem.cf_get_eq token_ledger_def ledger_commit_def Let_def)

lemma token_txs [simp]:
  "tx_nullifiers (pay_tx n) = [replicate 32 n]" "tx_commitments (pay_tx n) = [replicate 32 (n + 1)]"
  "tx_nullifiers (deploy_tx n) = [replicate 32 n]" "tx_commitments (deploy_tx n) = [replicate 32 (n + 1)]"
  "tx_contract_call (pay_tx n) = Some (pay_call n)" "tx_deploy_contract (pay_tx n) = None"
  "tx_contract_call (deploy_tx n) = None" "tx_deploy_contract (deploy_tx n) = Some [7]"
  "tx_gas_limit (deploy_tx n) = 21000"
  by (simp_all add: pay_tx_def deploy_tx_def proven_tx_def sample_tx_def tx_nullifiers_def sample_spend_def
      tx_commitments_def sample_output_def)

lemma check_token_txs: "check_tx token_node (pay_tx n) = None" "check_tx token_node (deploy_tx n) = None"
  "check_tx token_node (proven_tx n) = None"
proof -
  have "verify_spend_proof counting_nova () [1, 0] 1 = Inr True"
    by (simp add: verify_spend_proof_def counting_nova_def)
  then show "check_tx token_node (pay_tx n) = None" "check_tx token_node (deploy_tx n) = None"
    "check_tx token_node (proven_tx n) = None"
    by (simp_all add: check_tx_None well_formatted_def pay_tx_def deploy_tx_def proven_tx_def sample_tx_def
        sample_codec_def sample_ext_def)
qed

lemma token_ledger_simps [simp]:
  "next_height token_ledger = 1" "lg_spent token_ledger = {replicate 32 1}" "length (lg_leaves token_ledger) = 1"
  by (simp_all add: token_ledger_def next_height_def ledger_commit_def Let_def sample_block_lists empty_ledger_def)

lemma token_block_fits:
  "block_fits token_node 0 (sample_block 1 [pay_tx 2, pay_tx 3, proven_tx 4]) token_ledger token_observer"
  "block_fits token_node 0 (sample_block 1 [deploy_tx 2]) token_ledger token_observer"
  by (simp_all add: block_fits_def mem.sled_db_axioms token_observer_def token_represents block_checked_def
      check_txs_None check_token_txs spendable_def block_nullifiers_def block_commitments_def sample_block_def sample_header_def)

text \<open>What the state of the token loads as, and that both functions run on it.\<close>

lemma token_existing:
  obtains m where "get_contract_state_all mem_sled token_id (ss_db token_store) = Inr m"
    "m (balance_key treasury) = Some (u64_to_le 999998000)" "m (balance_key token_recipient) = Some (u64_to_le 2000)"
proof -
  have "length token_id = 32"
    by (simp add: token_id_def)
  then show ?thesis
    using mem.get_contract_state_all_eq [of token_id "ss_db token_store"] token_reads that by auto
qed

lemma transfer_succeeds:
  assumes "m (balance_key treasury) = Some (u64_to_le 999998000)" "m (balance_key token_recipient) = Some (u64_to_le 2000)"
  shows "\<exists>r. vm_execute token_engine code (ascii ''transfer'') args (new_ctx cid caller 100002 m) = Inr r \<and> er_state_changes r \<noteq> []"
proof -
  let ?c = "(new_ctx cid caller 100002 m)\<lparr>ec_memory := Some []\<rparr>"
  have "fst (token_transfer ?c) = Inr ()" "ec_state_diff (snd (token_transfer ?c)) \<noteq> []"
    using assms
    by (simp_all add: token_transfer_def get_balance_def set_balance_def storage_get_bytes_def storage_set_bytes_def
      emit_event_bytes_def andThen_def charge_gas_def new_ctx_def ctx_view_def length_balance_key)
  then show ?thesis
    by (cases "token_transfer ?c") (simp add: vm_execute_def token_engine_def transfer_not_init Let_def)
qed

lemma init_succeeds:
  "\<exists>r. vm_execute token_engine code (ascii ''init'') args (new_ctx cid caller 21000 m) = Inr r"
proof -
  let ?c = "(new_ctx cid caller 21000 m)\<lparr>ec_memory := Some []\<rparr>"
  have "fst (token_init ?c) = Inr ()"
    by (simp add: token_init_def set_balance_def storage_set_bytes_def emit_event_bytes_def andThen_def
        charge_gas_def new_ctx_def Let_def)
  then show ?thesis
    by (cases "token_init ?c") (simp add: vm_execute_def token_engine_def token_method_def Let_def)
qed

lemma token_facts: "length token_id = 32" "en_store token_observer = token_store"
  by (simp_all add: token_id_def token_observer_def)

lemma token_node_code: "token_code (nd_vm token_node) code"
  by (simp add: token.token_code_axioms)

theorem transfers_of_one_block_collapse_witness:
  "unat (stored_balance mem_sled token_id token_recipient (ss_db (en_store
     (execute_and_apply_block token_node 0 (sample_block 1 [pay_tx 2, pay_tx 3, proven_tx 4]) token_observer)))) = 3000"
proof -
  obtain m where m: "get_contract_state_all mem_sled token_id (ss_db token_store) = Inr m"
      "m (balance_key treasury) = Some (u64_to_le 999998000)" "m (balance_key token_recipient) = Some (u64_to_le 2000)"
    by (rule token_existing)
  obtain r where "vm_execute token_engine [7] (ascii ''transfer'') [2] (new_ctx token_id (replicate 32 2) 100002 m) = Inr r"
    using transfer_succeeds [OF m(2,3)] by blast
  then have "call_returns token_node (ss_db token_store) token_id [7] (pay_tx 2)"
    by (simp add: call_returns_def pay_call_def m(1))
  then show ?thesis
    using transfers_of_one_block_collapse [OF token_block_fits(1) refl refl token_node_code,
        where cid = token_id and code = "[7]"]
    by (simp add: token_facts token_balances token_code_read only_transfers_def pay_call_def)
qed

theorem redeployment_mints_witness:
  "unat (stored_balance mem_sled token_id treasury (ss_db (en_store
     (execute_and_apply_block token_node 0 (sample_block 1 [deploy_tx 2]) token_observer)))) +
   unat (stored_balance mem_sled token_id token_recipient (ss_db (en_store
     (execute_and_apply_block token_node 0 (sample_block 1 [deploy_tx 2]) token_observer)))) = 1000002000"
proof -
  have id: "token_id = blake3 (nd_ext token_node) [7]"
    by (simp add: token_id_def sample_codec_def sample_ext_def)
  obtain r where r: "vm_execute token_engine [7] (ascii ''init'') [] (new_ctx token_id (replicate 32 0) 21000
      (unwrap_or (get_contract_state_all mem_sled token_id (ss_db token_store)) Map.empty)) = Inr r"
    using init_succeeds by blast
  have "snd (run_contracts token_node (ss_db token_store) [deploy_tx 2]) \<noteq> []"
    using r id by (simp add: run_contracts_def run_tx_def run_deploy_def MAX_CONTRACT_SIZE_def)
  then show ?thesis
    using redeployment_mints [OF token_block_fits(2) refl refl token_node_code _ id, where tx = "deploy_tx 2"]
    by (simp add: token_facts token_balances)
qed

end
