(* ===== verification/Ieee_Double.thy ===== *)
theory Ieee_Double
  imports Complex_Main "HOL-Library.Log_Nat"
begin

text \<open>
  The \<open>f64\<close> of Rust: IEEE 754 binary64 with rounding to nearest, ties to even. A finite value
  is a sign and a rational magnitude; NaN payloads are not distinguished, no operation of the
  program observes them. The results of the operations are the exact rational results, rounded
  once, so every definition computes.
\<close>

section \<open>Rounding of positive rationals\<close>

text \<open>\<open>\<lfloor>log2 x\<rfloor>\<close> of a positive rational, from the lengths of numerator and denominator.\<close>

definition exponent_of :: "rat \<Rightarrow> int" where
  "exponent_of x =
     (let (n, d) = quotient_of x; e = bitlen n - bitlen d
      in if 2 powi e \<le> x then e else e - 1)"

text \<open>The distance of neighbouring doubles around a value: 53 significant bits, subnormals below.\<close>

definition ulp_of :: "rat \<Rightarrow> rat" where
  "ulp_of x = 2 powi (max (exponent_of x - 52) (- 1074))"

definition round_half_even :: "rat \<Rightarrow> int" where
  "round_half_even x =
     (let n = \<lfloor>x\<rfloor>; r = x - of_int n
      in if r < 1 / 2 then n else if r > 1 / 2 then n + 1 else if even n then n else n + 1)"

definition round_mag :: "rat \<Rightarrow> rat" where
  "round_mag x = (if x = 0 then 0 else of_int (round_half_even (x / ulp_of x)) * ulp_of x)"

section \<open>Values and operations\<close>

datatype f64 = F64_NaN | F64_Inf bool | F64_Fin bool rat

text \<open>An exact magnitude with its sign, rounded; beyond the largest finite double it is infinite.\<close>

definition rounded :: "bool \<Rightarrow> rat \<Rightarrow> f64" where
  "rounded neg m = (let r = round_mag m in if r \<ge> 2 ^ 1024 then F64_Inf neg else F64_Fin neg r)"

fun f64_val :: "f64 \<Rightarrow> rat" where
  "f64_val (F64_Fin neg m) = (if neg then - m else m)"
| "f64_val _ = 0"

text \<open>\<open>n as f64\<close> for an unsigned integer.\<close>

definition f64_of_nat :: "nat \<Rightarrow> f64" where
  "f64_of_nat n = rounded False (of_nat n)"

fun f64_neg :: "f64 \<Rightarrow> f64" where
  "f64_neg F64_NaN = F64_NaN"
| "f64_neg (F64_Inf s) = F64_Inf (\<not> s)"
| "f64_neg (F64_Fin s m) = F64_Fin (\<not> s) m"

text \<open>A sum of exactly zero is \<open>+0\<close> unless both operands are \<open>-0\<close>.\<close>

fun f64_add :: "f64 \<Rightarrow> f64 \<Rightarrow> f64" where
  "f64_add (F64_Fin s m) (F64_Fin t n) =
     (let r = f64_val (F64_Fin s m) + f64_val (F64_Fin t n)
      in if r = 0 then F64_Fin (s \<and> t) 0 else rounded (r < 0) \<bar>r\<bar>)"
| "f64_add (F64_Inf s) (F64_Inf t) = (if s = t then F64_Inf s else F64_NaN)"
| "f64_add (F64_Inf s) (F64_Fin t n) = F64_Inf s"
| "f64_add (F64_Fin s m) (F64_Inf t) = F64_Inf t"
| "f64_add _ _ = F64_NaN"

definition f64_sub :: "f64 \<Rightarrow> f64 \<Rightarrow> f64" where
  "f64_sub x y = f64_add x (f64_neg y)"

fun f64_mul :: "f64 \<Rightarrow> f64 \<Rightarrow> f64" where
  "f64_mul (F64_Fin s m) (F64_Fin t n) = rounded (s \<noteq> t) (m * n)"
| "f64_mul (F64_Inf s) (F64_Inf t) = F64_Inf (s \<noteq> t)"
| "f64_mul (F64_Inf s) (F64_Fin t n) = (if n = 0 then F64_NaN else F64_Inf (s \<noteq> t))"
| "f64_mul (F64_Fin s m) (F64_Inf t) = (if m = 0 then F64_NaN else F64_Inf (s \<noteq> t))"
| "f64_mul _ _ = F64_NaN"

fun f64_div :: "f64 \<Rightarrow> f64 \<Rightarrow> f64" where
  "f64_div (F64_Fin s m) (F64_Fin t n) =
     (if n = 0 then if m = 0 then F64_NaN else F64_Inf (s \<noteq> t) else rounded (s \<noteq> t) (m / n))"
| "f64_div (F64_Inf s) (F64_Fin t n) = F64_Inf (s \<noteq> t)"
| "f64_div (F64_Fin s m) (F64_Inf t) = F64_Fin (s \<noteq> t) 0"
| "f64_div _ _ = F64_NaN"

text \<open>\<open><\<close>: false as soon as an operand is NaN, and the two zeros are equal.\<close>

fun f64_less :: "f64 \<Rightarrow> f64 \<Rightarrow> bool" where
  "f64_less (F64_Fin s m) (F64_Fin t n) \<longleftrightarrow> f64_val (F64_Fin s m) < f64_val (F64_Fin t n)"
| "f64_less (F64_Inf s) (F64_Inf t) \<longleftrightarrow> s \<and> \<not> t"
| "f64_less (F64_Inf s) (F64_Fin t n) \<longleftrightarrow> s"
| "f64_less (F64_Fin s m) (F64_Inf t) \<longleftrightarrow> \<not> t"
| "f64_less _ _ \<longleftrightarrow> False"

text \<open>\<open>x.clamp(lo, hi)\<close>; a NaN stays a NaN.\<close>

definition f64_clamp :: "f64 \<Rightarrow> f64 \<Rightarrow> f64 \<Rightarrow> f64" where
  "f64_clamp x lo hi =
     (let x = (if f64_less x lo then lo else x) in if f64_less hi x then hi else x)"

text \<open>\<open>x as i64\<close>: towards zero, saturating, NaN to 0.\<close>

fun f64_to_i64 :: "f64 \<Rightarrow> int" where
  "f64_to_i64 F64_NaN = 0"
| "f64_to_i64 (F64_Inf neg) = (if neg then - (2 ^ 63) else 2 ^ 63 - 1)"
| "f64_to_i64 (F64_Fin neg m) =
     (if neg then max (- (2 ^ 63)) (- \<lfloor>m\<rfloor>) else min (2 ^ 63 - 1) \<lfloor>m\<rfloor>)"

section \<open>Facts about rounding\<close>

lemma exponent_of_bounds:
  assumes "0 < x"
  shows "2 powi exponent_of x \<le> x" "x < 2 powi (exponent_of x + 1)"
proof -
  obtain n d where q: "quotient_of x = (n, d)"
    by fastforce
  have x: "x = of_int n / of_int d" and d: "0 < d"
    using q by (simp_all add: quotient_of_div quotient_of_denom_pos)
  have n: "0 < n"
    using assms d by (simp add: x zero_less_divide_iff)
  have pw: "(2 :: rat) powi i = of_int (2 ^ nat i)" if "0 \<le> i" for i
    using that by (simp add: power_int_def)
  have up: "of_int k < (2 :: rat) powi bitlen k" and lo: "(2 :: rat) powi (bitlen k - 1) \<le> of_int k" if "0 < k" for k
  proof -
    have "0 < bitlen k"
      using that by (metis bitlen_eq_zero_iff bitlen_nonneg not_le order_le_less)
    then show "of_int k < (2 :: rat) powi bitlen k" "(2 :: rat) powi (bitlen k - 1) \<le> of_int k"
      using bitlen_bounds [OF that] by (simp_all only: pw of_int_less_iff of_int_le_iff)
  qed
  define e where "e = bitlen n - bitlen d"
  have "x < 2 powi bitlen n / 2 powi (bitlen d - 1)"
    unfolding x using up [OF n] lo [OF d] n d by (intro frac_less) auto
  also have "\<dots> = 2 powi (e + 1)"
    by (simp add: e_def power_int_diff [symmetric] algebra_simps)
  finally have top: "x < 2 powi (e + 1)" .
  have "2 powi (bitlen n - 1) / 2 powi bitlen d \<le> x"
    unfolding x using up [OF d] lo [OF n] d n by (intro frac_le) auto
  moreover have "(2 :: rat) powi (bitlen n - 1) / 2 powi bitlen d = 2 powi (e - 1)"
    by (simp add: e_def power_int_diff [symmetric] algebra_simps)
  ultimately have bot: "2 powi (e - 1) \<le> x" by simp
  have "exponent_of x = (if 2 powi e \<le> x then e else e - 1)"
    by (simp add: exponent_of_def q e_def)
  then show "2 powi exponent_of x \<le> x" "x < 2 powi (exponent_of x + 1)"
    using top bot by auto
qed

lemma powi_less_powi_iff [simp]: "(2 :: rat) powi a < 2 powi b \<longleftrightarrow> a < b"
  by (meson linorder_not_le one_less_numeral_iff power_int_increasing power_int_strict_increasing
      order_less_imp_le semiring_norm(76))

lemma powi_le_powi_iff [simp]: "(2 :: rat) powi a \<le> 2 powi b \<longleftrightarrow> a \<le> b"
  by (simp flip: linorder_not_less)

lemma exponent_of_ge: "0 < x \<Longrightarrow> 2 powi e \<le> x \<longleftrightarrow> e \<le> exponent_of x"
proof
  assume x: "0 < x" "2 powi e \<le> x"
  from order.strict_trans1 [OF x(2) exponent_of_bounds(2) [OF x(1)]]
  show "e \<le> exponent_of x" by simp
next
  assume "0 < x" "e \<le> exponent_of x"
  then show "2 powi e \<le> x"
    using exponent_of_bounds(1) [of x] by (meson order_trans powi_le_powi_iff)
qed

lemma exponent_of_mono: "0 < x \<Longrightarrow> x \<le> y \<Longrightarrow> exponent_of x \<le> exponent_of y"
  by (meson exponent_of_bounds(1) exponent_of_ge order_less_le_trans order_trans)

lemma ulp_of_pos [simp]: "0 < ulp_of x"
  by (simp add: ulp_of_def)

lemma round_half_even_of_int [simp]: "round_half_even (of_int n) = n"
  by (simp add: round_half_even_def)

lemma round_half_even_cases:
  "round_half_even x = \<lfloor>x\<rfloor> \<and> x - of_int \<lfloor>x\<rfloor> \<le> 1 / 2 \<or>
   round_half_even x = \<lfloor>x\<rfloor> + 1 \<and> 1 / 2 \<le> x - of_int \<lfloor>x\<rfloor>"
  by (auto simp: round_half_even_def Let_def)

lemma round_half_even_error: "\<bar>of_int (round_half_even x) - x\<bar> \<le> 1 / 2"
  using round_half_even_cases [of x] floor_correct [of x] by auto

lemma round_half_even_mono:
  assumes "x \<le> y"
  shows "round_half_even x \<le> round_half_even y"
proof (cases "\<lfloor>x\<rfloor> = \<lfloor>y\<rfloor>")
  case True
  with assms show ?thesis
    by (auto simp: round_half_even_def Let_def)
next
  case False
  then have "\<lfloor>x\<rfloor> + 1 \<le> \<lfloor>y\<rfloor>"
    using floor_mono [OF assms] by simp
  then show ?thesis
    using round_half_even_cases [of x] round_half_even_cases [of y] by linarith
qed

lemma round_half_even_bounds:
  "x \<le> of_int k \<Longrightarrow> round_half_even x \<le> k" "of_int k \<le> x \<Longrightarrow> k \<le> round_half_even x"
  using round_half_even_mono [of x "of_int k"] round_half_even_mono [of "of_int k" x] by simp_all

text \<open>Representable magnitudes: at most 53 bits, at a position the format has.\<close>

definition representable :: "rat \<Rightarrow> bool" where
  "representable b \<longleftrightarrow> (\<exists>k u. b = of_int k * 2 powi u \<and> 0 \<le> k \<and> k \<le> 2 ^ 53 \<and> - 1074 \<le> u)"

lemma representableI: "0 \<le> k \<Longrightarrow> k \<le> 2 ^ 53 \<Longrightarrow> - 1074 \<le> u \<Longrightarrow> representable (of_int k * 2 powi u)"
  by (auto simp: representable_def)

lemma representable_powi: "- 1074 \<le> u \<Longrightarrow> representable (2 powi u)"
  using representableI [of 1 u] by simp

lemma representable_of_nat: "n \<le> 2 ^ 53 \<Longrightarrow> representable (of_nat n)"
  using representableI [of "int n" 0] by simp

lemma round_mag_multiple:
  assumes "0 < x" "- 1074 \<le> u" "exponent_of x - 52 \<le> u"
  shows "x \<le> of_int k * 2 powi u \<Longrightarrow> round_mag x \<le> of_int k * 2 powi u"
    and "of_int k * 2 powi u \<le> x \<Longrightarrow> of_int k * 2 powi u \<le> round_mag x"
proof -
  define v where "v = max (exponent_of x - 52) (- 1074)"
  define j where "j = k * 2 ^ nat (u - v)"
  have "v \<le> u"
    using assms by (simp add: v_def)
  then have "u = v + int (nat (u - v))"
    by simp
  then have "of_int k * (2 :: rat) powi u = of_int k * (2 powi v * 2 ^ nat (u - v))"
    by (metis power_int_add power_int_of_nat zero_neq_numeral)
  then have grid: "of_int k * (2 :: rat) powi u = of_int j * ulp_of x"
    by (simp add: j_def ulp_of_def v_def [symmetric] ac_simps)
  show "x \<le> of_int k * 2 powi u \<Longrightarrow> round_mag x \<le> of_int k * 2 powi u"
    using assms(1) round_half_even_bounds(1) [of "x / ulp_of x" j] unfolding grid
    by (simp add: round_mag_def pos_divide_le_eq)
  show "of_int k * 2 powi u \<le> x \<Longrightarrow> of_int k * 2 powi u \<le> round_mag x"
    using assms(1) round_half_even_bounds(2) [of j "x / ulp_of x"] unfolding grid
    by (simp add: round_mag_def pos_le_divide_eq)
qed

lemma powi_2_mult: "(2 :: rat) ^ n * 2 powi u = 2 powi (int n + u)"
  by (simp add: power_int_add)

lemma representable_le:
  assumes "representable b"
  obtains k u where "b = of_int k * 2 powi u" "- 1074 \<le> u" "b \<le> 2 powi (53 + u)"
proof -
  obtain k u where k: "b = of_int k * 2 powi u" "k \<le> 2 ^ 53" "- 1074 \<le> u"
    using assms by (auto simp: representable_def)
  have "(of_int k :: rat) \<le> of_int (2 ^ 53)"
    using k(2) by (simp only: of_int_le_iff)
  then have "b \<le> 2 ^ 53 * 2 powi u"
    unfolding k(1) by (intro mult_right_mono) simp_all
  also have "\<dots> = 2 powi (53 + u)"
    using powi_2_mult [of 53 u] by (simp only: of_nat_numeral)
  finally show ?thesis
    by (rule that [OF k(1,3)])
qed

lemma round_mag_le_representable:
  assumes "0 < x" "x \<le> b" "representable b"
  shows "round_mag x \<le> b"
proof -
  obtain k u where b: "b = of_int k * 2 powi u" "- 1074 \<le> u" "b \<le> 2 powi (53 + u)"
    using representable_le [OF assms(3)] .
  show ?thesis
  proof (cases "exponent_of x - 52 \<le> u")
    case True
    then show ?thesis
      using round_mag_multiple(1) [OF assms(1) b(2)] assms(2) b(1) by simp
  next
    case False
    have low: "2 powi exponent_of x \<le> x"
      by (rule exponent_of_bounds(1) [OF assms(1)])
    from order_trans [OF order_trans [OF this assms(2)] b(3)]
    have "exponent_of x \<le> 53 + u" by simp
    then have "53 + u = exponent_of x"
      using False by simp
    then have "x = 2 powi exponent_of x" "b = x"
      using low assms(2) b(3) by simp_all
    then show ?thesis
      using round_mag_multiple(1) [OF assms(1), of "exponent_of x" 1] b(2) \<open>53 + u = exponent_of x\<close> by simp
  qed
qed

lemma round_mag_ge_representable:
  assumes "0 < x" "b \<le> x" "representable b"
  shows "b \<le> round_mag x"
proof -
  obtain k u where b: "b = of_int k * 2 powi u" "- 1074 \<le> u" "b \<le> 2 powi (53 + u)"
    using representable_le [OF assms(3)] .
  show ?thesis
  proof (cases "exponent_of x - 52 \<le> u")
    case True
    then show ?thesis
      using round_mag_multiple(2) [OF assms(1) b(2)] assms(2) b(1) by simp
  next
    case False
    then have "(2 :: rat) powi (53 + u) \<le> 2 powi exponent_of x"
      by simp
    then have "b \<le> 2 powi exponent_of x"
      using b(3) by (rule order_trans [rotated])
    also have "\<dots> \<le> round_mag x"
      using round_mag_multiple(2) [OF assms(1), of "exponent_of x" 1] exponent_of_bounds(1) [OF assms(1)] b(2) False
      by simp
    finally show ?thesis .
  qed
qed

lemma representable_nonneg: "representable b \<Longrightarrow> 0 \<le> b"
  by (auto simp: representable_def)

lemma round_mag_0 [simp]: "round_mag 0 = 0"
  by (simp add: round_mag_def)

lemma round_mag_representable: "representable b \<Longrightarrow> round_mag b = b"
  using round_mag_le_representable [of b b] round_mag_ge_representable [of b b] representable_nonneg [of b]
  by (cases "b = 0") auto

lemma round_mag_nonneg [simp]: "0 \<le> x \<Longrightarrow> 0 \<le> round_mag x"
  using round_mag_ge_representable [of x 0] representable_of_nat [of 0] by (cases "x = 0") auto

lemma round_mag_mono:
  assumes "0 \<le> x" "x \<le> y"
  shows "round_mag x \<le> round_mag y"
proof (cases "x = 0")
  case False
  then have pos: "0 < x" "0 < y"
    using assms by auto
  show ?thesis
  proof (cases "ulp_of x = ulp_of y")
    case True
    then have "round_half_even (x / ulp_of x) \<le> round_half_even (y / ulp_of y)"
      using assms by (intro round_half_even_mono) (simp add: divide_right_mono less_imp_le)
    then show ?thesis
      using pos True by (simp add: round_mag_def mult_right_mono)
  next
    case False
    then have "exponent_of x \<noteq> exponent_of y" "- 1022 \<le> exponent_of y"
      using exponent_of_mono [OF pos(1) assms(2)] by (auto simp: ulp_of_def max_def split: if_splits)
    with exponent_of_mono [OF pos(1) assms(2)]
    have ex: "exponent_of x < exponent_of y" "- 1022 \<le> exponent_of y" by simp_all
    have rep: "representable (2 powi exponent_of y)"
      using ex(2) by (intro representable_powi) simp
    have "x < 2 powi (exponent_of x + 1)"
      by (rule exponent_of_bounds(2) [OF pos(1)])
    also have "\<dots> \<le> 2 powi exponent_of y"
      using ex(1) by simp
    finally have "round_mag x \<le> 2 powi exponent_of y"
      using round_mag_le_representable [OF pos(1) _ rep] by simp
    also have "\<dots> \<le> round_mag y"
      by (rule round_mag_ge_representable [OF pos(2) exponent_of_bounds(1) [OF pos(2)] rep])
    finally show ?thesis .
  qed
qed (use assms in simp)

lemma round_mag_error:
  assumes "0 < x"
  shows "\<bar>round_mag x - x\<bar> \<le> ulp_of x / 2"
proof -
  have "round_mag x - x = (of_int (round_half_even (x / ulp_of x)) - x / ulp_of x) * ulp_of x"
    using assms ulp_of_pos [of x] by (simp add: round_mag_def left_diff_distrib del: ulp_of_pos)
  then have "\<bar>round_mag x - x\<bar> = \<bar>of_int (round_half_even (x / ulp_of x)) - x / ulp_of x\<bar> * ulp_of x"
    by (simp add: abs_mult abs_of_pos)
  also have "\<dots> \<le> 1 / 2 * ulp_of x"
    by (rule mult_right_mono [OF round_half_even_error]) (simp add: less_imp_le)
  finally show ?thesis by simp
qed

text \<open>In the normal range the relative error is at most \<open>2^-53\<close>.\<close>

lemma round_mag_relative:
  assumes "0 < x" "- 1022 \<le> exponent_of x"
  shows "\<bar>round_mag x - x\<bar> \<le> x / 2 ^ 53"
proof -
  have "ulp_of x = 2 powi (exponent_of x - 52)"
    using assms(2) by (simp add: ulp_of_def max_absorb1)
  also have "\<dots> = 2 powi exponent_of x / 2 ^ 52"
    by (simp add: power_int_diff)
  also have "\<dots> \<le> x / 2 ^ 52"
    by (rule divide_right_mono [OF exponent_of_bounds(1) [OF assms(1)]]) simp
  finally show ?thesis
    using round_mag_error [OF assms(1)] by simp
qed

lemma exponent_of_double:
  assumes "0 < x"
  shows "exponent_of (2 * x) = exponent_of x + 1"
proof (rule antisym)
  have low: "2 * 2 powi exponent_of x \<le> 2 * x" and high: "2 * x < 2 * 2 powi (exponent_of x + 1)"
    using exponent_of_bounds [OF assms] by simp_all
  then have "2 powi exponent_of (2 * x) < (2 :: rat) powi (exponent_of x + 1 + 1)"
    using exponent_of_bounds(1) [of "2 * x"] assms by (simp add: power_int_add)
  then show "exponent_of (2 * x) \<le> exponent_of x + 1"
    by (simp only: powi_less_powi_iff)
  show "exponent_of x + 1 \<le> exponent_of (2 * x)"
    using low assms by (simp add: power_int_add flip: exponent_of_ge)
qed

lemma round_mag_double:
  assumes "1 \<le> x"
  shows "round_mag (2 * x) = 2 * round_mag x"
proof -
  have "0 \<le> exponent_of x"
    using assms exponent_of_ge [of x 0] by simp
  then have "ulp_of (2 * x) = 2 powi (exponent_of x - 52 + 1)" "ulp_of x = 2 powi (exponent_of x - 52)"
    using assms by (simp_all add: ulp_of_def exponent_of_double max_absorb1)
  then have "ulp_of (2 * x) = 2 * ulp_of x"
    by (simp only: power_int_add_1 zero_neq_numeral [symmetric] simp_thms mult.commute)
  then show ?thesis
    using assms by (simp add: round_mag_def)
qed

lemma representable_round_mag: "0 \<le> x \<Longrightarrow> representable (round_mag x)"
proof (cases "x = 0")
  case False
  assume "0 \<le> x"
  with False have pos: "0 < x" by simp
  define u where "u = max (exponent_of x - 52) (- 1074)"
  define k where "k = round_half_even (x / ulp_of x)"
  have "x \<le> 2 powi (exponent_of x + 1)"
    using exponent_of_bounds(2) [OF pos] by simp
  also have "\<dots> \<le> 2 powi (int 53 + u)"
    by (simp add: u_def)
  also have "\<dots> = of_int (2 ^ 53) * ulp_of x"
    by (simp only: powi_2_mult [symmetric] ulp_of_def u_def) simp
  finally have "x / ulp_of x \<le> of_int (2 ^ 53)"
    by (simp add: pos_divide_le_eq)
  then have "k \<le> 2 ^ 53"
    unfolding k_def by (rule round_half_even_bounds(1))
  moreover have "0 \<le> k"
    unfolding k_def using pos by (intro round_half_even_bounds(2)) (simp add: less_imp_le)
  moreover have "round_mag x = of_int k * 2 powi u" "- 1074 \<le> u"
    using False by (simp_all add: round_mag_def k_def u_def ulp_of_def)
  ultimately show ?thesis
    by (simp add: representableI)
qed (simp add: representable_of_nat [of 0, simplified])

section \<open>Operations that stay in a range\<close>

lemma rounded_within:
  assumes "0 \<le> x" "x \<le> b" "representable b" "b < 2 ^ 1024"
  obtains m where "rounded s x = F64_Fin s m" "m = round_mag x" "0 \<le> m" "m \<le> b" "representable m"
proof -
  have "round_mag x \<le> b"
    using round_mag_le_representable [of x b] assms by (cases "x = 0") auto
  then show ?thesis
    using assms that [of "round_mag x"] by (simp add: rounded_def representable_round_mag)
qed

lemma representable_power: "int n \<le> 1074 \<Longrightarrow> representable (2 ^ n)"
  using representable_powi [of "int n"] by (simp only: power_int_of_nat)

lemma f64_of_nat_finite:
  assumes "n < 2 ^ 1023"
  shows "f64_of_nat n = F64_Fin False (round_mag (of_nat n))"
proof -
  have le: "(of_nat n :: rat) \<le> 2 ^ 1023"
    using assms by (simp only: of_nat_less_numeral_power_cancel_iff less_imp_le)
  have "representable (2 ^ 1023)"
    by (rule representable_power) simp
  moreover have "(2 :: rat) ^ 1023 < 2 ^ 1024"
    by (rule power_strict_increasing) simp_all
  ultimately obtain m where "rounded False (of_nat n) = F64_Fin False m" "m = round_mag (of_nat n)"
    using rounded_within [OF of_nat_0_le_iff le, of False] by blast
  then show ?thesis
    by (simp only: f64_of_nat_def)
qed

lemma f64_of_nat_small:
  assumes "n \<le> 2 ^ 53"
  shows "f64_of_nat n = F64_Fin False (of_nat n)"
proof -
  have "n < 2 ^ 1023"
    by (rule order_le_less_trans [OF assms power_strict_increasing]) simp_all
  then show ?thesis
    using assms by (simp add: f64_of_nat_finite round_mag_representable representable_of_nat del: numeral_power_eq_of_nat_cancel_iff)
qed

end
