(* ===== verification/Voting_Power.thy ===== *)
theory Voting_Power
  imports Validators Ieee_Double
begin

text \<open>
  \<open>StakeEntry::voting_power\<close> (crates/noirnet-types/src/validator.rs): a validator's share of the
  tot stake as an \<open>f64\<close>, and how far the three roundings take it from the exact share.
\<close>

definition voting_power :: "stake_entry \<Rightarrow> u128 \<Rightarrow> f64" where
  "voting_power v total_stake =
     (if total_stake = 0 then F64_Fin False 0
      else f64_div (f64_of_nat (unat (se_total_stake v))) (f64_of_nat (unat total_stake)))"

section \<open>Relative errors\<close>

lemma relative_error_quotient:
  fixes s t S T m e :: rat
  assumes pos: "0 < s" "0 < t" and e: "0 < e" "e \<le> 1 / 5"
    and S: "\<bar>S - s\<bar> \<le> s * e" and T: "\<bar>T - t\<bar> \<le> t * e" and m: "\<bar>m - S / T\<bar> \<le> S / T * e"
  shows "\<bar>m - s / t\<bar> \<le> s / t * (4 * e)"
proof -
  have e2: "0 < e * e" "5 * (e * e) \<le> e"
    using e mult_left_mono [of "5 * e" 1 e] by simp_all
  have S': "s * (1 - e) \<le> S" "S \<le> s * (1 + e)" and T': "t * (1 - e) \<le> T" "T \<le> t * (1 + e)"
    using S T by (auto simp: algebra_simps abs_le_iff)
  have lo: "0 < t * (1 - e)"
    using pos(2) e by simp
  have "0 \<le> s * (1 - e)"
    using pos(1) e by simp
  note Tpos = lo order_less_le_trans [OF lo T'(1)] order_trans [OF this S'(1)]
  have mb: "S / T * (1 - e) \<le> m" "m \<le> S / T * (1 + e)"
    using m unfolding abs_le_iff right_diff_distrib distrib_left by linarith+
  have "S / T * (1 + e) \<le> s * (1 + e) / (t * (1 - e)) * (1 + e)"
    using S' T' Tpos pos e by (intro mult_right_mono frac_le) auto
  also have "\<dots> = s / t * ((1 + e) * (1 + e) / (1 - e))"
    by simp
  also have "\<dots> \<le> s / t * (1 + 4 * e)"
    using pos e e2 by (intro mult_left_mono) (auto simp: pos_divide_le_eq algebra_simps)
  finally have up: "m \<le> s / t * (1 + 4 * e)"
    using mb(2) by simp
  have "(1 - 4 * e) * (1 + e) \<le> (1 - e) * (1 - e)"
    using e2 by (simp add: algebra_simps)
  then have lower: "1 - 4 * e \<le> (1 - e) * (1 - e) / (1 + e)"
    using e by (subst pos_le_divide_eq) simp_all
  have "s / t * (1 - 4 * e) \<le> s / t * ((1 - e) * (1 - e) / (1 + e))"
    using pos lower by (intro mult_left_mono) simp_all
  also have "\<dots> = s * (1 - e) / (t * (1 + e)) * (1 - e)"
    by simp
  also have "\<dots> \<le> S / T * (1 - e)"
    using S' T' Tpos pos e by (intro mult_right_mono frac_le) auto
  finally have "s / t * (1 - 4 * e) \<le> m"
    using mb(1) by simp
  with up show ?thesis
    unfolding abs_le_iff right_diff_distrib distrib_left by linarith
qed

lemma round_mag_nat_error:
  assumes "0 < n"
  shows "\<bar>round_mag (of_nat n) - of_nat n\<bar> \<le> of_nat n * (1 / 2 ^ 53)"
proof -
  have "0 \<le> exponent_of (of_nat n)"
    using assms exponent_of_ge [of "of_nat n" 0] by simp
  then show ?thesis
    using round_mag_relative [of "of_nat n"] assms by simp
qed

section \<open>The power of a validator\<close>

text \<open>
  C24: a validator's voting power lies between 0 and 1, is within a relative error of 2^-51 of its
  share of the stake, and does not shrink when its stake grows; without any stake in the set it is
  zero.
\<close>

theorem voting_power_accurate:
  assumes "0 < tot" "se_total_stake v \<le> se_total_stake v'" "se_total_stake v' \<le> tot"
  shows "\<exists>m m'. voting_power v tot = F64_Fin False m \<and> voting_power v' tot = F64_Fin False m' \<and>
    0 \<le> m \<and> m \<le> m' \<and> m' \<le> 1 \<and>
    \<bar>m - of_nat (unat (se_total_stake v)) / of_nat (unat tot)\<bar> \<le>
      of_nat (unat (se_total_stake v)) / of_nat (unat tot) / 2 ^ 51 \<and>
    voting_power v 0 = F64_Fin False 0"
proof -
  define t where "t = unat tot"
  define T where "T = round_mag (of_nat t)"
  have t: "0 < t" "t < 2 ^ 128"
    using assms(1) unsigned_less [of tot] by (simp_all add: t_def word_less_nat_alt)
  have fin: "f64_of_nat n = F64_Fin False (round_mag (of_nat n))" if "n \<le> t" for n
  proof (rule f64_of_nat_finite)
    have "n < 2 ^ 128" using that t(2) by (rule order_le_less_trans)
    also have "(2 :: nat) ^ 128 < 2 ^ 1023" by (rule power_strict_increasing) simp_all
    finally show "n < 2 ^ 1023" .
  qed
  have T: "1 \<le> T"
    unfolding T_def using round_mag_ge_representable [of "of_nat t" 1] representable_of_nat [of 1] t(1) by simp
  have quot: "voting_power w tot = F64_Fin False (round_mag (round_mag (of_nat n) / T)) \<and>
      0 \<le> round_mag (of_nat n) / T \<and> round_mag (of_nat n) / T \<le> 1"
    if n: "n = unat (se_total_stake w)" "n \<le> t" for w n
  proof -
    have "round_mag (of_nat n) \<le> T"
      unfolding T_def using n(2) by (intro round_mag_mono) simp_all
    then have q: "0 \<le> round_mag (of_nat n) / T" "round_mag (of_nat n) / T \<le> 1"
      using T by simp_all
    have "rounded False (round_mag (of_nat n) / T) = F64_Fin False (round_mag (round_mag (of_nat n) / T))"
      using rounded_within [OF q representable_of_nat [of 1, simplified]]
      by (metis one_less_power one_less_numeral_iff semiring_norm(76) zero_less_numeral)
    then show ?thesis
      using q T assms(1) n fin [of n] fin [of t] by (auto simp: voting_power_def t_def [symmetric] T_def [symmetric])
  qed
  define n where "n = unat (se_total_stake v)"
  define n' where "n' = unat (se_total_stake v')"
  have le: "n \<le> n'" "n' \<le> t"
    using assms(2,3) by (simp_all add: n_def n'_def t_def word_le_nat_alt)
  note q = quot [OF n_def] quot [OF n'_def le(2)]
  have mono: "round_mag (round_mag (of_nat n) / T) \<le> round_mag (round_mag (of_nat n') / T)"
    using le T by (intro round_mag_mono divide_right_mono) simp_all
  have "round_mag (round_mag (of_nat n') / T) \<le> 1"
    using q(2) round_mag_mono [of "round_mag (of_nat n') / T" 1] round_mag_representable [OF representable_of_nat [of 1]]
    by simp
  moreover have "\<bar>round_mag (round_mag (of_nat n) / T) - of_nat n / of_nat t\<bar> \<le> of_nat n / of_nat t / 2 ^ 51"
  proof (cases "n = 0")
    case False
    define S where "S = round_mag (of_nat n)"
    have S: "1 \<le> S"
      unfolding S_def
      using round_mag_ge_representable [of "of_nat n" 1] representable_of_nat [of 1] False by simp
    have "(of_nat t :: rat) \<le> 2 ^ 128"
      using t(2) by (simp only: of_nat_less_numeral_power_cancel_iff less_imp_le)
    then have T': "T \<le> 2 ^ 128"
      unfolding T_def using round_mag_le_representable [OF _ _ representable_power [of 128]] t(1) by simp
    have "(2 :: rat) powi - 128 = 1 / 2 ^ 128"
      by (simp add: power_int_minus)
    also have "\<dots> \<le> S / T"
      using S T T' by (intro frac_le) simp_all
    finally have "- 1022 \<le> exponent_of (S / T)" and pos: "0 < S / T"
      using S T exponent_of_ge [of "S / T" "- 128"] by simp_all
    then have "\<bar>round_mag (S / T) - S / T\<bar> \<le> S / T * (1 / 2 ^ 53)"
      using round_mag_relative [OF pos] by simp
    then have "\<bar>round_mag (S / T) - of_nat n / of_nat t\<bar> \<le> of_nat n / of_nat t * (4 * (1 / 2 ^ 53))"
      using round_mag_nat_error [of n] round_mag_nat_error [of t] False t(1)
      by (intro relative_error_quotient) (simp_all add: S_def T_def)
    then show ?thesis
      by (simp add: S_def)
  qed simp
  ultimately show ?thesis
    using q le mono by (simp add: n_def [symmetric] t_def [symmetric]) (simp add: voting_power_def)
qed

theorem voting_power_accurate_witness:
  "\<exists>m. voting_power (sample_entry 3 2 Active) 3 = F64_Fin False m \<and> m \<le> 1 \<and> \<bar>m - 2 / 3\<bar> \<le> 2 / 3 / 2 ^ 51"
  using voting_power_accurate [of 3 "sample_entry 3 2 Active" "sample_entry 3 2 Active"] by auto

end
