(* ===== verification/Fee_Market.thy ===== *)
theory Fee_Market
  imports Chain_Constants Ieee_Double
begin

text \<open>
  The fee market (crates/noirnet-mempool/src/fee_market.rs): the base fee, its adjustment to the
  gas of a block, computed in \<open>f64\<close> and cast back as the code does, and the split of a fee into
  burn and tip.
\<close>

section \<open>State and operations\<close>

record fee_market =
  fm_base_fee :: u64
  fm_target_block_gas :: u64

definition fee_market_new :: "u64 \<Rightarrow> fee_market" where
  "fee_market_new target_gas =
     \<lparr>fm_base_fee = max 1 (MIN_FEE div BASE_TX_GAS), fm_target_block_gas = target_gas\<rparr>"

text \<open>
  \<open>adjust_base_fee\<close>. The sum is one of \<open>i64\<close> values and wraps, which on words is the sum of the
  bits; the maximum compares as \<open>i64\<close>.
\<close>

definition fee_adjustment :: "u64 \<Rightarrow> fee_market \<Rightarrow> int" where
  "fee_adjustment gas_used fm =
     (let target = f64_of_nat (unat (fm_target_block_gas fm));
          used = f64_of_nat (unat gas_used);
          ratio = f64_div (f64_sub used target) target
      in f64_to_i64 (f64_mul (f64_mul (f64_of_nat (unat (fm_base_fee fm))) ratio) (F64_Fin False (1 / 8))))"

definition adjust_base_fee :: "u64 \<Rightarrow> fee_market \<Rightarrow> fee_market" where
  "adjust_base_fee gas_used fm =
     (let adjustment = word_of_int (fee_adjustment gas_used fm);
          min_base_fee = max 1 (MIN_FEE div BASE_TX_GAS);
          total = fm_base_fee fm + adjustment
      in fm\<lparr>fm_base_fee := if sint total < sint min_base_fee then min_base_fee else total\<rparr>)"

definition split_fee :: "fee_market \<Rightarrow> u64 \<Rightarrow> u64 \<Rightarrow> u64 \<times> u64" where
  "split_fee fm total_fee gas_used =
     (let base_cost = fm_base_fee fm * gas_used
      in if total_fee < base_cost then (total_fee, 0)
         else let tip = total_fee - base_cost in (base_cost, tip))"

text \<open>
  Splitting a fee neither creates nor loses money: burn and tip add up to the fee without
  wrapping, for every base fee and gas, also when the product of the two wraps.
\<close>

theorem split_fee_conserves:
  "unat (fst (split_fee fm fee gas)) + unat (snd (split_fee fm fee gas)) = unat fee"
proof (cases "fee < fm_base_fee fm * gas")
  case False
  then have "fm_base_fee fm * gas \<le> fee" by simp
  then show ?thesis
    using False by (simp add: split_fee_def Let_def unat_sub word_le_nat_alt)
qed (simp add: split_fee_def)

section \<open>The size of an adjustment\<close>

lemma min_base_fee [simp]: "max 1 (MIN_FEE div BASE_TX_GAS) = (1 :: u64)"
  by (simp add: MIN_FEE_def BASE_TX_GAS_def word_div_def)

text \<open>
  For gas up to twice the target, whatever is rounded on the way: the adjustment has the sign of
  the deviation and at most an eighth of the base fee.
\<close>

lemma f64_to_i64_bounds:
  assumes "0 \<le> m" "m \<le> of_nat n / 8" "n < 2 ^ 53"
  shows "f64_to_i64 (F64_Fin s m) = (if s then - \<lfloor>m\<rfloor> else \<lfloor>m\<rfloor>)" "0 \<le> \<lfloor>m\<rfloor>" "\<lfloor>m\<rfloor> \<le> int (n div 8)"
proof -
  have "\<lfloor>m\<rfloor> \<le> \<lfloor>(of_nat n :: rat) / 8\<rfloor>"
    using assms(2) by (rule floor_mono)
  also have "\<dots> = int n div 8"
    using floor_divide_of_int_eq [of "int n" 8, where 'a = rat] by simp
  finally show le: "\<lfloor>m\<rfloor> \<le> int (n div 8)"
    by (simp add: zdiv_int)
  show "0 \<le> \<lfloor>m\<rfloor>"
    using assms(1) by simp
  have "int n < 2 ^ 53"
    using assms(3) by (simp only: of_nat_less_numeral_power_cancel_iff)
  moreover have "int (n div 8) \<le> int n"
    by (simp only: of_nat_le_iff div_le_dividend)
  ultimately have top: "\<lfloor>m\<rfloor> < 2 ^ 53"
    by (meson le order_trans order_le_less_trans)
  define z where "z = \<lfloor>m\<rfloor>"
  have "max (- (2 ^ 63)) (- z) = - z" "min (2 ^ 63 - 1) z = z"
    using top \<open>0 \<le> \<lfloor>m\<rfloor>\<close> by (simp_all add: z_def [symmetric])
  then show "f64_to_i64 (F64_Fin s m) = (if s then - \<lfloor>m\<rfloor> else \<lfloor>m\<rfloor>)"
    by (simp only: f64_to_i64.simps z_def)
qed

lemma round_mag_word_bounds:
  assumes "0 < t" "t < 2 ^ 64"
  shows "1 \<le> round_mag (of_nat t)" "round_mag (of_nat t) \<le> 2 ^ 64"
proof -
  have "(1 :: rat) \<le> of_nat t"
    using assms(1) by simp
  then show "1 \<le> round_mag (of_nat t)"
    using round_mag_ge_representable [of "of_nat t" 1] representable_of_nat [of 1] by simp
  have "(of_nat t :: rat) \<le> 2 ^ 64"
    using assms(2) by (simp only: of_nat_less_numeral_power_cancel_iff less_imp_le)
  then show "round_mag (of_nat t) \<le> 2 ^ 64"
    using round_mag_le_representable [OF _ _ representable_power [of 64], of "of_nat t"] assms(1) by simp
qed

lemma deviation_ratio:
  assumes "0 < t" "g \<le> 2 * t" "t < 2 ^ 64"
  obtains s m where "f64_div (f64_sub (f64_of_nat g) (f64_of_nat t)) (f64_of_nat t) = F64_Fin s m"
    "0 \<le> m" "m \<le> 1" "g \<le> t \<longrightarrow> s \<or> m = 0" "t \<le> g \<longrightarrow> \<not> s \<or> m = 0"
proof -
  define T where "T = round_mag (of_nat t)"
  define G where "G = round_mag (of_nat g)"
  have T: "1 \<le> T" "T \<le> 2 ^ 64"
    unfolding T_def by (rule round_mag_word_bounds [OF assms(1,3)])+
  have "(2 :: nat) ^ 65 < 2 ^ 1023"
    by (rule power_strict_increasing) simp_all
  then have "t < 2 ^ 1023" "g < 2 ^ 1023"
    using assms by auto
  then have conv: "f64_of_nat t = F64_Fin False T" "f64_of_nat g = F64_Fin False G"
    by (simp_all only: f64_of_nat_finite T_def G_def)
  have rT: "representable T" and big: "T < 2 ^ 1024" "(1 :: rat) < 2 ^ 1024"
    using T(2) by (simp_all add: T_def representable_round_mag)
  have G: "0 \<le> G"
    by (simp add: G_def)
  have "(of_nat g :: rat) \<le> of_nat (2 * t)"
    using assms(2) by (simp only: of_nat_le_iff)
  then have "G \<le> round_mag (2 * of_nat t)"
    unfolding G_def by (intro round_mag_mono) simp_all
  also have "\<dots> = 2 * T"
    using assms(1) by (simp add: round_mag_double T_def)
  finally have D: "\<bar>G - T\<bar> \<le> T"
    using G by simp
  have le: "g \<le> t \<Longrightarrow> G \<le> T" and ge: "t \<le> g \<Longrightarrow> T \<le> G"
    unfolding G_def T_def by (simp_all add: round_mag_mono)
  have diff: "\<exists>m. f64_sub (f64_of_nat g) (f64_of_nat t) = F64_Fin (G < T) m \<and> 0 \<le> m \<and> m \<le> T \<and> (G = T \<longrightarrow> m = 0)"
  proof (cases "G = T")
    case True
    then show ?thesis
      using T by (simp add: f64_sub_def conv)
  next
    case False
    obtain m where "rounded (G - T < 0) \<bar>G - T\<bar> = F64_Fin (G - T < 0) m" "0 \<le> m" "m \<le> T"
      using rounded_within [OF abs_ge_zero D rT big(1)] .
    then show ?thesis
      using False by (simp add: f64_sub_def conv Let_def)
  qed
  then obtain m where m: "f64_sub (f64_of_nat g) (f64_of_nat t) = F64_Fin (G < T) m" "0 \<le> m" "m \<le> T" "G = T \<longrightarrow> m = 0"
    by blast
  have "0 \<le> m / T" "m / T \<le> 1"
    using m T by simp_all
  then obtain r where "rounded (G < T) (m / T) = F64_Fin (G < T) r" and r: "r = round_mag (m / T)" and "0 \<le> r" "r \<le> 1"
    by (rule rounded_within [OF _ _ representable_of_nat [of 1, simplified] big(2)])
  moreover have "f64_div (F64_Fin (G < T) m) (F64_Fin False T) = rounded (G < T) (m / T)"
    using T by simp
  moreover have "g \<le> t \<longrightarrow> G < T \<or> r = 0" "t \<le> g \<longrightarrow> \<not> G < T \<or> r = 0"
    using le ge m(4) r by fastforce+
  ultimately show ?thesis
    using that [of "G < T" r] m(1) \<open>0 \<le> r\<close> \<open>r \<le> 1\<close> by (simp only: conv)
qed

lemma fee_adjustment_bound:
  assumes "0 < unat (fm_target_block_gas fm)" "unat gas \<le> 2 * unat (fm_target_block_gas fm)"
    and "unat (fm_base_fee fm) < 2 ^ 53"
  shows "\<bar>fee_adjustment gas fm\<bar> \<le> int (unat (fm_base_fee fm) div 8)"
    and "gas \<le> fm_target_block_gas fm \<Longrightarrow> fee_adjustment gas fm \<le> 0"
    and "fm_target_block_gas fm \<le> gas \<Longrightarrow> 0 \<le> fee_adjustment gas fm"
proof -
  define b where "b = unat (fm_base_fee fm)"
  obtain s m where r: "f64_div (f64_sub (f64_of_nat (unat gas)) (f64_of_nat (unat (fm_target_block_gas fm))))
      (f64_of_nat (unat (fm_target_block_gas fm))) = F64_Fin s m" "0 \<le> m" "m \<le> 1"
      "gas \<le> fm_target_block_gas fm \<longrightarrow> s \<or> m = 0" "fm_target_block_gas fm \<le> gas \<longrightarrow> \<not> s \<or> m = 0"
    using deviation_ratio [OF assms(1,2)] unsigned_less [of "fm_target_block_gas fm"]
    by (auto simp: word_le_nat_alt)
  have "b \<le> 2 ^ 53"
    using assms(3) by (simp add: b_def)
  note b = f64_of_nat_small [OF this] representable_of_nat [OF this]
  have "(of_nat b :: rat) \<le> 2 ^ 53"
    using \<open>b \<le> 2 ^ 53\<close> by (simp only: of_nat_le_numeral_power_cancel_iff)
  then have big: "(of_nat b :: rat) < 2 ^ 1024" "(of_nat b :: rat) / 8 < 2 ^ 1024"
    by simp_all
  have "of_nat b * m \<le> of_nat b"
    using r(2,3) by (simp add: mult_left_le)
  then obtain p where p: "rounded (False \<noteq> s) (of_nat b * m) = F64_Fin (False \<noteq> s) p"
      "p = round_mag (of_nat b * m)" "0 \<le> p" "p \<le> of_nat b"
    using rounded_within [OF _ _ b(2) big(1)] r(2) by (metis mult_nonneg_nonneg of_nat_0_le_iff)
  have "representable (of_nat b / 8)"
    using representableI [of "int b" "- 3"] \<open>b \<le> 2 ^ 53\<close> by (simp add: power_int_minus)
  then obtain q where q: "rounded (s \<noteq> False) (p * (1 / 8)) = F64_Fin (s \<noteq> False) q" "q = round_mag (p * (1 / 8))"
      "0 \<le> q" "q \<le> of_nat b / 8"
    using rounded_within [OF _ _ _ big(2), of "p * (1 / 8)" "s \<noteq> False"] p(3,4) by auto
  have adj: "fee_adjustment gas fm = f64_to_i64 (F64_Fin s q)"
    using r(1) b(1) p(1) q(1) by (simp add: fee_adjustment_def b_def [symmetric])
  note cast = f64_to_i64_bounds(1) [OF q(3,4), of s] f64_to_i64_bounds(2,3) [OF q(3,4)]
  show "\<bar>fee_adjustment gas fm\<bar> \<le> int (unat (fm_base_fee fm) div 8)"
    using cast assms(3) by (auto simp: adj b_def)
  have zero: "m = 0 \<Longrightarrow> q = 0"
    using p(2) q(2) by simp
  show "gas \<le> fm_target_block_gas fm \<Longrightarrow> fee_adjustment gas fm \<le> 0"
    and "fm_target_block_gas fm \<le> gas \<Longrightarrow> 0 \<le> fee_adjustment gas fm"
    using cast assms(3) r(4,5) zero by (auto simp: adj b_def)
qed

section \<open>What the adjustment guarantees\<close>

lemma unat_eq_sint:
  assumes "0 \<le> sint (w :: u64)"
  shows "unat w = nat (sint w)"
proof -
  have "uint w = uint (word_of_int (sint w) :: u64)" by simp
  also have "\<dots> = sint w"
    using assms sint_less [of w] by (simp only: uint_word_of_int) simp
  finally show ?thesis
    by (simp only: unat_eq_nat_uint)
qed

lemma sint_of_int: "- (2 ^ 63) \<le> k \<Longrightarrow> k < 2 ^ 63 \<Longrightarrow> sint (word_of_int k :: u64) = k"
  by (simp add: sint_sbintrunc' signed_take_bit_int_eq_self)

lemma unat_of_int: "0 \<le> k \<Longrightarrow> k < 2 ^ 63 \<Longrightarrow> unat (word_of_int k :: u64) = nat k"
  by (subst unat_eq_sint) (simp_all only: sint_of_int)

text \<open>
  The base fee stays positive and below 2^63 whatever the gas, the target and the old fee
  are: an overflowing adjustment, a target of zero (infinite or undefined ratio) included.
\<close>

theorem base_fee_stays_positive:
  "1 \<le> unat (fm_base_fee (adjust_base_fee gas fm)) \<and> unat (fm_base_fee (adjust_base_fee gas fm)) < 2 ^ 63"
proof -
  have pos: "1 \<le> unat w \<and> unat w < 2 ^ 63" if "\<not> sint w < 1" for w :: u64
  proof -
    have "unat w = nat (sint w)"
      using that by (intro unat_eq_sint) simp
    then show ?thesis
      using that sint_less [of w] by (simp add: nat_less_iff Suc_le_eq)
  qed
  show ?thesis
    using pos by (simp add: adjust_base_fee_def Let_def)
qed

lemma base_fee_moves:
  assumes "0 < fm_target_block_gas fm" "unat gas \<le> 2 * unat (fm_target_block_gas fm)"
    and "1 \<le> fm_base_fee fm" "unat (fm_base_fee fm) < 2 ^ 53"
  shows "unat (fm_base_fee (adjust_base_fee gas fm)) \<le> unat (fm_base_fee fm) + unat (fm_base_fee fm) div 8 \<and>
    unat (fm_base_fee fm) - unat (fm_base_fee fm) div 8 \<le> unat (fm_base_fee (adjust_base_fee gas fm)) \<and>
    (gas \<le> fm_target_block_gas fm \<longrightarrow> fm_base_fee (adjust_base_fee gas fm) \<le> fm_base_fee fm) \<and>
    (fm_target_block_gas fm \<le> gas \<longrightarrow> fm_base_fee fm \<le> fm_base_fee (adjust_base_fee gas fm))"
proof -
  define b where "b = unat (fm_base_fee fm)"
  define a where "a = fee_adjustment gas fm"
  have "0 < unat (fm_target_block_gas fm)"
    using assms(1) by (simp add: word_less_nat_alt)
  note adj = fee_adjustment_bound [OF this assms(2,4), folded a_def b_def]
  have b: "1 \<le> b" "b < 2 ^ 53"
    using assms(3,4) by (simp_all add: b_def word_le_nat_alt)
  have "b div 8 < b"
    using b(1) by simp
  then have range: "1 \<le> int b + a" "int b + a < 2 ^ 63"
    using adj(1) b div_le_dividend [of b 8] by simp_all
  define n where "n = int b + a"
  have n: "fm_base_fee fm + word_of_int a = word_of_int n" "1 \<le> n" "n < 2 ^ 63"
    using range by (simp_all add: b_def n_def)
  have "\<not> sint (word_of_int n :: u64) < sint (1 :: u64)"
    using n(2,3) by (subst sint_of_int) simp_all
  then have eq: "fm_base_fee (adjust_base_fee gas fm) = word_of_int n"
    using n(1) by (simp add: adjust_base_fee_def a_def [symmetric])
  have "unat (word_of_int n :: u64) = nat n"
    using n(2,3) by (intro unat_of_int) simp_all
  then show ?thesis
    using adj range by (auto simp: eq b_def [symmetric] word_le_nat_alt n_def)
qed

text \<open>
  C23: for a block with up to twice the target gas, which is not 0, a base fee from 1 up to 2^53
  moves in the direction of the deviation and by at most an eighth, through all the roundings of
  the computation.
\<close>

theorem base_fee_moves_by_an_eighth:
  assumes "0 < fm_target_block_gas fm" "unat gas \<le> 2 * unat (fm_target_block_gas fm)"
    and "1 \<le> fm_base_fee fm" "unat (fm_base_fee fm) < 2 ^ 53"
  shows "unat (fm_base_fee (adjust_base_fee gas fm)) \<le> unat (fm_base_fee fm) + unat (fm_base_fee fm) div 8 \<and>
    unat (fm_base_fee fm) - unat (fm_base_fee fm) div 8 \<le> unat (fm_base_fee (adjust_base_fee gas fm)) \<and>
    (gas \<le> fm_target_block_gas fm \<longrightarrow> fm_base_fee (adjust_base_fee gas fm) \<le> fm_base_fee fm) \<and>
    (fm_target_block_gas fm \<le> gas \<longrightarrow> fm_base_fee fm \<le> fm_base_fee (adjust_base_fee gas fm))"
  by (rule base_fee_moves [OF assms])

lemma small_base_fee_stays:
  assumes "0 < fm_target_block_gas fm" "unat gas \<le> 2 * unat (fm_target_block_gas fm)"
    and "1 \<le> fm_base_fee fm" "fm_base_fee fm < 8"
  shows "adjust_base_fee gas fm = fm"
proof -
  have b: "unat (fm_base_fee fm) < 8"
    using assms(4) by (simp add: word_less_nat_alt)
  then have "unat (fm_base_fee fm) < 2 ^ 53" by simp
  from base_fee_moves [OF assms(1-3) this] b
  have "unat (fm_base_fee (adjust_base_fee gas fm)) = unat (fm_base_fee fm)" by simp
  then have "fm_base_fee (adjust_base_fee gas fm) = fm_base_fee fm"
    by (simp only: word_unat_eq_iff)
  then show ?thesis
    by (simp add: adjust_base_fee_def Let_def)
qed

text \<open>
  The fee market never reacts. A fresh market has the smallest base fee, an eighth of which
  truncates to zero, so after any number of blocks with up to twice the target gas the base fee
  is what it was at the start; the first fee at which it can rise is 8.
\<close>

theorem fresh_market_never_reacts:
  assumes "0 < target" "\<forall>gas \<in> set blocks. unat gas \<le> 2 * unat target"
  shows "fold adjust_base_fee blocks (fee_market_new target) = fee_market_new target"
  using assms(2)
proof (induction blocks)
  case (Cons gas blocks)
  then show ?case
    using small_base_fee_stays [of "fee_market_new target" gas] assms(1) by (simp add: fee_market_new_def)
qed simp

theorem fresh_market_never_reacts_witness:
  "fold adjust_base_fee [10000000, 0, 9999999] (fee_market_new 5000000) = fee_market_new 5000000"
  by (rule fresh_market_never_reacts) simp_all

theorem base_fee_moves_by_an_eighth_witness:
  "unat (fm_base_fee (adjust_base_fee 10000000 \<lparr>fm_base_fee = 100, fm_target_block_gas = 5000000\<rparr>)) \<in> {100..112}"
  using base_fee_moves_by_an_eighth [of "\<lparr>fm_base_fee = 100, fm_target_block_gas = 5000000\<rparr>" 10000000]
  by (simp add: word_le_nat_alt)

text \<open>
  Above twice the target the bound of an eighth does not hold: three times the target raises a
  base fee of 100 by a quarter.
\<close>

theorem fuller_blocks_move_it_further:
  "fm_base_fee (adjust_base_fee 15000000 \<lparr>fm_base_fee = 100, fm_target_block_gas = 5000000\<rparr>) = 125"
proof -
  have exact: "rounded s (of_nat n) = F64_Fin s (of_nat n)" if "n \<le> 2 ^ 53" for s n
    using that f64_of_nat_small [OF that] by (cases s) (simp_all add: f64_of_nat_def rounded_def Let_def split: if_splits)
  show ?thesis
    using exact [of 10000000 False] exact [of 2 False] exact [of 200 False] exact [of 25 False]
    by (simp add: adjust_base_fee_def fee_adjustment_def f64_of_nat_small f64_sub_def)
qed

end
