(* ===== verification/Dandelion.thy ===== *)
theory Dandelion
  imports Network Ieee_Double
begin

text \<open>
  The Dandelion++ router (crates/noirnet-network/src/dandelion.rs): the phases of a transaction,
  the sampling of stem durations in \<open>f64\<close>, routing and the flush of expired stems. Random draws
  and the clock are arguments; the natural logarithm of the platform, whose precision the
  standard library leaves open, is a parameter. Instants and durations count nanoseconds.
\<close>

section \<open>State\<close>

datatype dandelion_phase = Stem | Fluff

type_synonym instant = nat

record tx_state =
  ts_phase :: dandelion_phase
  ts_received_from :: peer_id
  ts_created_at :: instant
  ts_stem_deadline :: instant

record dandelion_router =
  dr_phase :: dandelion_phase
  dr_stem_successor :: "peer_id option"
  dr_tx_states :: "(tx_id \<times> tx_state) list"
  dr_fluff_probability :: f64
  dr_mean_stem_duration_secs :: f64

datatype routing_decision = Broadcast | ForwardTo peer_id | Drop

definition dandelion_new :: "f64 \<Rightarrow> dandelion_router" where
  "dandelion_new fluff_probability =
     \<lparr>dr_phase = Stem, dr_stem_successor = None, dr_tx_states = [],
      dr_fluff_probability = fluff_probability, dr_mean_stem_duration_secs = F64_Fin False 8\<rparr>"

section \<open>Stem durations\<close>

text \<open>
  \<open>Duration::from_secs_f64\<close>: a negative, infinite, undefined or too large number of seconds
  panics, any other is rounded to the nearest nanosecond.
\<close>

fun duration_from_secs_f64 :: "f64 \<Rightarrow> nat option" where
  "duration_from_secs_f64 (F64_Fin neg m) =
     (let secs = f64_val (F64_Fin neg m) in
      if secs < 0 then None
      else let nanos = nat (round_half_even (secs * 10 ^ 9))
           in if nanos < 2 ^ 64 * 10 ^ 9 then Some nanos else None)"
| "duration_from_secs_f64 _ = None"

text \<open>\<open>u\<close> is the uniform draw from the range \<open>0.001..1.0\<close>, \<open>log_e\<close> the platform's logarithm.\<close>

definition sample_stem_duration :: "(f64 \<Rightarrow> f64) \<Rightarrow> f64 \<Rightarrow> dandelion_router \<Rightarrow> nat option" where
  "sample_stem_duration log_e u r =
     (let seconds = f64_mul (f64_neg (dr_mean_stem_duration_secs r)) (log_e u);
          clamped = f64_clamp seconds (F64_Fin False 2) (F64_Fin False 30)
      in duration_from_secs_f64 clamped)"

section \<open>Routing\<close>

text \<open>\<open>rotate_successor\<close>; \<open>idx\<close> is the random index below the number of peers.\<close>

definition rotate_successor :: "nat \<Rightarrow> peer_id list \<Rightarrow> dandelion_router \<Rightarrow> dandelion_router" where
  "rotate_successor idx connected_peers r =
     (if connected_peers = [] then r\<lparr>dr_stem_successor := None\<rparr>
      else r\<lparr>dr_stem_successor := Some (connected_peers ! idx)\<rparr>)"

definition stem_expired :: "instant \<Rightarrow> tx_state \<Rightarrow> bool" where
  "stem_expired now st \<longleftrightarrow> ts_phase st = Stem \<and> now > ts_stem_deadline st"

definition flush_expired_stems :: "instant \<Rightarrow> dandelion_router \<Rightarrow> tx_id list \<times> dandelion_router" where
  "flush_expired_stems now r =
     (map fst (filter (\<lambda>(txid, st). stem_expired now st) (dr_tx_states r)),
      r\<lparr>dr_tx_states := map (\<lambda>(txid, st). (txid, if stem_expired now st then st\<lparr>ts_phase := Fluff\<rparr> else st))
         (dr_tx_states r)\<rparr>)"

text \<open>
  \<open>route_tx\<close>; \<open>draw\<close> is \<open>rng.gen::<f64>()\<close>, \<open>u\<close> the draw for the stem duration, which is sampled
  for every unknown transaction, also when it is not used. \<open>None\<close> is a panic.
\<close>

definition route_tx ::
  "(f64 \<Rightarrow> f64) \<Rightarrow> instant \<Rightarrow> f64 \<Rightarrow> f64 \<Rightarrow> tx_id \<Rightarrow> peer_id \<Rightarrow> dandelion_router \<Rightarrow>
   (routing_decision \<times> dandelion_router) option" where
  "route_tx log_e now draw u txid sender r =
     (let put = (\<lambda>ph deadline. r\<lparr>dr_tx_states := AList.update txid
            \<lparr>ts_phase = ph, ts_received_from = sender, ts_created_at = now, ts_stem_deadline = deadline\<rparr>
            (dr_tx_states r)\<rparr>)
      in if map_of (dr_tx_states r) txid \<noteq> None then Some (Drop, r)
         else case sample_stem_duration log_e u r of None \<Rightarrow> None
         | Some stem_duration \<Rightarrow>
             Some (if dr_phase r = Fluff then (Broadcast, put Fluff now)
               else if f64_less draw (dr_fluff_probability r) then (Broadcast, put Fluff now)
               else case dr_stem_successor r of
                      Some successor \<Rightarrow>
                        (if successor \<noteq> sender then (ForwardTo successor, put Stem (now + stem_duration))
                         else (Broadcast, r))
                    | None \<Rightarrow> (Broadcast, r)))"

section \<open>Stem durations are between 2 and 30 seconds\<close>

lemma f64_clamp_range:
  assumes "x \<noteq> F64_NaN" "(0 :: rat) \<le> lo" "lo \<le> hi"
  shows "\<exists>s m. f64_clamp x (F64_Fin False lo) (F64_Fin False hi) = F64_Fin s m \<and>
    lo \<le> f64_val (F64_Fin s m) \<and> f64_val (F64_Fin s m) \<le> hi"
proof (cases x)
  case (F64_Inf s)
  then show ?thesis
    using assms by (cases s) (auto simp: f64_clamp_def intro: exI [of _ False])
next
  case (F64_Fin s m)
  then show ?thesis
    using assms by (auto simp: f64_clamp_def not_less)
qed (use assms in simp)

lemma stem_duration_range:
  assumes "log_e u \<noteq> F64_NaN" "dr_mean_stem_duration_secs r = F64_Fin False 8"
  obtains d where "sample_stem_duration log_e u r = Some d" "2 * 10 ^ 9 \<le> d" "d \<le> 30 * 10 ^ 9"
proof -
  have "f64_mul (f64_neg (dr_mean_stem_duration_secs r)) (log_e u) \<noteq> F64_NaN"
    using assms by (cases "log_e u") (simp_all add: rounded_def Let_def)
  from f64_clamp_range [OF this, of 2 30]
  obtain s m where c: "f64_clamp (f64_mul (f64_neg (dr_mean_stem_duration_secs r)) (log_e u))
      (F64_Fin False 2) (F64_Fin False 30) = F64_Fin s m" "2 \<le> f64_val (F64_Fin s m)" "f64_val (F64_Fin s m) \<le> 30"
    by (auto simp del: f64_val.simps)
  define k where "k = round_half_even (f64_val (F64_Fin s m) * 1000000000)"
  have "2 * 10 ^ 9 \<le> k" "k \<le> 30 * 10 ^ 9"
    unfolding k_def using c(2,3) by (intro round_half_even_bounds; simp)+
  then have "sample_stem_duration log_e u r = Some (nat k)" "2 * 10 ^ 9 \<le> nat k" "nat k \<le> 30 * 10 ^ 9"
    using c(2) by (simp_all add: sample_stem_duration_def c(1) k_def [symmetric] Let_def nat_less_iff del: f64_val.simps)
  then show ?thesis
    using that by blast
qed

section \<open>What routing guarantees\<close>

lemma route_cases:
  assumes "route_tx log_e now draw u txid sender r = Some (dec, r')"
  obtains (known) "map_of (dr_tx_states r) txid \<noteq> None" "dec = Drop" "r' = r"
    | (fluff) "txid \<notin> fst ` set (dr_tx_states r)" "dec = Broadcast"
        "dr_phase r = Fluff \<or> f64_less draw (dr_fluff_probability r)"
        "dr_tx_states r' = dr_tx_states r @ [(txid, \<lparr>ts_phase = Fluff, ts_received_from = sender,
           ts_created_at = now, ts_stem_deadline = now\<rparr>)]"
    | (stem) p d where "txid \<notin> fst ` set (dr_tx_states r)" "dec = ForwardTo p" "p \<noteq> sender"
        "dr_stem_successor r = Some p" "sample_stem_duration log_e u r = Some d"
        "dr_tx_states r' = dr_tx_states r @ [(txid, \<lparr>ts_phase = Stem, ts_received_from = sender,
           ts_created_at = now, ts_stem_deadline = now + d\<rparr>)]"
    | (fallback) "map_of (dr_tx_states r) txid = None" "dec = Broadcast" "r' = r" "dr_phase r \<noteq> Fluff"
        "dr_stem_successor r = None \<or> dr_stem_successor r = Some sender" "\<not> f64_less draw (dr_fluff_probability r)"
  using assms
  by (auto simp: route_tx_def Let_def update_new map_of_eq_None_iff split: if_splits option.splits)

lemma map_of_fresh: "x \<notin> fst ` set kvs \<Longrightarrow> map_of (kvs @ [(x, v)]) x = Some v"
  by (induction kvs) auto

lemma flush_keeps_keys: "map fst (dr_tx_states (snd (flush_expired_stems t r))) = map fst (dr_tx_states r)"
  by (simp add: flush_expired_stems_def comp_def split_beta)

lemma flush_state:
  "map_of (dr_tx_states (snd (flush_expired_stems t r))) txid =
     map_option (\<lambda>st. if stem_expired t st then st\<lparr>ts_phase := Fluff\<rparr> else st) (map_of (dr_tx_states r) txid)"
proof -
  have "map_of (map (\<lambda>(x, st). (x, f st)) kvs) txid = map_option f (map_of kvs txid)" for f :: "tx_state \<Rightarrow> tx_state" and kvs
    by (induction kvs) auto
  then show ?thesis
    by (simp add: flush_expired_stems_def)
qed

lemma flush_released:
  assumes "distinct (map fst (dr_tx_states r))"
  shows "txid \<in> set (fst (flush_expired_stems t r)) \<longleftrightarrow>
    (\<exists>st. map_of (dr_tx_states r) txid = Some st \<and> stem_expired t st)"
  using map_of_is_SomeI [OF assms]
  by (force simp: flush_expired_stems_def dest: map_of_SomeD)

text \<open>A transaction in its fluff phase stays there and is released by no further flush.\<close>

definition fluffed :: "tx_id \<Rightarrow> dandelion_router \<Rightarrow> bool" where
  "fluffed txid r \<longleftrightarrow> distinct (map fst (dr_tx_states r)) \<and>
     (\<exists>st. map_of (dr_tx_states r) txid = Some st \<and> ts_phase st = Fluff)"

definition flushes :: "instant list \<Rightarrow> dandelion_router \<Rightarrow> dandelion_router" where
  "flushes ts = fold (\<lambda>t r. snd (flush_expired_stems t r)) ts"

lemma fluffed_flush:
  assumes "fluffed txid r"
  shows "fluffed txid (snd (flush_expired_stems t r))"
proof -
  obtain st where "map_of (dr_tx_states r) txid = Some st" "ts_phase st = Fluff"
    using assms by (auto simp: fluffed_def)
  then have "map_of (dr_tx_states (snd (flush_expired_stems t r))) txid = Some st"
    by (simp add: flush_state stem_expired_def)
  then show ?thesis
    using assms \<open>ts_phase st = Fluff\<close> by (auto simp: fluffed_def flush_keeps_keys)
qed

lemma fluffed_flushes: "fluffed txid r \<Longrightarrow> fluffed txid (flushes ts r)"
  by (induction ts arbitrary: r) (auto simp: flushes_def fluffed_flush)

lemma fluffed_not_released: "fluffed txid r \<Longrightarrow> txid \<notin> set (fst (flush_expired_stems t (flushes ts r)))"
  using fluffed_flushes [of txid r ts]
  by (auto simp: fluffed_def [of txid "flushes ts r"] flush_released stem_expired_def simp del: map_of_eq_Some_iff)

lemma released_is_fluffed:
  assumes "distinct (map fst (dr_tx_states r))" "txid \<in> set (fst (flush_expired_stems t r))"
  shows "fluffed txid (snd (flush_expired_stems t r))"
  using assms by (auto simp: fluffed_def flush_keeps_keys flush_state flush_released simp del: map_of_eq_Some_iff)

text \<open>
  C34: a transaction that has a routing state is dropped, and routing gives every other transaction
  one, except in the fallback: outside the fluff phase, the draw not below the probability, and no
  successor other than the sender. So a transaction is routed once, other entries are left alone,
  and it is never sent back to the peer it came from. If it is forwarded, its stem phase, with the default mean of 8
  seconds, ends in time: the flush leaves it alone for the first 2 seconds, releases it once 30 seconds have passed, and whenever it has been
  released, no later flush releases it again; a transaction that was broadcast is never released. The router does
  not panic as long as the logarithm of the draw is a number. The fallback leaves no state, so the
  same transaction is broadcast again when it returns.
\<close>

theorem dandelion_routing:
  assumes "distinct (map fst (dr_tx_states r))" "dr_mean_stem_duration_secs r = F64_Fin False 8"
    and "log_e u \<noteq> F64_NaN" "log_e u' \<noteq> F64_NaN"
  shows "\<exists>dec r'. route_tx log_e now draw u txid sender r = Some (dec, r') \<and>
    (map_of (dr_tx_states r) txid \<noteq> None \<longrightarrow> dec = Drop \<and> r' = r) \<and>
    (map_of (dr_tx_states r') txid = None \<longleftrightarrow> map_of (dr_tx_states r) txid = None \<and> dec = Broadcast \<and> r' = r \<and>
       dr_phase r \<noteq> Fluff \<and> \<not> f64_less draw (dr_fluff_probability r) \<and>
       (dr_stem_successor r = None \<or> dr_stem_successor r = Some sender)) \<and>
    (\<forall>x. x \<noteq> txid \<longrightarrow> map_of (dr_tx_states r') x = map_of (dr_tx_states r) x) \<and>
    (\<forall>p. dec = ForwardTo p \<longrightarrow> p \<noteq> sender \<and> dr_stem_successor r = Some p) \<and>
    (map_of (dr_tx_states r') txid \<noteq> None \<longrightarrow> route_tx log_e now' draw' u' txid sender' r' = Some (Drop, r')) \<and>
    (\<forall>p. dec = ForwardTo p \<longrightarrow>
       (t \<le> now + 2 * 10 ^ 9 \<longrightarrow> txid \<notin> set (fst (flush_expired_stems t r'))) \<and>
       (t > now + 30 * 10 ^ 9 \<longrightarrow> txid \<in> set (fst (flush_expired_stems t r')))) \<and>
    (txid \<in> set (fst (flush_expired_stems t r')) \<longrightarrow>
       txid \<notin> set (fst (flush_expired_stems t' (flushes ts (snd (flush_expired_stems t r')))))) \<and>
    (dec = Broadcast \<longrightarrow> txid \<notin> set (fst (flush_expired_stems t' (flushes ts r')))) \<and>
    (dec = Broadcast \<and> r' = r \<longrightarrow> (\<exists>r''. route_tx log_e now' draw' u' txid sender r' = Some (Broadcast, r'')))"
proof -
  obtain d where d: "sample_stem_duration log_e u r = Some d" "2 * 10 ^ 9 \<le> d" "d \<le> 30 * 10 ^ 9"
    using stem_duration_range [of log_e u r] assms(2,3) by blast
  obtain d' where d': "sample_stem_duration log_e u' r = Some d'"
    using stem_duration_range [of log_e u' r] assms(2,4) by blast
  have "route_tx log_e now draw u txid sender r \<noteq> None"
    using d(1) by (simp add: route_tx_def Let_def)
  then obtain dec r' where run: "route_tx log_e now draw u txid sender r = Some (dec, r')"
    by auto
  have keys: "distinct (map fst (dr_tx_states r'))"
    using run assms(1) by (cases rule: route_cases) auto
  have stays: "map_of (dr_tx_states r') txid \<noteq> None \<longrightarrow> route_tx log_e now' draw' u' txid sender' r' = Some (Drop, r')"
    by (simp add: route_tx_def Let_def)
  have once: "txid \<in> set (fst (flush_expired_stems t r')) \<longrightarrow>
      txid \<notin> set (fst (flush_expired_stems t' (flushes ts (snd (flush_expired_stems t r')))))"
    using released_is_fluffed [OF keys] fluffed_not_released by blast
  have frame: "\<forall>x. x \<noteq> txid \<longrightarrow> map_of (dr_tx_states r') x = map_of (dr_tx_states r) x"
    using run by (cases rule: route_cases) (auto simp: map_add_def split: option.split)
  from run show ?thesis
  proof (cases rule: route_cases)
    case known
    then show ?thesis
      using run frame once stays by (intro exI [of _ dec] exI [of _ r']) auto
  next
    case fluff
    then have "map_of (dr_tx_states r') txid = Some \<lparr>ts_phase = Fluff, ts_received_from = sender, ts_created_at = now, ts_stem_deadline = now\<rparr>"
      by (simp add: map_of_fresh del: map_of_append)
    then have "fluffed txid r'"
      using keys unfolding fluffed_def by (metis tx_state.select_convs(1))
    then show ?thesis
      using run frame once stays fluff fluffed_not_released
      by (intro exI [of _ dec] exI [of _ r']) (auto simp: map_of_eq_None_iff)
  next
    case (stem p e)
    then have "map_of (dr_tx_states r') txid = Some \<lparr>ts_phase = Stem, ts_received_from = sender, ts_created_at = now, ts_stem_deadline = now + e\<rparr>"
      by (simp add: map_of_fresh del: map_of_append)
    then show ?thesis
      using run frame once stays stem d
      by (intro exI [of _ dec] exI [of _ r']) (auto simp: flush_released [OF keys] stem_expired_def map_of_eq_None_iff)
  next
    case fallback
    have "map_of (dr_tx_states (flushes ts r)) txid = None"
      using fallback(1) by (induction ts arbitrary: r) (auto simp: flushes_def flush_state)
    moreover have "distinct (map fst (dr_tx_states (flushes ts r)))"
      using assms(1) by (induction ts arbitrary: r) (auto simp: flushes_def flush_keeps_keys)
    moreover have "\<exists>r''. route_tx log_e now' draw' u' txid sender r' = Some (Broadcast, r'')"
      using fallback d' by (auto simp: route_tx_def Let_def)
    ultimately show ?thesis
      using run frame once stays fallback
      by (intro exI [of _ dec] exI [of _ r']) (auto simp: flush_released)
  qed
qed

definition sample_log :: "f64 \<Rightarrow> f64" where
  "sample_log x = F64_Fin True 1"

definition sample_router :: dandelion_router where
  "sample_router = rotate_successor 0 [[1], [2]] (dandelion_new (F64_Fin False (1 / 2)))"

lemma sample_stem: "sample_stem_duration sample_log u sample_router = Some 8000000000"
proof -
  have "rounded False 8 = F64_Fin False 8"
    using round_mag_representable [OF representable_of_nat [of 8]] by (simp add: rounded_def)
  moreover have "round_half_even 8000000000 = 8000000000"
    using round_half_even_of_int [of 8000000000] by simp
  ultimately show ?thesis
    by (simp add: sample_stem_duration_def sample_log_def sample_router_def rotate_successor_def
        dandelion_new_def f64_clamp_def)
qed

theorem dandelion_routing_witness:
  "\<exists>r'. route_tx sample_log 5 (F64_Fin False (3 / 4)) (F64_Fin False (1 / 2)) [9] [2] sample_router = Some (ForwardTo [1], r') \<and>
    [9] \<in> set (fst (flush_expired_stems 30000000006 r'))"
proof -
  define run where "run = route_tx sample_log 5 (F64_Fin False (3 / 4)) (F64_Fin False (1 / 2)) [9] [2] sample_router"
  have "\<exists>r'. run = Some (ForwardTo [1], r')"
    by (simp add: run_def route_tx_def sample_stem)
      (simp add: sample_router_def rotate_successor_def dandelion_new_def)
  moreover have "distinct (map fst (dr_tx_states sample_router))" "dr_mean_stem_duration_secs sample_router = F64_Fin False 8"
      "sample_log (F64_Fin False (1 / 2)) \<noteq> F64_NaN"
    by (simp_all add: sample_router_def rotate_successor_def dandelion_new_def sample_log_def)
  ultimately show ?thesis
    using dandelion_routing [where r = sample_router and log_e = sample_log and u = "F64_Fin False (1 / 2)"
        and u' = "F64_Fin False (1 / 2)" and now = 5 and draw = "F64_Fin False (3 / 4)" and txid = "[9]"
        and sender = "[2]" and t = 30000000006] unfolding run_def [symmetric] by auto
qed

end
