(* ===== verification/Cli_Session.thy ===== *)
theory Cli_Session
  imports Cli
begin

text \<open>
  A session of the command line wallet (src/bin/noirnet-cli/src/main.rs) from its arguments to
  what it shows: \<open>main\<close> and the four commands with their order of checks, output, file writing
  and requests, and what they make of the answer. HTTP (reqwest) and the file system are
  parameters acting on a world; output is the information shown, not its layout. The contract of
  JSON-RPC between the wallet and a node is the locale \<open>json_rpc\<close>.
\<close>

section \<open>JSON\<close>

datatype json =
    JNull
  | JBool bool
  | JNum int
  | JStr string
  | JArr "json list"
  | JObj "(string \<times> json) list"

text \<open>\<open>Value::get\<close> with a string: a member of an object, nothing otherwise.\<close>

fun json_get :: "string \<Rightarrow> json \<Rightarrow> json option" where
  "json_get k (JObj members) = map_of members k"
| "json_get k _ = None"

definition json_rpc_payload :: "int \<Rightarrow> rpc_request \<Rightarrow> json" where
  "json_rpc_payload i rq =
     JObj [(''jsonrpc'', JStr ''2.0''), (''method'', JStr (rq_method rq)),
           (''params'', JArr (map JStr (rq_params rq))), (''id'', JNum i)]"

text \<open>The object \<open>generate-keys\<close> writes to its file.\<close>

definition key_data :: "wallet_file \<Rightarrow> json" where
  "key_data f =
     JObj [(''seed'', JStr (wf_seed f)), (''spending_key'', JStr (wf_spending_key f)),
           (''fvk'', JObj [(''ak'', JStr (wf_ak f)), (''nk'', JStr (wf_nk f)), (''ovk'', JStr (wf_ovk f))]),
           (''payment_address'', JStr (wf_payment_address f))]"

section \<open>Arguments, output, environment\<close>

datatype cli_command =
    GenerateKeys "string option"
  | Send string u64 u64 string
  | Status
  | GetStorage string string

record cli_args =
  ca_rpc :: string
  ca_command :: cli_command

definition CLI_DEFAULT_RPC :: string where
  "CLI_DEFAULT_RPC = ''http://127.0.0.1:7777''"

datatype cli_shown =
    KeysShown wallet_file
  | KeysSaved string
  | SendStarted string u64 u64
  | TxShown tx_id nat u64
  | Submitted json
  | RpcErrorShown json
  | StatusShown "json option" "json option" "json option" string
  | StorageEmpty
  | StorageShown json

datatype cli_failure = CliFailed cli_error | HttpFailed | FileFailed | Panicked

record 'w cli_env =
  ce_post :: "string \<Rightarrow> json \<Rightarrow> 'w \<Rightarrow> json option \<times> 'w"
  ce_write :: "string \<Rightarrow> json \<Rightarrow> 'w \<Rightarrow> bool \<times> 'w"

type_synonym ('w, 'a) session = "(cli_shown list \<times> 'w, cli_failure, 'a) fallible"

definition show_line :: "cli_shown \<Rightarrow> ('w, unit) session" where
  "show_line l = (\<lambda>(out, w). (Inr (), (out @ [l], w)))"

definition post_json :: "'w cli_env \<Rightarrow> string \<Rightarrow> json \<Rightarrow> ('w, json) session" where
  "post_json E url payload =
     (\<lambda>(out, w). case ce_post E url payload w of
        (None, w') \<Rightarrow> (Inl HttpFailed, (out, w'))
      | (Some body, w') \<Rightarrow> (Inr body, (out, w')))"

definition write_json :: "'w cli_env \<Rightarrow> string \<Rightarrow> json \<Rightarrow> ('w, unit) session" where
  "write_json E file data =
     (\<lambda>(out, w). case ce_write E file data w of
        (False, w') \<Rightarrow> (Inl FileFailed, (out, w'))
      | (True, w') \<Rightarrow> (Inr (), (out, w')))"

section \<open>The commands\<close>

definition run_generate_keys ::
  "'w cli_env \<Rightarrow> ext \<Rightarrow> hex_codec \<Rightarrow> (bytes \<Rightarrow> string) \<Rightarrow> bytes \<Rightarrow> string option \<Rightarrow> ('w, unit) session" where
  "run_generate_keys E X H to_text random_bytes seed =
     (case cmd_generate_keys X H to_text random_bytes seed of
        Inl e \<Rightarrow> err (CliFailed e)
      | Inr f \<Rightarrow>
          andThen (show_line (KeysShown f)) (\<lambda>_.
          andThen (write_json E ''noirnet_wallet.json'' (key_data f)) (\<lambda>_.
          show_line (KeysSaved ''noirnet_wallet.json''))))"

text \<open>The answer to \<open>send\<close>: a result, an error, or neither of them.\<close>

definition show_submission :: "json \<Rightarrow> ('w, unit) session" where
  "show_submission body =
     (case json_get ''result'' body of
        Some result \<Rightarrow> show_line (Submitted result)
      | None \<Rightarrow>
          (case json_get ''error'' body of
             Some error \<Rightarrow> show_line (RpcErrorShown error)
           | None \<Rightarrow> ok ()))"

definition run_send ::
  "'w cli_env \<Rightarrow> ext \<Rightarrow> crypto_ext \<Rightarrow> ('f, 'pp, 'p) nova \<Rightarrow> hex_codec \<Rightarrow> wallet_rand \<Rightarrow> u64 \<Rightarrow>
   string \<Rightarrow> string \<Rightarrow> u64 \<Rightarrow> u64 \<Rightarrow> string \<Rightarrow> ('w, unit) session" where
  "run_send E X K N H r now url to_hex amount fee key_hex =
     (case decode32 H BadKeyLength key_hex of
        Inl e \<Rightarrow> err (CliFailed e)
      | Inr sk \<Rightarrow>
          (case decode32 H BadRecipientLength to_hex of
             Inl e \<Rightarrow> err (CliFailed e)
           | Inr pk_d \<Rightarrow>
               andThen (show_line (SendStarted to_hex amount fee)) (\<lambda>_.
               (case build_transfer X K N r now sk \<lparr>pa_diversifier = replicate 11 0, pa_pk_d = pk_d\<rparr>
                   amount fee (amount + fee) of
                  None \<Rightarrow> err Panicked
                | Some (Inl e) \<Rightarrow> err (CliFailed (WalletFailed e))
                | Some (Inr tx) \<Rightarrow>
                    (let tx_bytes = bincode_tx X tx in
                     andThen (show_line (TxShown (tx_id_of X tx) (length tx_bytes) (tx_timestamp tx))) (\<lambda>_.
                     andThen (post_json E url (json_rpc_payload 1
                         \<lparr>rq_method = ''noirnet_sendTransaction'', rq_params = [hx_encode H tx_bytes]\<rparr>)) (\<lambda>body.
                     show_submission body)))))))"

definition run_status :: "'w cli_env \<Rightarrow> string \<Rightarrow> ('w, unit) session" where
  "run_status E url =
     andThen (post_json E url (json_rpc_payload 1 \<lparr>rq_method = ''noirnet_getBlockHeight'', rq_params = []\<rparr>)) (\<lambda>body.
     andThen (post_json E url (json_rpc_payload 2 \<lparr>rq_method = ''noirnet_getSyncStatus'', rq_params = []\<rparr>)) (\<lambda>sync_body.
     (let sync = json_get ''result'' sync_body
      in show_line (StatusShown (json_get ''result'' body)
           (Option.bind sync (json_get ''synced'')) (Option.bind sync (json_get ''peers'')) url))))"

definition run_get_storage :: "'w cli_env \<Rightarrow> string \<Rightarrow> string \<Rightarrow> string \<Rightarrow> ('w, unit) session" where
  "run_get_storage E url contract_hex key_hex =
     andThen (post_json E url (json_rpc_payload 1 (cmd_get_storage contract_hex key_hex))) (\<lambda>body.
     (case json_get ''result'' body of
        Some result \<Rightarrow> show_line (if result = JNull then StorageEmpty else StorageShown result)
      | None \<Rightarrow>
          (case json_get ''error'' body of
             Some error \<Rightarrow> show_line (RpcErrorShown error)
           | None \<Rightarrow> ok ())))"

definition cli_main ::
  "'w cli_env \<Rightarrow> ext \<Rightarrow> crypto_ext \<Rightarrow> ('f, 'pp, 'p) nova \<Rightarrow> hex_codec \<Rightarrow> (bytes \<Rightarrow> string) \<Rightarrow> bytes \<Rightarrow>
   wallet_rand \<Rightarrow> u64 \<Rightarrow> cli_args \<Rightarrow> ('w, unit) session" where
  "cli_main E X K N H to_text random_bytes r now args =
     (case ca_command args of
        GenerateKeys seed \<Rightarrow> run_generate_keys E X H to_text random_bytes seed
      | Send to amount fee key \<Rightarrow> run_send E X K N H r now (ca_rpc args) to amount fee key
      | Status \<Rightarrow> run_status E (ca_rpc args)
      | GetStorage contract key \<Rightarrow> run_get_storage E (ca_rpc args) contract key)"

section \<open>The other end of the line\<close>

text \<open>What the handlers of a node return, as JSON.\<close>

fun rpc_value_json :: "rpc_value \<Rightarrow> json" where
  "rpc_value_json (RpcHeight h) = JNum (uint h)"
| "rpc_value_json (RpcTxId s) = JStr s"
| "rpc_value_json (RpcStorage v) = (case v of None \<Rightarrow> JNull | Some s \<Rightarrow> JStr s)"
| "rpc_value_json (RpcStatus y) =
     JObj [(''synced'', JBool (sy_synced y)), (''peers'', JNum (int (sy_peers y))), (''height'', JNum (uint (sy_height y)))]"

text \<open>
  JSON-RPC 2.0 over a working connection to a node: a request is answered by the handler of its
  method; a value comes back as the member \<open>result\<close> with no member \<open>error\<close>, a failure as
  \<open>error\<close> with its code and without \<open>result\<close>.
\<close>

locale json_rpc =
  fixes E :: "'db rpc_state cli_env" and X :: ext and S :: "'db sled" and H :: hex_codec
    and channel :: channel_id and reply :: "(usize \<times> bool) option"
  assumes answered: "rpc_dispatch X S H channel reply rq st = (Some (Inr v), st') \<Longrightarrow>
      \<exists>body. ce_post E url (json_rpc_payload i rq) st = (Some body, st') \<and>
        json_get ''result'' body = Some (rpc_value_json v) \<and> json_get ''error'' body = None"
    and refused: "rpc_dispatch X S H channel reply rq st = (Some (Inl e), st') \<Longrightarrow>
      \<exists>body err. ce_post E url (json_rpc_payload i rq) st = (Some body, st') \<and>
        json_get ''result'' body = None \<and> json_get ''error'' body = Some err \<and>
        json_get ''code'' err = Some (JNum (rpc_error_code e))"

text \<open>A transport in memory, which reads the request back and wraps the answer.\<close>

fun json_strings :: "json list \<Rightarrow> string list option" where
  "json_strings [] = Some []"
| "json_strings (JStr s # js) = map_option (Cons s) (json_strings js)"
| "json_strings (_ # js) = None"

definition request_of_json :: "json \<Rightarrow> rpc_request option" where
  "request_of_json j =
     (case (json_get ''method'' j, json_get ''params'' j) of
        (Some (JStr m), Some (JArr ps)) \<Rightarrow> map_option (\<lambda>ss. \<lparr>rq_method = m, rq_params = ss\<rparr>) (json_strings ps)
      | _ \<Rightarrow> None)"

definition local_env ::
  "ext \<Rightarrow> 'db sled \<Rightarrow> hex_codec \<Rightarrow> channel_id \<Rightarrow> (usize \<times> bool) option \<Rightarrow> 'db rpc_state cli_env" where
  "local_env X S H channel reply =
     \<lparr>ce_post = (\<lambda>url payload st.
        case request_of_json payload of
          None \<Rightarrow> (None, st)
        | Some rq \<Rightarrow>
            (case rpc_dispatch X S H channel reply rq st of
               (None, st') \<Rightarrow> (None, st')
             | (Some (Inr v), st') \<Rightarrow> (Some (JObj [(''result'', rpc_value_json v)]), st')
             | (Some (Inl e), st') \<Rightarrow>
                 (Some (JObj [(''error'', JObj [(''code'', JNum (rpc_error_code e))])]), st'))),
      ce_write = (\<lambda>file data st. (True, st))\<rparr>"

lemma json_strings_map [simp]: "json_strings (map JStr ss) = Some ss"
  by (induction ss) simp_all

lemma request_of_payload [simp]: "request_of_json (json_rpc_payload i rq) = Some rq"
  by (simp add: request_of_json_def json_rpc_payload_def)

interpretation local: json_rpc "local_env X S H channel reply" X S H channel reply
  for X :: ext and S :: "'db sled" and H channel reply
  by unfold_locales (simp_all add: local_env_def)

context json_rpc
begin

lemma post_answered:
  assumes "rpc_dispatch X S H channel reply rq st = (Some (Inr v), st')"
  obtains body where "post_json E url (json_rpc_payload i rq) (out, st) = (Inr body, (out, st'))"
    "json_get ''result'' body = Some (rpc_value_json v)" "json_get ''error'' body = None"
  using answered [OF assms, of url i] by (auto simp: post_json_def)

lemma post_refused:
  assumes "rpc_dispatch X S H channel reply rq st = (Some (Inl e), st')"
  obtains body err where "post_json E url (json_rpc_payload i rq) (out, st) = (Inr body, (out, st'))"
    "json_get ''result'' body = None" "json_get ''error'' body = Some err"
    "json_get ''code'' err = Some (JNum (rpc_error_code e))"
  using refused [OF assms, of url i] by (auto simp: post_json_def)

lemma get_storage_session:
  assumes "hex_crate H" "length cid = 32"
  obtains line where
    "run_get_storage E url (hx_encode H cid) (hx_encode H k) (out, st) = (Inr (), (out @ [line], st))"
    "case get_contract_state S cid k (ss_db (rs_store st)) of
       Inl e \<Rightarrow> \<exists>err. line = RpcErrorShown err \<and> json_get ''code'' err = Some (JNum (- 32001))
     | Inr None \<Rightarrow> line = StorageEmpty
     | Inr (Some v) \<Rightarrow> line = StorageShown (JStr (hx_encode H v))"
proof -
  have read: "rpc_dispatch X S H channel reply (cmd_get_storage (hx_encode H cid) (hx_encode H k)) st =
      (Some (map_sum StorageFailed (\<lambda>v. RpcStorage (map_option (hx_encode H) v))
         (get_contract_state S cid k (ss_db (rs_store st)))), st)"
    using hex_crate.hash32_text [OF assms] hex_crate.decode_encode [OF assms(1)]
    by (cases "get_contract_state S cid k (ss_db (rs_store st))")
      (simp_all add: rpc_dispatch_def cmd_get_storage_def rpc_get_storage_def hash32_to_string_def)
  show ?thesis
  proof (cases "get_contract_state S cid k (ss_db (rs_store st))")
    case (Inl e)
    then have "rpc_dispatch X S H channel reply (cmd_get_storage (hx_encode H cid) (hx_encode H k)) st =
        (Some (Inl (StorageFailed e)), st)"
      using read by simp
    then obtain body err where "post_json E url (json_rpc_payload 1 (cmd_get_storage (hx_encode H cid) (hx_encode H k))) (out, st) =
          (Inr body, (out, st))"
        "json_get ''result'' body = None" "json_get ''error'' body = Some err"
        "json_get ''code'' err = Some (JNum (rpc_error_code (StorageFailed e)))"
      by (rule post_refused)
    then show ?thesis
      using that [of "RpcErrorShown err"] Inl by (simp add: run_get_storage_def andThen_ok show_line_def)
  next
    case (Inr v)
    then have "rpc_dispatch X S H channel reply (cmd_get_storage (hx_encode H cid) (hx_encode H k)) st =
        (Some (Inr (RpcStorage (map_option (hx_encode H) v))), st)"
      using read by simp
    then obtain body where "post_json E url (json_rpc_payload 1 (cmd_get_storage (hx_encode H cid) (hx_encode H k))) (out, st) =
          (Inr body, (out, st))"
        "json_get ''result'' body = Some (rpc_value_json (RpcStorage (map_option (hx_encode H) v)))"
      by (rule post_answered)
    then show ?thesis
      using that [of "case v of None \<Rightarrow> StorageEmpty | Some b \<Rightarrow> StorageShown (JStr (hx_encode H b))"] Inr
      by (cases v) (simp_all add: run_get_storage_def andThen_ok show_line_def)
  qed
qed

lemma send_session:
  assumes "hex_crate H" "length sk = 32" "length pk_d = 32"
    and made: "build_transfer X K N r now sk \<lparr>pa_diversifier = replicate 11 0, pa_pk_d = pk_d\<rparr> amount fee (amount + fee) =
      Some (Inr tx)"
    and "bincode_tx_de X (bincode_tx X tx) = Some tx"
    and pool: "mempool_insert X S (ss_db (rs_store st)) tx (rs_mempool st) = (res, pool)"
  obtains line st' where
    "run_send E X K N H r now url (hx_encode H pk_d) amount fee (hx_encode H sk) (out, st) =
       (Inr (), (out @ [SendStarted (hx_encode H pk_d) amount fee,
          TxShown (tx_id_of X tx) (length (bincode_tx X tx)) (tx_timestamp tx), line], st'))"
    "rs_mempool st' = pool" "rs_store st' = rs_store st"
    "case res of
       Inr _ \<Rightarrow> line = Submitted (JStr (hash32_to_string H (tx_id_of X tx)))
     | Inl e \<Rightarrow> \<exists>err. line = RpcErrorShown err \<and> json_get ''code'' err = Some (JNum (- 32000))"
proof -
  define rq where "rq = \<lparr>rq_method = ''noirnet_sendTransaction'', rq_params = [hx_encode H (bincode_tx X tx)]\<rparr>"
  have steps: "run_send E X K N H r now url (hx_encode H pk_d) amount fee (hx_encode H sk) (out, st) =
      andThen (post_json E url (json_rpc_payload 1 rq)) show_submission
        (out @ [SendStarted (hx_encode H pk_d) amount fee,
          TxShown (tx_id_of X tx) (length (bincode_tx X tx)) (tx_timestamp tx)], st)"
    using made by (simp add: run_send_def decode32_encode assms(1-3) Let_def andThen_ok show_line_def rq_def)
  show ?thesis
  proof (cases res)
    case (Inl e)
    have "rpc_dispatch X S H channel reply rq st = (Some (Inl (MempoolRefused e)), st\<lparr>rs_mempool := pool\<rparr>)"
      using pool Inl by (simp add: rpc_dispatch_def rq_def rpc_send_transaction_def hex_crate.decode_encode [OF assms(1)] assms(5))
    then obtain body err where "post_json E url (json_rpc_payload 1 rq) (out @ [SendStarted (hx_encode H pk_d) amount fee,
          TxShown (tx_id_of X tx) (length (bincode_tx X tx)) (tx_timestamp tx)], st) = (Inr body, (out @ [SendStarted (hx_encode H pk_d) amount fee,
          TxShown (tx_id_of X tx) (length (bincode_tx X tx)) (tx_timestamp tx)], st\<lparr>rs_mempool := pool\<rparr>))"
        "json_get ''result'' body = None" "json_get ''error'' body = Some err"
        "json_get ''code'' err = Some (JNum (rpc_error_code (MempoolRefused e)))"
      by (rule post_refused)
    then show ?thesis
      using Inl by (intro that [of "RpcErrorShown err" "st\<lparr>rs_mempool := pool\<rparr>"])
        (simp_all add: steps andThen_ok show_submission_def show_line_def)
  next
    case (Inr u)
    define st' where "st' = snd (network_send (BroadcastTx (bincode_tx X tx)) (st\<lparr>rs_mempool := pool\<rparr>))"
    have "rpc_dispatch X S H channel reply rq st = (Some (Inr (RpcTxId (hash32_to_string H (tx_id_of X tx)))), st')"
      using pool Inr by (simp add: rpc_dispatch_def rq_def rpc_send_transaction_def hex_crate.decode_encode [OF assms(1)]
          assms(5) st'_def)
    then obtain body where "post_json E url (json_rpc_payload 1 rq) (out @ [SendStarted (hx_encode H pk_d) amount fee,
          TxShown (tx_id_of X tx) (length (bincode_tx X tx)) (tx_timestamp tx)], st) = (Inr body, (out @ [SendStarted (hx_encode H pk_d) amount fee,
          TxShown (tx_id_of X tx) (length (bincode_tx X tx)) (tx_timestamp tx)], st'))"
        "json_get ''result'' body = Some (rpc_value_json (RpcTxId (hash32_to_string H (tx_id_of X tx))))"
      by (rule post_answered)
    then show ?thesis
      using Inr by (intro that [of "Submitted (JStr (hash32_to_string H (tx_id_of X tx)))" st'])
        (simp_all add: steps andThen_ok show_submission_def show_line_def st'_def network_send_def)
  qed
qed

end

section \<open>Sessions\<close>

text \<open>
  C36: what \<open>send\<close> tells its user is what happened. Through any transport that keeps to JSON-RPC, a
  well-formed \<open>send\<close> shows the submitted identifier exactly when the node took the transaction
  into its mempool, which then holds it; otherwise it shows the mempool's error and the pool is
  what it was. The ledger is not touched either way.
\<close>

theorem cli_send_session:
  assumes "json_rpc E X S H channel reply" "hex_crate H" "length sk = 32" "length pk_d = 32"
    and "build_transfer X K N r now sk \<lparr>pa_diversifier = replicate 11 0, pa_pk_d = pk_d\<rparr> amount fee (amount + fee) =
      Some (Inr tx)"
    and "bincode_tx_de X (bincode_tx X tx) = Some tx"
  shows "\<exists>line st'. cli_main E X K N H to_text rnd r now
      \<lparr>ca_rpc = url, ca_command = Send (hx_encode H pk_d) amount fee (hx_encode H sk)\<rparr> ([], st) =
       (Inr (), ([SendStarted (hx_encode H pk_d) amount fee,
          TxShown (tx_id_of X tx) (length (bincode_tx X tx)) (tx_timestamp tx), line], st')) \<and>
    rs_store st' = rs_store st \<and>
    (case fst (mempool_insert X S (ss_db (rs_store st)) tx (rs_mempool st)) of
       Inr _ \<Rightarrow> line = Submitted (JStr (hash32_to_string H (tx_id_of X tx))) \<and>
         map_of (mp_txs (rs_mempool st')) (tx_id_of X tx) = Some tx
     | Inl e \<Rightarrow> (\<exists>err. line = RpcErrorShown err \<and> json_get ''code'' err = Some (JNum (- 32000))) \<and>
         rs_mempool st' = rs_mempool st)"
proof -
  obtain res pool where pool: "mempool_insert X S (ss_db (rs_store st)) tx (rs_mempool st) = (res, pool)"
    by fastforce
  obtain line st' where "run_send E X K N H r now url (hx_encode H pk_d) amount fee (hx_encode H sk) ([], st) =
       (Inr (), ([] @ [SendStarted (hx_encode H pk_d) amount fee,
          TxShown (tx_id_of X tx) (length (bincode_tx X tx)) (tx_timestamp tx), line], st'))"
    "rs_mempool st' = pool" "rs_store st' = rs_store st"
    "case res of
       Inr _ \<Rightarrow> line = Submitted (JStr (hash32_to_string H (tx_id_of X tx)))
     | Inl e \<Rightarrow> \<exists>err. line = RpcErrorShown err \<and> json_get ''code'' err = Some (JNum (- 32000))"
    by (rule json_rpc.send_session [OF assms pool])
  moreover have "res = Inl e \<Longrightarrow> pool = rs_mempool st" for e
    using mempool_insert_Inl [of X S "ss_db (rs_store st)" tx "rs_mempool st" e] pool by simp
  moreover have "res = Inr () \<Longrightarrow> map_of (mp_txs pool) (tx_id_of X tx) = Some tx"
    using pool by (auto simp: mempool_insert_def Let_def update_conv' split: if_splits option.splits sum.splits)
  ultimately show ?thesis
    by (intro exI [of _ line] exI [of _ st']) (auto simp: cli_main_def pool split: sum.splits)
qed

text \<open>
  \<open>get-storage\<close> shows what the contract stored: for a contract identifier and a key in
  hexadecimal it shows the hexadecimal form of the value in the node's database, says so when there
  is none, shows an error when the database fails, and changes nothing at the node.
\<close>

theorem cli_storage_session:
  assumes "json_rpc E X S H channel reply" "hex_crate H" "length cid = 32"
  shows "\<exists>line. cli_main E X K N H to_text rnd r now
      \<lparr>ca_rpc = url, ca_command = GetStorage (hx_encode H cid) (hx_encode H k)\<rparr> ([], st) = (Inr (), ([line], st)) \<and>
    (case get_contract_state S cid k (ss_db (rs_store st)) of
       Inl e \<Rightarrow> \<exists>err. line = RpcErrorShown err
     | Inr None \<Rightarrow> line = StorageEmpty
     | Inr (Some v) \<Rightarrow> line = StorageShown (JStr (hx_encode H v)))"
proof -
  obtain line where "run_get_storage E url (hx_encode H cid) (hx_encode H k) ([], st) = (Inr (), ([] @ [line], st))"
    "case get_contract_state S cid k (ss_db (rs_store st)) of
       Inl e \<Rightarrow> \<exists>err. line = RpcErrorShown err \<and> json_get ''code'' err = Some (JNum (- 32001))
     | Inr None \<Rightarrow> line = StorageEmpty
     | Inr (Some v) \<Rightarrow> line = StorageShown (JStr (hx_encode H v))"
    by (rule json_rpc.get_storage_session [OF assms])
  then show ?thesis
    by (intro exI [of _ line]) (auto simp: cli_main_def split: sum.splits option.splits)
qed

section \<open>Witnesses\<close>

theorem cli_storage_session_witness:
  "\<exists>st :: mem_db rpc_state. cli_main (local_env sample_ext mem_sled plain_hex 0 None) sample_ext sample_crypto counting_nova
      plain_hex (\<lambda>_. []) [] sample_rand 900
      \<lparr>ca_rpc = CLI_DEFAULT_RPC, ca_command = GetStorage (hx_encode plain_hex (replicate 32 4)) (hx_encode plain_hex [1])\<rparr> ([], st) =
    (Inr (), ([StorageShown (JStr (hx_encode plain_hex [9]))], st))"
proof -
  let ?ch = "[(replicate 32 4 @ [1], [9])] :: (bytes \<times> bytes) list"
  define store where "store = snd (apply_block sample_ext mem_sled (sample_block 1 [sample_tx 2]) ?ch [] genesis_store)"
  have "fst (apply_block sample_ext mem_sled (sample_block 1 [sample_tx 2]) ?ch [] genesis_store) =
      Inr (ledger_root sample_ext (ledger_commit sample_ext (sample_block 1 [sample_tx 2]) ?ch [] genesis_ledger))"
    using mem.apply_block_accepts [OF genesis_represents, of "sample_block 1 [sample_tx 2]" ?ch "[]"]
    by (simp add: genesis_ledger_simps spendable_def sample_block_lists)
  then have "get_contract_state mem_sled (replicate 32 4) [1] (ss_db store) = Inr (Some [9])"
    using mem.get_contract_state_after [OF genesis_represents, of "sample_block 1 [sample_tx 2]" ?ch "[]" _ "replicate 32 4" "[1]"]
    by (simp add: store_def genesis_ledger_simps sample_block_lists)
  then show ?thesis
    using cli_storage_session [OF local.json_rpc_axioms plain_hex.hex_crate_axioms, where cid = "replicate 32 4" and k = "[1]"
        and st = "sample_rpc store" and S = mem_sled and X = sample_ext and K = sample_crypto and N = counting_nova
        and r = sample_rand and now = 900 and url = CLI_DEFAULT_RPC and to_text = "\<lambda>_. []" and rnd = "[]" and channel = 0 and reply = None]
    by (intro exI [of _ "sample_rpc store"]) (auto simp: sample_rpc_def rpc_start_def)
qed

theorem cli_send_session_witness:
  "\<exists>X line st'. cli_main (local_env X mem_sled plain_hex 0 None) X sample_crypto counting_nova
      plain_hex (\<lambda>_. []) [] sample_rand 900
      \<lparr>ca_rpc = CLI_DEFAULT_RPC, ca_command = Send (hx_encode plain_hex (replicate 32 2)) 5 CLI_DEFAULT_FEE
         (hx_encode plain_hex (replicate 32 1))\<rparr> ([], sample_rpc genesis_store) =
    (Inr (), (SendStarted (hx_encode plain_hex (replicate 32 2)) 5 CLI_DEFAULT_FEE # line, st')) \<and>
    rs_mempool st' = mempool_new"
proof -
  obtain tx where tx: "build_transfer sample_ext sample_crypto counting_nova sample_rand 900 (replicate 32 1)
      \<lparr>pa_diversifier = replicate 11 0, pa_pk_d = replicate 32 2\<rparr> 5 CLI_DEFAULT_FEE (5 + CLI_DEFAULT_FEE) = Some (Inr tx)"
    using sample_built by blast
  define X where "X = sample_ext\<lparr>bincode_tx_de := (\<lambda>_. Some tx)\<rparr>"
  have made: "build_transfer X sample_crypto counting_nova sample_rand 900 (replicate 32 1)
      \<lparr>pa_diversifier = replicate 11 0, pa_pk_d = replicate 32 2\<rparr> 5 CLI_DEFAULT_FEE (5 + CLI_DEFAULT_FEE) = Some (Inr tx)"
    and "bincode_tx_de X (bincode_tx X tx) = Some tx"
    using tx by (simp_all add: X_def)
  have "tx_fee tx = CLI_DEFAULT_FEE"
    using build_transfer_shape [OF made] by (simp add: wallet_shape_def)
  then have "tx_fee tx \<notin> set FEE_TIERS"
    by (simp add: CLI_DEFAULT_FEE_def FEE_TIERS_def)
  from insert_wrong_tier_refused [OF this, of X mem_sled "ss_db genesis_store" mempool_new]
  obtain e where "mempool_insert X mem_sled (ss_db genesis_store) tx mempool_new = (Inl e, mempool_new)"
    by blast
  then show ?thesis
    using cli_send_session [OF local.json_rpc_axioms plain_hex.hex_crate_axioms _ _ made \<open>bincode_tx_de X (bincode_tx X tx) = Some tx\<close>,
        where st = "sample_rpc genesis_store" and S = mem_sled and url = CLI_DEFAULT_RPC and to_text = "\<lambda>_. []" and rnd = "[]"
        and channel = 0 and reply = None]
    by (intro exI [of _ X]) (fastforce simp: sample_rpc_def rpc_start_def)
qed

end
