(* ===== verification/Validator_Void.thy ===== *)
theory Validator_Void
  imports Node
begin

text \<open>
  Who the validators of a running node are. The node reads its validators from the tree
  \<open>validators\<close> of the database (crates/noirnet-storage/src/state.rs, \<open>get_all_validators\<close>), and no
  operation of the program writes to it: what is not registered in the database a node is
  started on is never registered.
\<close>

section \<open>Trees the storage never writes\<close>

text \<open>The unused keys of a tree; an operation that leaves the tree alone keeps them all.\<close>

definition unset_keys :: "'db sled \<Rightarrow> string \<Rightarrow> 'db \<Rightarrow> bytes set" where
  "unset_keys S cf db = - dom (db_view S db cf)"

lemma unset_all: "unset_keys S cf db = UNIV \<longleftrightarrow> db_view S db cf = Map.empty"
  by (auto simp: unset_keys_def)

sublocale sled_db \<subseteq> validators: watched_keys S "unset_keys S CF_VALIDATORS"
  by unfold_locales (auto simp: unset_keys_def insert_view remove_view)

context sled_db
begin

lemma unset_apply_block:
  "grows (\<lambda>s. unset_keys S CF_VALIDATORS (ss_db s)) (apply_block X S b changes contracts)"
  by (rule validators.grows_apply_block)

lemma unset_prune_history: "grows (unset_keys S CF_VALIDATORS) (prune_history X S keep)"
  by (rule validators.grows_prune_history)

text \<open>An empty tree is scanned without an entry, so the set made of it is empty.\<close>

lemma no_validators:
  assumes "db_view S db CF_VALIDATORS = Map.empty"
  shows "get_validator_set X S epoch db = Inr (validator_set_new epoch [])"
proof -
  have "sled_scan_prefix S db CF_VALIDATORS [] = []"
    using scan_ok [of db CF_VALIDATORS "[]"] by (auto simp: assms if_distrib cong: if_cong)
  then show ?thesis
    by (simp add: get_validator_set_def get_all_validators_def open_ok)
qed

end

section \<open>The engine\<close>

text \<open>A round of an engine without validators: four votes count in full, and any vote is valid.\<close>

definition no_validator_round :: "round_vars \<Rightarrow> bool" where
  "no_validator_round rv \<longleftrightarrow> vset_is_empty (rv_val_set rv) \<and> rv_total_validators rv = 4"

definition validator_free :: "'db node_env \<Rightarrow> 'db engine \<Rightarrow> bool" where
  "validator_free E en \<longleftrightarrow> db_view (nd_sled E) (ss_db (en_store en)) CF_VALIDATORS = Map.empty"

lemma begin_without_validators:
  assumes "sled_db (nd_sled E)" "validator_free E en" "begin_height E now en = Some (rv, en')"
  shows "no_validator_round rv"
  using assms(2,3) sled_db.no_validators [OF assms(1)]
  by (auto simp: begin_height_def validator_free_def no_validator_round_def vset_is_empty_def validator_set_new_def
      Let_def split: prod.splits if_splits)

lemma cast_vote_validators [simp]:
  "rv_val_set (fst (cast_vote E h k s)) = rv_val_set (fst s)"
  "rv_total_validators (fst (cast_vote E h k s)) = rv_total_validators (fst s)"
  by (simp_all add: cast_vote_def split_beta Let_def split: option.split)

lemma turn_validators:
  assumes "engine_turn E now ev (rv, en) = Some (ctl, rv', en')"
  shows "rv_val_set rv' = rv_val_set rv" "rv_total_validators rv' = rv_total_validators rv"
proof -
  have blk: "rv_val_set (fst (handle_block E p b (rv, en))) = rv_val_set rv"
      "rv_total_validators (fst (handle_block E p b (rv, en))) = rv_total_validators rv" for p b
    by (simp_all add: handle_block_def split_beta Let_def)
  have vote: "rv_val_set (fst (snd (handle_vote E now v (rv, en)))) = rv_val_set rv"
      "rv_total_validators (fst (snd (handle_vote E now v (rv, en)))) = rv_total_validators rv" for v
    by (simp_all add: handle_vote_def split_beta Let_def split: option.split bft_phase.split)
  have sync: "fst (snd (handle_sync_response E now r (rv, en))) = rv" for r
    by (simp add: handle_sync_response_def split_beta Let_def split: option.split)
  have "rv_val_set rv' = rv_val_set rv \<and> rv_total_validators rv' = rv_total_validators rv"
  proof (cases ev)
    case (BlockArrived p b)
    then show ?thesis using assms blk [of p b] by (auto simp: engine_turn_def)
  next
    case (VoteArrived v)
    then show ?thesis using assms vote [of v] by (auto simp: engine_turn_def)
  next
    case (SyncAnswered p r)
    then show ?thesis using assms sync [of r] by (auto simp: engine_turn_def)
  qed (use assms in \<open>auto simp: engine_turn_def handle_timeout_def Let_def\<close>)
  then show "rv_val_set rv' = rv_val_set rv" "rv_total_validators rv' = rv_total_validators rv"
    by simp_all
qed

lemma execute_validator_free:
  assumes "sled_db (nd_sled E)" "validator_free E en"
  shows "validator_free E (execute_and_apply_block E now b en)"
  using execute_store [of E now b en] assms(2)
    grows_at [OF sled_db.unset_apply_block [OF assms(1)]]
  unfolding validator_free_def unset_all [symmetric] by fastforce

lemma synced_validator_free:
  assumes "sled_db (nd_sled E)"
  shows "validator_free E en \<Longrightarrow> validator_free E (apply_synced E now h bs en)"
  unfolding apply_synced_def
  by (induction bs arbitrary: en) (auto simp: execute_validator_free [OF assms])

lemma turn_validator_free:
  assumes "sled_db (nd_sled E)" "engine_turn E now ev (rv, en) = Some (ctl, rv', en')" "validator_free E en"
  shows "validator_free E en'"
proof -
  have same: "validator_free E en'" if "en_store en' = en_store en"
    using that assms(3) by (simp add: validator_free_def)
  show ?thesis
  proof (cases ev)
    case (BlockArrived p b)
    then have "en' = snd (handle_block E p b (rv, en))"
      using assms(2) by (auto simp: engine_turn_def)
    then show ?thesis
      by (intro same) (simp add: handle_block_shared)
  next
    case (VoteArrived v)
    then have turn: "handle_vote E now v (rv, en) = (ctl, rv', en')"
      using assms(2) by (simp add: engine_turn_def)
    show ?thesis
    proof (cases E now v rv en rule: handle_vote_cases)
      case (precommit s)
      then have "en' = snd (cast_vote E (vote_block_hash v) Precommit (rv\<lparr>rv_bft := s\<rparr>, en))"
        using turn by (metis prod.inject snd_conv)
      then show ?thesis
        by (intro same) simp
    qed (use turn assms(3) in \<open>auto intro: execute_validator_free [OF assms(1)]\<close>)
  next
    case (SyncRequested p req ch)
    then show ?thesis
      using assms(2) by (intro same) (auto simp: engine_turn_def handle_sync_request_def send_command_def Let_def)
  next
    case (SyncAnswered p res)
    have "en_store en' \<in> {en_store en, en_store (apply_synced E now (rv_height rv) (sres_blocks res) en)}"
      using assms(2) SyncAnswered
      by (auto simp: engine_turn_def handle_sync_response_def send_command_def Let_def
          split: prod.splits if_splits option.splits)
    then show ?thesis
      using same synced_validator_free [OF assms(1,3)] by (auto simp: validator_free_def)
  next
    case RoundTimeout
    then show ?thesis
      using assms(2) by (intro same) (auto simp: engine_turn_def handle_timeout_def Let_def record_slashing_event_def)
  qed
qed

section \<open>The node\<close>

definition lawless :: "'db node_env \<Rightarrow> 'db node \<Rightarrow> bool" where
  "lawless E nd \<longleftrightarrow> validator_free E (no_engine nd) \<and> no_validator_round (no_round nd)"

lemma receive_round: "receive arm nd = Some (ev, nd') \<Longrightarrow> no_round nd' = no_round nd"
  by (cases arm) (auto split: list.splits)

lemma deliver_round [simp]: "no_round (fold deliver ms nd) = no_round nd"
proof (induction ms arbitrary: nd)
  case (Cons m ms)
  have "no_round (deliver m nd) = no_round nd"
    by (cases m) simp_all
  then show ?case
    by (simp add: Cons.IH)
qed simp

lemma lawless_step:
  assumes "sled_db (nd_sled E)" "node_step E C H nd nd'" "lawless E nd"
  shows "lawless E nd'"
  using assms(2)
proof cases
  case Gossip
  then show ?thesis
    using assms(3) by (simp add: lawless_def)
next
  case Command
  then show ?thesis
    using assms(3) by (auto simp: command_task_def lawless_def validator_free_def split: prod.splits service_turn.splits)
next
  case Insert
  then show ?thesis
    using assms(3) by (auto simp: mempool_task_def Let_def lawless_def validator_free_def split: list.splits)
next
  case Request
  then show ?thesis
    using assms(3) by (simp add: rpc_task_def Let_def lawless_def validator_free_def rpc_start_def rpc_dispatch_shared(1))
next
  case Prune
  then show ?thesis
    using assms(3) grows_at [OF sled_db.unset_prune_history [OF assms(1)]]
    unfolding lawless_def validator_free_def unset_all [symmetric]
    by (fastforce simp: prune_task_def Let_def)
next
  case (Engine now arm)
  obtain ev nd1 rv en where rcv: "receive arm nd = Some (ev, nd1)"
    and step: "engine_run_step E now ev (no_round nd1, no_engine nd1) = Some (rv, en)"
    and nd': "no_engine nd' = en" "no_round nd' = rv"
    using Engine by (auto simp: engine_task_def split: option.splits)
  obtain ctl rv1 en1 where turn: "engine_turn E now ev (no_round nd, no_engine nd) = Some (ctl, rv1, en1)"
    using step receive_engine [OF rcv] receive_round [OF rcv] by (auto simp: engine_run_step_def split: option.splits)
  have free: "validator_free E en1"
    using turn_validator_free [OF assms(1) turn] assms(3) by (simp add: lawless_def)
  show ?thesis
  proof (cases ctl)
    case Continue
    then show ?thesis
      using step turn receive_engine [OF rcv] receive_round [OF rcv] free turn_validators [OF turn] assms(3)
      by (auto simp: engine_run_step_def lawless_def nd' no_validator_round_def)
  next
    case Break
    then have next_height: "begin_height E now en1 = Some (rv, en)"
      using step turn receive_engine [OF rcv] receive_round [OF rcv] by (simp add: engine_run_step_def)
    then show ?thesis
      using begin_without_validators [OF assms(1) free next_height] free begin_height_shared [OF next_height]
      by (simp add: lawless_def nd' validator_free_def)
  qed
qed

text \<open>
  C10: a node that starts without validators in its database never has any, whatever blocks,
  votes, downloads and requests it takes. At every moment of its run the set of validators is
  empty for every epoch, every vote is taken for valid whoever signed it or nobody, the round
  supposes four validators, and a node that was given a key takes itself for the leader of every
  round.
\<close>

theorem votes_are_never_checked:
  assumes "sled_db (nd_sled E)" "db_view (nd_sled E) (ss_db store) CF_VALIDATORS = Map.empty"
    and "node_start E store devnet sk now = Some nd0" "node_run E C H nd0 nd"
  shows "get_validator_set (nd_ext E) (nd_sled E) epoch (ss_db (en_store (no_engine nd))) = Inr (validator_set_new epoch []) \<and>
    vote_is_valid E (rv_val_set (no_round nd)) v \<and> rv_total_validators (no_round nd) = 4 \<and>
    is_leader (no_engine nd) (rv_val_set (no_round nd)) vrf epoch = en_is_validator (no_engine nd)"
proof -
  obtain validator rv en where start: "begin_height E now (engine_new store mempool_new validator \<lparr>ps_high = [], ps_low = []\<rparr>) = Some (rv, en)"
      "no_round nd0 = rv" "no_engine nd0 = en"
    using assms(3) by (auto simp: node_start_def Let_def)
  have "validator_free E (engine_new store mempool_new validator \<lparr>ps_high = [], ps_low = []\<rparr>)"
    using assms(2) by (simp add: validator_free_def engine_new_def)
  then have "lawless E nd0"
    using begin_without_validators [OF assms(1) _ start(1)] begin_height_shared [OF start(1)]
    by (simp add: lawless_def validator_free_def start(2,3))
  with assms(4) have "lawless E nd"
    by induction (auto intro: lawless_step [OF assms(1)])
  then show ?thesis
    using sled_db.no_validators [OF assms(1)]
    by (simp add: lawless_def validator_free_def no_validator_round_def vote_is_valid_def is_leader_def
        get_by_id_def vset_is_empty_def)
qed

theorem votes_are_never_checked_witness:
  "vote_is_valid sample_node (rv_val_set (no_round (prune_task sample_node
      (the (node_start sample_node (fresh_store mem_empty) False [] 0)))))
     \<lparr>vote_height = 1, vote_round = 0, vote_block_hash = [9], vote_kind = Precommit, vote_validator_id = [66], vote_signature = []\<rparr>"
proof -
  have "engine_new (fresh_store mem_empty) mempool_new None \<lparr>ps_high = [], ps_low = []\<rparr> = observer"
    by (simp add: observer_def sample_engine_def)
  then obtain nd0 where start: "node_start sample_node (fresh_store mem_empty) False [] 0 = Some nd0"
    by (simp add: node_start_def observer_begins)
  have "node_run sample_node sample_gossip_codec plain_hex nd0 (prune_task sample_node nd0)"
    by (intro r_into_rtranclp node_step.Prune)
  moreover have "sled_db (nd_sled sample_node)" "db_view (nd_sled sample_node) (ss_db (fresh_store mem_empty)) CF_VALIDATORS = Map.empty"
    by (simp_all add: sample_node_def mem.sled_db_axioms fresh_store_def mem_empty_def)
  ultimately show ?thesis
    using votes_are_never_checked [OF _ _ start] by (simp only: start option.sel)
qed

end
