(* ===== verification/Startup.thy ===== *)
theory Startup
  imports Validator_Void
begin

text \<open>
  The start of the node program: its arguments and \<open>main\<close> (src/bin/noirnet-node/src/main.rs) and the
  set-up of the network service (crates/noirnet-network/src/p2p.rs, \<open>NetworkService::new\<close>). What the
  service asks of libp2p is a record of settings; opening the database, building the swarm,
  listening and parsing addresses are parameters. Shown are what a restart keeps, and when a
  broadcast of one node arrives at another as what it was sent.
\<close>

section \<open>The network service\<close>

datatype network_error = NetP2p string | NetSerialization string | NetNotConnected

record swarm_config =
  sc_heartbeat_secs :: nat
  sc_strict_validation :: bool
  sc_topics :: "string list"
  sc_kad_server :: bool
  sc_identify_protocol :: string
  sc_ping_secs :: nat
  sc_sync_protocols :: "string list"
  sc_tcp_nodelay :: bool
  sc_max_negotiating_inbound :: nat
  sc_idle_timeout_secs :: nat

text \<open>The settings, the topics in the order of the calls to \<open>subscribe\<close>.\<close>

definition swarm_settings :: swarm_config where
  "swarm_settings =
     \<lparr>sc_heartbeat_secs = 3, sc_strict_validation = True,
      sc_topics = [''noirnet-txs'', ''noirnet-blocks'', ''noirnet-votes''],
      sc_kad_server = True, sc_identify_protocol = ''/noirnet/1.0.0'', sc_ping_secs = 30,
      sc_sync_protocols = [''/noirnet/sync/1.0.0''], sc_tcp_nodelay = True,
      sc_max_negotiating_inbound = 10, sc_idle_timeout_secs = 30\<rparr>"

text \<open>Decimal digits, as \<open>format!\<close> prints an unsigned integer.\<close>

fun decimal :: "nat \<Rightarrow> string" where
  "decimal n = (if n < 10 then [char_of (48 + n)] else decimal (n div 10) @ [char_of (48 + n mod 10)])"

declare decimal.simps [simp del]

text \<open>The operating system and libp2p, as far as the start depends on them.\<close>

record ('db, 'sw) host_env =
  he_create_dir_all :: "string \<Rightarrow> string + unit"
  he_open_db :: "string \<Rightarrow> string + 'db"
  he_build_swarm :: "swarm_config \<Rightarrow> 'sw option"
  he_parse_multiaddr :: "string \<Rightarrow> string + string"
  he_listen_on :: "string \<Rightarrow> 'sw \<Rightarrow> string + 'sw"
  he_parse_socket :: "string \<Rightarrow> bool"

text \<open>\<open>None\<close> is the panic of one of the \<open>expect\<close>s while the swarm is built.\<close>

definition network_new :: "('db, 'sw) host_env \<Rightarrow> 16 word \<Rightarrow> (network_error + 'sw) option" where
  "network_new E listen_port =
     (case he_build_swarm E swarm_settings of
        None \<Rightarrow> None
      | Some swarm \<Rightarrow> Some
          (case he_parse_multiaddr E (''/ip4/0.0.0.0/tcp/'' @ decimal (unat listen_port)) of
             Inl e \<Rightarrow> Inl (NetP2p (''invalid TCP: '' @ e))
           | Inr tcp_addr \<Rightarrow>
               (case he_listen_on E tcp_addr swarm of
                  Inl e \<Rightarrow> Inl (NetP2p (''TCP listen: '' @ e))
                | Inr swarm' \<Rightarrow> Inr swarm')))"

section \<open>The program\<close>

record node_args =
  na_data_dir :: string
  na_p2p_port :: "16 word"
  na_rpc_port :: "16 word"
  na_devnet :: bool
  na_bootnode :: "string option"

definition node_args_default :: node_args where
  "node_args_default =
     \<lparr>na_data_dir = ''./data'', na_p2p_port = 9000, na_rpc_port = 7777, na_devnet = False, na_bootnode = None\<rparr>"

definition path_join :: "string \<Rightarrow> string \<Rightarrow> string" where
  "path_join dir file = (if dir = [] \<or> last dir = CHR ''/'' then dir @ file else dir @ ''/'' @ file)"

datatype start_error = TelemetryFailed string | OpenDbFailed string | OpenStoreFailed storage_error | NetworkFailed network_error | BadRpcAddress

text \<open>Of the telemetry only the directory of the log files is created here and can fail.\<close>

definition setup_telemetry :: "('db, 'sw) host_env \<Rightarrow> string \<Rightarrow> string + unit" where
  "setup_telemetry H data_dir = he_create_dir_all H (path_join data_dir ''logs'')"

text \<open>
  \<open>main\<close> up to the first turn of the engine; the tasks it spawns are the steps of theory Node. The
  boot node is an argument nothing reads.
\<close>

definition node_main ::
  "('db, 'sw) host_env \<Rightarrow> 'db node_env \<Rightarrow> node_args \<Rightarrow> bytes \<Rightarrow> u64 \<Rightarrow> (start_error + 'db node) option" where
  "node_main H E args bls_sk now =
     (case setup_telemetry H (na_data_dir args) of
        Inl e \<Rightarrow> Some (Inl (TelemetryFailed e))
      | Inr _ \<Rightarrow>
          (case he_open_db H (path_join (na_data_dir args) ''rocksdb'') of
             Inl e \<Rightarrow> Some (Inl (OpenDbFailed e))
           | Inr db \<Rightarrow>
               (case state_open (nd_ext E) (nd_sled E) db of
                  Inl e \<Rightarrow> Some (Inl (OpenStoreFailed e))
                | Inr store \<Rightarrow>
                    (case network_new H (na_p2p_port args) of
                       None \<Rightarrow> None
                     | Some (Inl e) \<Rightarrow> Some (Inl (NetworkFailed e))
                     | Some (Inr swarm) \<Rightarrow>
                         (if \<not> he_parse_socket H (''0.0.0.0:'' @ decimal (unat (na_rpc_port args)))
                          then Some (Inl BadRpcAddress)
                          else map_option Inr (node_start E store (na_devnet args) bls_sk now))))))"

section \<open>Restarts\<close>

text \<open>Opening a database gives the store that wrote it, provided bincode decodes the frontier.\<close>

lemma state_open_represents:
  assumes "sled_db S" "represents X S store L"
    and "bincode_frontier_de X (bincode_frontier X (nct_frontier (ss_tree store))) = Some (nct_frontier (ss_tree store))"
  shows "state_open X S (ss_db store) = Inr store"
proof -
  have "store_holds X S store (lg_leaves L)"
    using assms(2) by (simp add: represents_def)
  then have "tree_open X S (ss_db store) = Inr (ss_tree store)"
    using assms(3)
    by (auto simp: store_holds_def tree_saved_def tree_open_def sled_db.cf_get_eq [OF assms(1)] empty_tree_def)
  then show ?thesis
    by (simp add: state_open_def)
qed

text \<open>
  The first height of an engine with an empty pool and empty queues: nothing is sent, except that
  a leader queues its proposal, a block without transactions.
\<close>

definition only_proposal :: "'db node_env \<Rightarrow> u64 \<Rightarrow> round_vars \<Rightarrow> 'db engine \<Rightarrow> bool" where
  "only_proposal E now rv en \<longleftrightarrow>
     is_leader en (rv_val_set rv) (pseudo_vrf (nd_ext E) (rv_height rv) 0) (rv_epoch rv) \<and>
     (\<exists>parent b. proposal_parent E (rv_height rv) (ss_db (en_store en)) = Some parent \<and>
        build_block (nd_ext E) (nd_sled E) [] (en_local_id en) parent now (rv_height rv) (en_store en) = Some b \<and>
        en_out en = \<lparr>ps_high = [], ps_low = [BroadcastBlock (bincode_block (nd_ext E) b)]\<rparr>)"

lemma start_commands:
  assumes "begin_height E now en = Some (rv, en')" "en_pool en = mempool_new" "en_out en = \<lparr>ps_high = [], ps_low = []\<rparr>"
    and "mset (nd_shuffle E []) = {#}"
  shows "en_out en' = \<lparr>ps_high = [], ps_low = []\<rparr> \<or> only_proposal E now rv en'"
proof -
  have none: "select_for_block X (nd_shuffle E) n gas mempool_new = []" for X n gas
    using assms(4) by (simp add: select_for_block_def mempool_new_def)
  show ?thesis
    using assms(1-3)
    by (auto simp: begin_height_def propose_def only_proposal_def Let_def none send_command_def priority_send_def is_leader_def
        split: prod.splits if_splits option.splits)
qed

text \<open>
  C27: a restarted node goes on where it stopped. Started on the database of a store that
  represents a ledger, the program holds the same store, so the same ledger with its spent
  nullifiers and its note tree, and works at the next height (height 1 when there are no blocks).
  Its pool and its receive channels are empty, so transactions that were not mined are gone; its
  command queues are empty too, or hold, if it leads that height, its proposal alone, a block
  without transactions.
\<close>

theorem restart_resumes:
  assumes "sled_db (nd_sled E)" "represents (nd_ext E) (nd_sled E) store L"
    and "bincode_frontier_de (nd_ext E) (bincode_frontier (nd_ext E) (nct_frontier (ss_tree store))) =
      Some (nct_frontier (ss_tree store))"
    and "he_open_db H (path_join (na_data_dir args) ''rocksdb'') = Inr (ss_db store)"
    and "node_main H E args bls_sk now = Some (Inr nd)"
    and "\<And>txs. mset (nd_shuffle E txs) = mset txs"
  shows "en_store (no_engine nd) = store \<and> represents (nd_ext E) (nd_sled E) (en_store (no_engine nd)) L \<and>
    rv_height (no_round nd) = (case lg_height L of None \<Rightarrow> 1 | Some h \<Rightarrow> h + 1) \<and>
    en_pool (no_engine nd) = mempool_new \<and> no_mempool_rx nd = [] \<and> no_block_rx nd = [] \<and> no_vote_rx nd = [] \<and>
    no_sync_req_rx nd = [] \<and> no_sync_res_rx nd = [] \<and>
    (en_out (no_engine nd) = \<lparr>ps_high = [], ps_low = []\<rparr> \<or> only_proposal E now (no_round nd) (no_engine nd))"
proof -
  have "node_start E store (na_devnet args) bls_sk now = Some nd"
    using assms(4,5) state_open_represents [OF assms(1-3)]
    by (auto simp: node_main_def split: option.splits sum.splits if_splits)
  then obtain validator rv en where nd: "begin_height E now (engine_new store mempool_new validator \<lparr>ps_high = [], ps_low = []\<rparr>) = Some (rv, en)"
      "no_round nd = rv" "no_engine nd = en" "no_mempool_rx nd = []" "no_block_rx nd = []" "no_vote_rx nd = []"
      "no_sync_req_rx nd = []" "no_sync_res_rx nd = []"
    by (auto simp: node_start_def Let_def)
  have "get_chain_height (nd_sled E) (ss_db store) = Inr (case lg_height L of None \<Rightarrow> 0 | Some h \<Rightarrow> h)"
    using sled_db.get_chain_height_eq [OF assms(1)] assms(2) unfolding represents_def by blast
  moreover have "en_store en = store" "en_pool en = mempool_new"
    using begin_height_shared [OF nd(1)] by (simp_all add: engine_new_def)
  moreover have "rv_height rv = unwrap_or (get_chain_height (nd_sled E) (ss_db store)) 0 + 1"
    using begin_height_store(3) [OF nd(1)] by (simp add: engine_new_def)
  moreover have "en_out en = \<lparr>ps_high = [], ps_low = []\<rparr> \<or> only_proposal E now rv en"
    using start_commands [OF nd(1)] assms(6) [of "[]"] by (simp add: engine_new_def)
  ultimately show ?thesis
    using nd(2-8) assms(2) by (auto split: option.split)
qed

section \<open>From one node to another\<close>

text \<open>A broadcast of one node, published under a topic of its table and taken up by another.\<close>

definition received_as :: "string list \<Rightarrow> limited_codec \<Rightarrow> network_command \<Rightarrow> node_message list option" where
  "received_as topics C cmd =
     (case handle_command topics 0 cmd of
        Some (Publish topic payload) \<Rightarrow> Some (handle_swarm_event C (GossipMessage topic payload))
      | _ \<Rightarrow> None)"

text \<open>
  Broadcasts arrive as what they are exactly if gossipsub lists the topics in the order of
  subscription. The service takes the first topic of its table for transactions, the second for
  blocks and the third for votes; the order of that table is the library's own.
  For any other order of the three topics some broadcast is taken up as something else or not at
  all, even with a codec that decodes everything.
\<close>

theorem broadcasts_need_subscription_order:
  assumes "mset topics = mset (sc_topics swarm_settings)"
    and "lc_tx C tb = Some tx" "lc_block C bb = Some b" "lc_vote C vb = Some v"
    and "length tb \<le> 10485760" "length bb \<le> 10485760" "length vb \<le> 10485760"
  shows "(received_as topics C (BroadcastTx tb) = Some [ToMempool tx] \<and>
      received_as topics C (BroadcastBlock bb) = Some [ToConsensus b] \<and>
      received_as topics C (BroadcastVote vb) = Some [ToVotes v]) \<longleftrightarrow> topics = sc_topics swarm_settings"
proof -
  have len: "length topics = 3"
    using mset_eq_length [OF assms(1)] by (simp add: swarm_settings_def)
  then obtain t0 t1 t2 where ts: "topics = [t0, t1, t2]"
    by (auto simp: numeral_eq_Suc length_Suc_conv)
  have tx: "received_as topics C (BroadcastTx tb) = Some [ToMempool tx] \<longleftrightarrow> t0 = ''noirnet-txs''"
    using assms(2,5) by (auto simp: ts received_as_def handle_command_def nth_topic_def handle_swarm_event_def
        unat_MAX_P2P_MESSAGE_SIZE split: option.splits if_splits)
  have blk: "received_as topics C (BroadcastBlock bb) = Some [ToConsensus b] \<longleftrightarrow> t1 = ''noirnet-blocks''"
    using assms(3,6) by (auto simp: ts received_as_def handle_command_def nth_topic_def handle_swarm_event_def
        unat_MAX_P2P_MESSAGE_SIZE split: option.splits if_splits)
  have vote: "received_as topics C (BroadcastVote vb) = Some [ToVotes v] \<longleftrightarrow> t2 = ''noirnet-votes''"
    using assms(4,7) by (auto simp: ts received_as_def handle_command_def nth_topic_def handle_swarm_event_def
        unat_MAX_P2P_MESSAGE_SIZE split: option.splits if_splits)
  show ?thesis
    unfolding tx blk vote by (simp add: ts swarm_settings_def)
qed

section \<open>Concrete starts\<close>

text \<open>A host that opens one given database and accepts every address.\<close>

definition plain_host :: "'db \<Rightarrow> ('db, unit) host_env" where
  "plain_host db =
     \<lparr>he_create_dir_all = (\<lambda>path. Inr ()), he_open_db = (\<lambda>path. Inr db), he_build_swarm = (\<lambda>cfg. Some ()), he_parse_multiaddr = (\<lambda>a. Inr a),
      he_listen_on = (\<lambda>a sw. Inr sw), he_parse_socket = (\<lambda>a. True)\<rparr>"

definition frontier_codec :: ext where
  "frontier_codec = sample_ext\<lparr>bincode_frontier_de := (\<lambda>_. Some (nct_frontier (ss_tree genesis_store)))\<rparr>"

definition frontier_node :: "mem_db node_env" where
  "frontier_node = sample_node\<lparr>nd_ext := frontier_codec\<rparr>"

lemma frontier_codec_simps:
  "hash_pair frontier_codec = hash_pair sample_ext" "bincode_frontier frontier_codec = bincode_frontier sample_ext"
  "bincode_block frontier_codec = bincode_block sample_ext" "bincode_tx frontier_codec = bincode_tx sample_ext"
  "bincode_frontier_de frontier_codec bs = Some (nct_frontier (ss_tree genesis_store))"
  by (simp_all add: fun_eq_iff hash_pair_def frontier_codec_def)

lemma frontier_codec_represents: "represents frontier_codec mem_sled genesis_store genesis_ledger"
  using genesis_represents
  unfolding represents_def store_holds_def tree_holds_def tree_saved_def ledger_trees_def frontier_codec_simps .

lemma genesis_without_validators: "db_view mem_sled (ss_db genesis_store) CF_VALIDATORS = Map.empty"
proof -
  have "unset_keys mem_sled CF_VALIDATORS (ss_db (fresh_store mem_empty)) \<subseteq>
      unset_keys mem_sled CF_VALIDATORS (ss_db genesis_store)"
    unfolding genesis_store_def by (rule grows_at [OF mem.unset_apply_block])
  moreover have "unset_keys mem_sled CF_VALIDATORS (ss_db (fresh_store mem_empty)) = UNIV"
    by (simp add: unset_keys_def fresh_store_def mem_empty_def)
  ultimately show ?thesis
    unfolding unset_all [symmetric] by blast
qed

lemma observer_begins_height:
  assumes "sled_db (nd_sled E)" "validator_free E en" "\<not> en_is_validator en"
  shows "begin_height E now en \<noteq> None"
  using assms sled_db.no_validators [OF assms(1)]
  by (simp add: begin_height_def validator_free_def is_leader_def vset_is_empty_def validator_set_new_def Let_def
      split: prod.split)

theorem restart_resumes_witness:
  "\<exists>nd. node_main (plain_host (ss_db genesis_store)) frontier_node node_args_default [] 0 = Some (Inr nd) \<and>
     rv_height (no_round nd) = 1 \<and> en_store (no_engine nd) = genesis_store"
proof -
  have env: "nd_ext frontier_node = frontier_codec" "nd_sled frontier_node = mem_sled"
    by (simp_all add: frontier_node_def sample_node_def)
  have "begin_height frontier_node 0 (engine_new genesis_store mempool_new None \<lparr>ps_high = [], ps_low = []\<rparr>) \<noteq> None"
    by (rule observer_begins_height)
      (simp_all add: env mem.sled_db_axioms validator_free_def engine_new_def genesis_without_validators [simplified])
  then obtain nd where nd: "node_start frontier_node genesis_store False [] 0 = Some nd"
    by (auto simp: node_start_def)
  have opened: "state_open frontier_codec mem_sled (ss_db genesis_store) = Inr genesis_store"
    by (rule state_open_represents [OF mem.sled_db_axioms frontier_codec_represents])
      (simp add: frontier_codec_simps)
  have main: "node_main (plain_host (ss_db genesis_store)) frontier_node node_args_default [] 0 = Some (Inr nd)"
    by (simp add: node_main_def setup_telemetry_def plain_host_def network_new_def node_args_default_def env opened nd)
  have "lg_height genesis_ledger = Some 0"
    by (simp add: genesis_ledger_def sample_block_lists)
  with main restart_resumes [where E = frontier_node and L = genesis_ledger, OF _ _ _ _ main, of genesis_store]
  show ?thesis
    by (simp add: frontier_node_def sample_node_def env mem.sled_db_axioms frontier_codec_represents frontier_codec_simps plain_host_def)
qed

definition three_way_codec :: limited_codec where
  "three_way_codec = \<lparr>lc_tx = (\<lambda>_. Some (sample_tx 1)), lc_block = (\<lambda>_. Some (sample_block 1 [])),
     lc_vote = (\<lambda>_. Some (hd (ballots Prevote)))\<rparr>"

theorem broadcasts_need_subscription_order_witness:
  "received_as [''noirnet-txs'', ''noirnet-blocks'', ''noirnet-votes''] three_way_codec (BroadcastVote [7]) =
     Some [ToVotes (hd (ballots Prevote))]"
  using broadcasts_need_subscription_order [of "sc_topics swarm_settings" three_way_codec "[7]" _ "[7]" _ "[7]", OF refl]
  by (simp add: three_way_codec_def) (simp add: swarm_settings_def)

end
