(* ===== verification/Crash.thy ===== *)
theory Crash
  imports Startup
begin

text \<open>
  What a node finds after it died in the middle of applying a block. Nothing in state.rs groups the
  writes of \<open>apply_block\<close> into a transaction, so the database keeps those made before: sled recovers
  a prefix of the writes. A database that dies after a number of writes gives every such prefix.
\<close>

section \<open>A database that dies\<close>

definition mortal_sled :: "'db sled \<Rightarrow> ('db \<times> nat) sled" where
  "mortal_sled S = \<lparr>
     sled_open = (\<lambda>(db, n) t. sled_open S db t),
     sled_get = (\<lambda>(db, n) t k. sled_get S db t k),
     sled_insert = (\<lambda>(db, n) t k v.
       if n = 0 then (Inl ''crash'', db, n) else (case sled_insert S db t k v of (r, db') \<Rightarrow> (r, db', n - 1))),
     sled_remove = (\<lambda>(db, n) t k.
       if n = 0 then (Inl ''crash'', db, n) else (case sled_remove S db t k of (r, db') \<Rightarrow> (r, db', n - 1))),
     sled_scan_prefix = (\<lambda>(db, n) t p. sled_scan_prefix S db t p)\<rparr>"

definition mortal_store :: "nat \<Rightarrow> 'db state_store \<Rightarrow> ('db \<times> nat) state_store" where
  "mortal_store n s = \<lparr>ss_db = (ss_db s, n), ss_tree = ss_tree s\<rparr>"

lemma mortal_simps:
  "sled_open (mortal_sled S) (db, n) t = sled_open S db t"
  "sled_get (mortal_sled S) (db, n) t k = sled_get S db t k"
  "sled_insert (mortal_sled S) (db, Suc n) t k v = (case sled_insert S db t k v of (r, db') \<Rightarrow> (r, db', n))"
  "sled_remove (mortal_sled S) (db, Suc n) t k = (case sled_remove S db t k of (r, db') \<Rightarrow> (r, db', n))"
  "sled_insert (mortal_sled S) (db, 0) t k v = (Inl ''crash'', db, 0)"
  "sled_remove (mortal_sled S) (db, 0) t k = (Inl ''crash'', db, 0)"
  by (simp_all add: mortal_sled_def)

lemma mortal_get: "cf_get (mortal_sled S) cf k (db, n) = cf_get S cf k db"
  by (simp add: cf_get_def mortal_simps split: sum.split)

lemma mortal_reads:
  "get_chain_height (mortal_sled S) (db, n) = get_chain_height S db"
  "has_blocks (mortal_sled S) (db, n) = has_blocks S db"
  "nullifier_contains (mortal_sled S) nf (db, n) = nullifier_contains S nf db"
  by (simp_all add: get_chain_height_def has_blocks_def nullifier_contains_def mortal_get)

text \<open>
  Spent nullifiers survive the death, a dead database does not change, and no validator appears.
\<close>

sublocale sled_db \<subseteq> mortal: watched_keys "mortal_sled S" "\<lambda>(db, n). db_spent S db"
proof (unfold_locales, goal_cases)
  case (1 cf db k v)
  then show ?case
    using spent.insert_watched [of cf "fst db" k v]
    by (cases db; cases "snd db") (auto simp: mortal_simps split: prod.split)
next
  case (2 cf db k)
  then show ?case
    using spent.remove_watched [of cf "fst db" k]
    by (cases db; cases "snd db") (auto simp: mortal_simps split: prod.split)
qed

sublocale sled_db \<subseteq> dead: watched_keys "mortal_sled S" "\<lambda>s. if s = (db, 0) then UNIV else {}" for db
  by unfold_locales (auto simp: mortal_simps)

sublocale sled_db \<subseteq> mortal_validators: watched_keys "mortal_sled S" "\<lambda>(db, n). unset_keys S CF_VALIDATORS db"
proof (unfold_locales, goal_cases)
  case (1 cf db k v)
  then show ?case
    using validators.insert_watched [of cf "fst db" k v]
    by (cases db; cases "snd db") (auto simp: mortal_simps split: prod.split)
next
  case (2 cf db k)
  then show ?case
    using validators.remove_watched [of cf "fst db" k]
    by (cases db; cases "snd db") (auto simp: mortal_simps split: prod.split)
qed

context sled_db
begin

lemma mortal_watched: "watched_keys (mortal_sled S) (\<lambda>(db, n). db_spent S db)"
  by (rule mortal.watched_keys_axioms)

lemma dead_watched: "watched_keys (mortal_sled S) (\<lambda>s. if s = (db, 0) then UNIV else {})"
  by (rule dead.watched_keys_axioms)

end

section \<open>Dying while a block is applied\<close>

lemma andThen_grown:
  assumes "k \<in> f (snd (m s))" "\<And>a. grows f (g a)"
  shows "k \<in> f (snd (andThen m g s))"
  using assms growsD [OF assms(2), of k "snd (m s)"] by (cases "fst (m s)") (auto simp: andThen_Inr andThen_Inl)

text \<open>
  Up to its death a mortal database does what the original does: an operation on it uses up some
  number of writes and leaves the rest.
\<close>

definition replays :: "(nat \<Rightarrow> 's \<Rightarrow> 't) \<Rightarrow> ('t, 'e, 'a) fallible \<Rightarrow> ('s, 'e, 'a) fallible \<Rightarrow> bool" where
  "replays alive m' m \<longleftrightarrow> (\<forall>s. \<exists>k. \<forall>n. m' (alive (k + n) s) = (fst (m s), alive n (snd (m s))))"

named_theorems replays_intros \<open>operations that use up some writes\<close>

lemma replays_ok [replays_intros]: "replays alive (ok a) (ok a)"
  by (auto simp: replays_def intro!: exI [of _ 0])

lemma replays_err [replays_intros]: "replays alive (err e) (err e)"
  by (auto simp: replays_def intro!: exI [of _ 0])

lemma replays_reading [replays_intros]:
  "(\<And>n s. g' (alive n s) = g s) \<Longrightarrow> replays alive (reading g') (reading g)"
  by (auto simp: replays_def intro!: exI [of _ 0])

lemma replays_andThen [replays_intros]:
  assumes "replays alive m' m" "\<And>a. replays alive (f' a) (f a)"
  shows "replays alive (andThen m' f') (andThen m f)"
  unfolding replays_def
proof
  fix s
  obtain k where k: "\<And>n. m' (alive (k + n) s) = (fst (m s), alive n (snd (m s)))"
    using assms(1) by (auto simp: replays_def)
  show "\<exists>k. \<forall>n. andThen m' f' (alive (k + n) s) = (fst (andThen m f s), alive n (snd (andThen m f s)))"
  proof (cases "fst (m s)")
    case (Inl e)
    then show ?thesis
      by (intro exI [of _ k]) (simp add: andThen_def [of m'] andThen_Inl k)
  next
    case (Inr a)
    obtain l where "\<And>n. f' a (alive (l + n) (snd (m s))) = (fst (f a (snd (m s))), alive n (snd (f a (snd (m s)))))"
      using assms(2) [of a] by (auto simp: replays_def)
    then show ?thesis
      using k by (intro exI [of _ "k + l"]) (simp add: andThen_def [of m'] andThen_Inr Inr add.assoc)
  qed
qed

lemma replays_forEach [replays_intros]: "(\<And>x. replays alive (f' x) (f x)) \<Longrightarrow> replays alive (forEach f' xs) (forEach f xs)"
  by (induction xs) (auto intro: replays_intros)

lemma replays_if [replays_intros]:
  "replays alive m' m \<Longrightarrow> replays alive n' n \<Longrightarrow> replays alive (if c then m' else n') (if c then m else n)"
  by simp

lemma replays_at: "replays alive m' m \<Longrightarrow> \<exists>k. \<forall>n. m' (alive (k + n) s) = (fst (m s), alive n (snd (m s)))"
  by (simp add: replays_def)

lemma replays_insert [replays_intros]:
  "replays (\<lambda>n db. (db, n)) (tree_insert (mortal_sled S) cf k v) (tree_insert S cf k v)"
  unfolding replays_def by (intro allI exI [of _ 1]) (simp add: tree_insert_def mortal_simps split: prod.split)

lemma replays_open [replays_intros]:
  "replays (\<lambda>n db. (db, n)) (open_tree (mortal_sled S) cf) (open_tree S cf)"
  unfolding replays_def by (intro allI exI [of _ 0]) (simp add: open_tree_def mortal_simps)

lemma replays_put [replays_intros]:
  "replays (\<lambda>n db. (db, n)) (cf_put (mortal_sled S) cf k v) (cf_put S cf k v)"
  by (simp add: cf_put_def replays_intros)

lemma replays_on_db [replays_intros]:
  fixes m :: "('db, 'a) storage_op"
  assumes "replays (\<lambda>n db. (db, n)) m' m"
  shows "replays mortal_store (on_db m') (on_db m)"
  unfolding replays_def
proof
  fix s :: "'db state_store"
  obtain k where "\<And>n. m' (ss_db s, k + n) = (fst (m (ss_db s)), snd (m (ss_db s)), n)"
    using assms unfolding replays_def by blast
  then show "\<exists>k. \<forall>n. on_db m' (mortal_store (k + n) s) = (fst (on_db m s), mortal_store n (snd (on_db m s)))"
    by (intro exI [of _ k]) (simp add: on_db_def mortal_store_def split_beta)
qed

lemma replays_set_tree [replays_intros]: "replays mortal_store (set_tree t) (set_tree t)"
  unfolding replays_def by (intro allI exI [of _ 0]) (simp add: set_tree_def mortal_store_def)

lemma replays_apply_spend [replays_intros]: "replays mortal_store (apply_spend (mortal_sled S) h nf) (apply_spend S h nf)"
  by (auto simp: apply_spend_def mortal_store_def mortal_reads intro!: replays_intros)

lemma replays_tree_append [replays_intros]: "replays mortal_store (tree_append X (mortal_sled S) c) (tree_append X S c)"
  unfolding replays_def tree_append_def Let_def
  by (rule allI, simp only: mortal_store_def state_store.simps, fold mortal_store_def)
    (rule replays_at, intro replays_intros)

lemma replays_apply_output [replays_intros]: "replays mortal_store (apply_output X (mortal_sled S) c) (apply_output X S c)"
  unfolding replays_def apply_output_def Let_def
  by (rule allI, simp only: mortal_store_def state_store.simps, fold mortal_store_def)
    (rule replays_at, intro replays_intros)

lemma replays_apply_tx [replays_intros]: "replays mortal_store (apply_tx X (mortal_sled S) h tx) (apply_tx X S h tx)"
  by (auto simp: apply_tx_def intro!: replays_intros)

text \<open>The transactions of a block around one of its spends.\<close>

definition until_spend :: "ext \<Rightarrow> 'db sled \<Rightarrow> u64 \<Rightarrow> transaction list \<Rightarrow> spend_description list \<Rightarrow> ('db state_store, unit) storage_op" where
  "until_spend X S h txs sps = andThen (forEach (apply_tx X S h) txs)
     (\<lambda>_. forEach (\<lambda>sp. apply_spend S h (sd_nullifier sp)) sps)"

definition after_spend ::
  "ext \<Rightarrow> 'db sled \<Rightarrow> u64 \<Rightarrow> spend_description list \<Rightarrow> transaction \<Rightarrow> transaction list \<Rightarrow> ('db state_store, unit) storage_op" where
  "after_spend X S h sps tx txs = andThen (forEach (\<lambda>sp. apply_spend S h (sd_nullifier sp)) sps) (\<lambda>_.
     andThen (forEach (\<lambda>out. apply_output X S (od_note_commitment out)) (tx_outputs tx)) (\<lambda>_.
     forEach (apply_tx X S h) txs))"

lemma andThen_assoc: "andThen (andThen m f) g = andThen m (\<lambda>a. andThen (f a) g)"
  by (auto simp: fun_eq_iff andThen_def split: prod.splits sum.splits)

lemma around_spend:
  assumes "tx_spends tx = sps1 @ sp # sps2"
  shows "forEach (apply_tx X S h) (txs1 @ tx # txs2) =
    andThen (until_spend X S h txs1 sps1) (\<lambda>_. andThen (apply_spend S h (sd_nullifier sp)) (\<lambda>_. after_spend X S h sps2 tx txs2))"
  by (simp add: forEach_append until_spend_def after_spend_def apply_tx_def [of X S h tx] assms andThen_assoc)

lemma grows_after_spend:
  assumes "watched_keys S W"
  shows "grows (\<lambda>s. W (ss_db s)) (after_spend X S h sps tx txs)"
  unfolding after_spend_def
  by (intro grows_andThen grows_forEach watched_keys.grows_apply_tx [OF assms] watched_keys.grows_apply_spend [OF assms]
      watched_keys.grows_apply_output [OF assms])

context sled_db
begin

text \<open>Before that spend its nullifier is not recorded, and the chain is as it was.\<close>

lemma unspent_until_spend:
  assumes "apply_block X S b changes contracts s = (Inr root1, s2)"
    and "blk_transactions b = txs1 @ tx # txs2" "tx_spends tx = sps1 @ sp # sps2"
  obtains s1 where "until_spend X S (bh_height (blk_header b)) txs1 sps1 s = (Inr (), s1)"
    and "nullifier_contains S (sd_nullifier sp) (ss_db s1) = Inr False"
proof -
  have "\<exists>s2. forEach (apply_tx X S (bh_height (blk_header b))) (blk_transactions b) s = (Inr (), s2)"
    using assms(1) unfolding apply_block_def Let_def andThen_eq_Inr
    by (auto simp: err_def on_db_def open_tree_def andThen_eq_Inr split: if_split_asm)
  then show thesis
    using that unfolding assms(2) around_spend [OF assms(3)] andThen_eq_Inr apply_spend_def
    by (auto simp: err_def split: if_split_asm)
qed

lemma insert_keeps_meta: "cf \<noteq> CF_META \<Longrightarrow> grows (\<lambda>db. if db_view S db CF_META = m then UNIV else {}) (tree_insert S cf k v)"
  by (simp add: grows_def tree_insert_eq after_insert_view)

lemma until_spend_keeps_meta:
  assumes "until_spend X S h txs sps s = (Inr (), s1)"
  shows "db_view S (ss_db s1) CF_META = db_view S (ss_db s) CF_META"
proof -
  let ?f = "\<lambda>db. if db_view S db CF_META = db_view S (ss_db s) CF_META then UNIV else ({} :: bytes set)"
  note meta = insert_keeps_meta [of _ "db_view S (ss_db s) CF_META"]
  have put: "cf \<noteq> CF_META \<Longrightarrow> grows ?f (cf_put S cf k v)" for cf k v
    by (simp add: grows_def cf_put_eq after_insert_view)
  have spend: "grows (\<lambda>s. ?f (ss_db s)) (apply_spend S h nf)" for nf
    unfolding apply_spend_def by (intro grows_intros meta) (simp_all add: cf_names)
  have append: "grows (\<lambda>s. ?f (ss_db s)) (tree_append X S c)" for c
    unfolding grows_def tree_append_def Let_def
    by (rule allI, rule grows_at, intro grows_intros put) (simp_all add: cf_names)
  have out: "grows (\<lambda>s. ?f (ss_db s)) (apply_output X S c)" for c
    unfolding grows_def apply_output_def Let_def
    by (rule allI, rule grows_at, intro grows_intros append meta) (simp_all add: cf_names)
  have "grows (\<lambda>s. ?f (ss_db s)) (until_spend X S h txs sps)"
    unfolding until_spend_def apply_tx_def by (intro grows_intros spend out)
  from grows_at [OF this, of s] show ?thesis
    by (simp add: assms split: if_splits)
qed

text \<open>
  Some number of writes into an accepted block the nullifier of a given spend is recorded;
  whatever a watched set holds after this write it holds when the application ends or dies.
\<close>

lemma after_recording:
  assumes "watched_keys (mortal_sled S) W"
    and "apply_block X S b changes contracts s = (Inr root1, s2)"
    and "blk_transactions b = txs1 @ tx # txs2" "tx_spends tx = sps1 @ sp # sps2"
    and "until_spend X (mortal_sled S) (bh_height (blk_header b)) txs1 sps1 (mortal_store m s) = (Inr (), mortal_store (Suc n) s1)"
    and "nullifier_contains S (sd_nullifier sp) (ss_db s1) = Inr False"
    and "x \<in> W (after_insert S CF_NULLIFIERS (sd_nullifier sp) (u64_to_le (bh_height (blk_header b))) (ss_db s1), n)"
  shows "x \<in> W (ss_db (snd (apply_block X (mortal_sled S) b changes contracts (mortal_store m s))))"
proof -
  let ?M = "mortal_sled S" and ?h = "bh_height (blk_header b)" and ?s = "mortal_store m s"
  let ?f = "\<lambda>s. W (ss_db s)"
  obtain c has where reads: "get_chain_height S (ss_db s) = Inr c" "has_blocks S (ss_db s) = Inr has"
      "?h = (if \<not> has then 0 else c + 1)"
    using assms(2) unfolding apply_block_def Let_def andThen_eq_Inr
    by (auto simp: err_def split: if_split_asm)
  note grown = grows_after_spend [OF assms(1)] grows_on_db [OF watched_keys.grows_commit_block [OF assms(1)]]
  have "x \<in> ?f (snd (apply_spend ?M ?h (sd_nullifier sp) (mortal_store (Suc n) s1)))"
    using assms(6,7)
    by (simp add: apply_spend_def andThen_def mortal_store_def mortal_reads on_db_def tree_insert_def mortal_simps
        after_insert_def split_beta)
  then have "x \<in> ?f (snd (andThen (apply_spend ?M ?h (sd_nullifier sp)) (\<lambda>_. after_spend X ?M ?h sps2 tx txs2) (mortal_store (Suc n) s1)))"
    by (intro andThen_grown [where f = ?f] grown)
  then have "x \<in> ?f (snd (forEach (apply_tx X ?M ?h) (blk_transactions b) ?s))"
    unfolding assms(3) around_spend [OF assms(4)] using assms(5) by (simp add: andThen_ok)
  then have "x \<in> ?f (snd (andThen (forEach (apply_tx X ?M ?h) (blk_transactions b)) (\<lambda>_.
      andThen (reading (\<lambda>s. Inr (tree_root X (ss_tree s)))) (\<lambda>new_state_root.
      andThen (on_db (commit_block X ?M b changes contracts new_state_root)) (\<lambda>_. ok new_state_root))) ?s))"
    by (intro andThen_grown [where f = ?f] grows_intros grown)
  then show ?thesis
    using reads
    by (simp add: apply_block_def Let_def andThen_def [of "reading _"] andThen_def [of "on_db (open_tree _ _)"] mortal_store_def
        mortal_reads on_db_def open_tree_def mortal_simps open_ok sled_result_def)
qed

text \<open>
  So there is a number of writes that leaves the nullifier recorded and the height as it was, and
  with any larger number the nullifier is recorded too.
\<close>

lemma recording_write:
  assumes "fst (apply_block X S b changes contracts s) = Inr root1" "nf \<in> set (block_nullifiers b)"
  obtains n0 where "0 < n0"
    and "\<And>n. n0 \<le> n \<Longrightarrow> nf \<in> db_spent S (fst (ss_db (snd (apply_block X (mortal_sled S) b changes contracts (mortal_store n s)))))"
    and "get_chain_height S (fst (ss_db (snd (apply_block X (mortal_sled S) b changes contracts (mortal_store n0 s))))) =
      get_chain_height S (ss_db s)"
proof -
  let ?M = "mortal_sled S" and ?h = "bh_height (blk_header b)"
  obtain s2 where run: "apply_block X S b changes contracts s = (Inr root1, s2)"
    using assms(1) by (cases "apply_block X S b changes contracts s") simp
  obtain tx sp where "tx \<in> set (blk_transactions b)" "sp \<in> set (tx_spends tx)" and nf: "nf = sd_nullifier sp"
    using assms(2) by (auto simp: block_nullifiers_def tx_nullifiers_def)
  then obtain txs1 txs2 sps1 sps2 where split: "blk_transactions b = txs1 @ tx # txs2" "tx_spends tx = sps1 @ sp # sps2"
    by (metis split_list)
  obtain s1 where s1: "until_spend X S ?h txs1 sps1 s = (Inr (), s1)" "nullifier_contains S nf (ss_db s1) = Inr False"
    using unspent_until_spend [OF run split] nf by blast
  have "replays mortal_store (until_spend X ?M ?h txs1 sps1) (until_spend X S ?h txs1 sps1)"
    unfolding until_spend_def by (intro replays_intros)
  then obtain k where k: "\<And>n. until_spend X ?M ?h txs1 sps1 (mortal_store (k + n) s) = (Inr (), mortal_store n s1)"
    using replays_at [of mortal_store "until_spend X ?M ?h txs1 sps1" "until_spend X S ?h txs1 sps1" s] by (auto simp: s1)
  let ?rec = "after_insert S CF_NULLIFIERS nf (u64_to_le ?h) (ss_db s1)"
  note after = after_recording [OF _ run split k s1(2) [unfolded nf], folded nf]
  have "nf \<in> db_spent S ?rec"
    by (simp add: db_spent_def after_insert_view)
  then have spent: "nf \<in> db_spent S (fst (ss_db (snd (apply_block X ?M b changes contracts (mortal_store (k + Suc n) s)))))" for n
    using after [OF mortal_watched, of nf n] by (simp add: split_beta)
  have "ss_db (snd (apply_block X ?M b changes contracts (mortal_store (k + Suc 0) s))) = (?rec, 0)"
    using after [OF dead_watched [of ?rec], of "[]" 0] by (auto split: if_splits)
  then have "get_chain_height S (fst (ss_db (snd (apply_block X ?M b changes contracts (mortal_store (k + Suc 0) s))))) =
      get_chain_height S (ss_db s)"
    using until_spend_keeps_meta [OF s1(1)]
    by (simp add: get_chain_height_def cf_get_eq after_insert_view cf_names)
  moreover have "nf \<in> db_spent S (fst (ss_db (snd (apply_block X ?M b changes contracts (mortal_store n s)))))"
    if "k + Suc 0 \<le> n" for n
    using spent [of "n - Suc k"] that by simp
  ultimately show thesis
    by (intro that [of "k + Suc 0"]) simp_all
qed

end

text \<open>
  C13: a crash while a block is applied shuts the node out of the chain. Let an acceptable block
  spend a note, in whichever of its transactions. From some number of writes on - at which the
  height in the database is still the one before the block - a node that dies while applying it
  and is restarted on what the database holds refuses this block, and every other block that
  spends the same note, for as long as it runs, whatever contract changes come with it.
\<close>

theorem crash_during_block_is_fatal:
  assumes "sled_db (nd_sled E)"
    and "fst (apply_block (nd_ext E) (nd_sled E) b changes contracts s) = Inr root1"
    and "nf \<in> set (block_nullifiers b)"
    and "\<And>n. died n = fst (ss_db (snd (apply_block (nd_ext E) (mortal_sled (nd_sled E)) b changes contracts (mortal_store n s))))"
  shows "\<exists>n0 > 0. get_chain_height (nd_sled E) (died n0) = get_chain_height (nd_sled E) (ss_db s) \<and>
    (\<forall>n store devnet sk now nd0 C H nd b' changes' contracts'.
       n0 \<le> n \<and> state_open (nd_ext E) (nd_sled E) (died n) = Inr store \<and>
       node_start E store devnet sk now = Some nd0 \<and> node_run E C H nd0 nd \<and> nf \<in> set (block_nullifiers b') \<longrightarrow>
       (\<exists>e. fst (apply_block (nd_ext E) (nd_sled E) b' changes' contracts' (en_store (no_engine nd))) = Inl e))"
proof -
  let ?S = "nd_sled E"
  obtain n0 where n0: "0 < n0" "\<And>n. n0 \<le> n \<Longrightarrow> nf \<in> db_spent ?S (died n)"
      "get_chain_height ?S (died n0) = get_chain_height ?S (ss_db s)"
    unfolding assms(4) by (rule sled_db.recording_write [OF assms(1-3)]) blast
  have "\<exists>e. fst (apply_block (nd_ext E) ?S b' changes' contracts' (en_store (no_engine nd))) = Inl e"
    if died: "n0 \<le> n" "state_open (nd_ext E) ?S (died n) = Inr store"
      and nd: "node_start E store devnet sk now = Some nd0" "node_run E C H nd0 nd" and b': "nf \<in> set (block_nullifiers b')"
    for n store devnet sk now nd0 C H nd b' changes' contracts'
  proof -
    have "ss_db store = died n"
      using died(2) by (auto simp: state_open_def split: sum.splits)
    moreover have "en_store (no_engine nd0) = store"
      using nd(1) by (auto simp: node_start_def engine_new_def Let_def dest!: begin_height_shared)
    ultimately have "nf \<in> store_spent ?S (en_store (no_engine nd))"
      using node_run_spent [OF assms(1) nd(2)] n0(2) [OF died(1)] by auto
    then show ?thesis
      by (rule sled_db.apply_block_refuses_spent [OF assms(1) _ b'])
  qed
  then show ?thesis
    by (intro exI [of _ n0] conjI allI impI n0(1,3)) (elim conjE)
qed

section \<open>A concrete crash\<close>

text \<open>The database of a node that dies in its first block, which spends one note.\<close>

definition died_at :: "nat \<Rightarrow> mem_db" where
  "died_at n = fst (ss_db (snd (apply_block frontier_codec (mortal_sled mem_sled) (sample_block 0 [sample_tx 1]) [] []
     (mortal_store n (fresh_store mem_empty)))))"

lemma died_at_opens: "\<exists>store. state_open frontier_codec mem_sled (died_at n) = Inr store \<and> ss_db store = died_at n"
  by (simp add: state_open_def tree_open_def mem.cf_get_eq frontier_codec_simps split: option.split)

lemma died_at_validators: "db_view mem_sled (died_at n) CF_VALIDATORS = Map.empty"
proof -
  have "unset_keys mem_sled CF_VALIDATORS mem_empty \<subseteq> unset_keys mem_sled CF_VALIDATORS (died_at n)"
    using grows_at [OF mem.mortal_validators.grows_apply_block, of "mortal_store n (fresh_store mem_empty)"]
    by (simp add: died_at_def mortal_store_def fresh_store_def split_beta)
  then show ?thesis
    unfolding unset_all [symmetric] by (auto simp: unset_keys_def mem_empty_def)
qed

theorem crash_during_block_is_fatal_witness:
  "\<exists>n store nd. 0 < n \<and> get_chain_height mem_sled (died_at n) = Inr 0 \<and>
     state_open frontier_codec mem_sled (died_at n) = Inr store \<and> node_start frontier_node store False [] 0 = Some nd \<and>
     (\<exists>e. fst (apply_block frontier_codec mem_sled (sample_block 0 [sample_tx 1]) [] [] (en_store (no_engine nd))) = Inl e)"
proof -
  let ?b = "sample_block 0 [sample_tx 1]"
  have env: "nd_ext frontier_node = frontier_codec" "nd_sled frontier_node = mem_sled"
    by (simp_all add: frontier_node_def sample_node_def)
  have accepted: "fst (apply_block frontier_codec mem_sled ?b [] [] (fresh_store mem_empty)) =
      Inr (ledger_root frontier_codec (ledger_commit frontier_codec ?b [] [] empty_ledger))"
    using mem.apply_block_accepts [OF fresh_store_represents [OF no_data_mem], of ?b frontier_codec "[]" "[]"]
    by (simp add: spendable_def next_height_def empty_ledger_def sample_block_lists)
  have nf: "replicate 32 1 \<in> set (block_nullifiers ?b)"
    by (simp add: sample_block_lists)
  obtain n where n: "0 < n" "get_chain_height mem_sled (died_at n) = get_chain_height mem_sled (ss_db (fresh_store mem_empty))"
      "\<And>store nd. state_open frontier_codec mem_sled (died_at n) = Inr store \<Longrightarrow>
        node_start frontier_node store False [] 0 = Some nd \<Longrightarrow>
        \<exists>e. fst (apply_block frontier_codec mem_sled ?b [] [] (en_store (no_engine nd))) = Inl e"
    using crash_during_block_is_fatal [where E = frontier_node and died = died_at, unfolded env,
        OF mem.sled_db_axioms accepted nf died_at_def] nf
    by (elim exE conjE) (metis order_refl rtranclp.rtrancl_refl)
  obtain store where store: "state_open frontier_codec mem_sled (died_at n) = Inr store" "ss_db store = died_at n"
    using died_at_opens by blast
  have "begin_height frontier_node 0 (engine_new store mempool_new None \<lparr>ps_high = [], ps_low = []\<rparr>) \<noteq> None"
    by (rule observer_begins_height)
      (simp_all add: env mem.sled_db_axioms validator_free_def engine_new_def store(2) died_at_validators [simplified])
  then obtain nd where "node_start frontier_node store False [] 0 = Some nd"
    by (auto simp: node_start_def)
  then show ?thesis
    using n store mem.empty_store_height [OF no_data_mem] by (auto simp: fresh_store_def)
qed

end
