(* ===== verification/Channels.thy ===== *)
theory Channels
  imports Node
begin

text \<open>
  The node with the bounds of its channels (src/bin/noirnet-node/src/main.rs, lines 59 to 68, and the
  two queues of \<open>PriorityNetworkSender\<close>). A full channel makes its sender wait: the network service
  waits with a message for the node, the engine with a command for the network service. While the
  service waits it takes no commands, and while the engine waits it takes no messages.
\<close>

section \<open>State\<close>

definition NODE_CHANNEL :: nat where "NODE_CHANNEL = 100"
definition HIGH_CHANNEL :: nat where "HIGH_CHANNEL = 100"
definition LOW_CHANNEL :: nat where "LOW_CHANNEL = 500"

text \<open>
  The node of theory Node, the message the network service waits to pass on, the commands the
  engine has not sent yet, and those of the RPC calls that wait. The channels and queues of the
  node hold what has been passed on.
\<close>

record 'db chan_node =
  cn_node :: "'db node"
  cn_service :: "node_message option"
  cn_waiting :: "network_command list"
  cn_clients :: "network_command list"

abbreviation cn_queues :: "'db chan_node \<Rightarrow> priority_sender" where
  "cn_queues cn \<equiv> en_out (no_engine (cn_node cn))"

abbreviation with_queues :: "priority_sender \<Rightarrow> 'db node \<Rightarrow> 'db node" where
  "with_queues q nd \<equiv> nd\<lparr>no_engine := (no_engine nd)\<lparr>en_out := q\<rparr>\<rparr>"

fun channel_load :: "node_message \<Rightarrow> 'db node \<Rightarrow> nat" where
  "channel_load (ToMempool tx) nd = length (no_mempool_rx nd)"
| "channel_load (ToConsensus b) nd = length (no_block_rx nd)"
| "channel_load (ToVotes v) nd = length (no_vote_rx nd)"
| "channel_load (ToSyncRequests p req ch) nd = length (no_sync_req_rx nd)"
| "channel_load (ToSyncResponses p res) nd = length (no_sync_res_rx nd)"

definition within_bounds :: "priority_sender \<Rightarrow> bool" where
  "within_bounds q \<longleftrightarrow> length (ps_high q) \<le> HIGH_CHANNEL \<and> length (ps_low q) \<le> LOW_CHANNEL"

section \<open>Steps\<close>

text \<open>A turn of the network service: the biased select, then what the chosen arm does.\<close>

definition service_turn :: "limited_codec \<Rightarrow> swarm_event list \<Rightarrow> 'db chan_node \<Rightarrow> 'db chan_node" where
  "service_turn C events cn =
     (case service_select events (cn_queues cn) of
        (HandleCommand cmd, _, q) \<Rightarrow> cn\<lparr>cn_node := with_queues q (cn_node cn)\<rparr>
      | (HandleEvent ev, _, q) \<Rightarrow>
          cn\<lparr>cn_service := (case handle_swarm_event C ev of [] \<Rightarrow> None | m # _ \<Rightarrow> Some m)\<rparr>
      | (Idle, _, q) \<Rightarrow> cn)"

text \<open>The commands by which a turn of the engine extended the queues.\<close>

definition new_commands :: "priority_sender \<Rightarrow> priority_sender \<Rightarrow> network_command list" where
  "new_commands q q' = drop (length (ps_low q)) (ps_low q') @ drop (length (ps_high q)) (ps_high q')"

inductive chan_step :: "'db node_env \<Rightarrow> limited_codec \<Rightarrow> hex_codec \<Rightarrow> 'db chan_node \<Rightarrow> 'db chan_node \<Rightarrow> bool"
  for E C H
where
  Service: "cn_service cn = None \<Longrightarrow> chan_step E C H cn (service_turn C events cn)"
| Pass: "cn_service cn = Some m \<Longrightarrow> channel_load m (cn_node cn) < NODE_CHANNEL \<Longrightarrow>
    chan_step E C H cn (cn\<lparr>cn_node := deliver m (cn_node cn), cn_service := None\<rparr>)"
| Turn: "cn_waiting cn = [] \<Longrightarrow> engine_task E now arm (cn_node cn) = Some nd' \<Longrightarrow>
    chan_step E C H cn (cn\<lparr>cn_node := with_queues (cn_queues cn) nd',
      cn_waiting := new_commands (cn_queues cn) (en_out (no_engine nd'))\<rparr>)"
| Send: "cn_waiting cn = cmd # rest \<Longrightarrow> within_bounds (priority_send cmd (cn_queues cn)) \<Longrightarrow>
    chan_step E C H cn (cn\<lparr>cn_node := with_queues (priority_send cmd (cn_queues cn)) (cn_node cn), cn_waiting := rest\<rparr>)"
| Insert: "mempool_task E (cn_node cn) = Some nd' \<Longrightarrow> chan_step E C H cn (cn\<lparr>cn_node := nd'\<rparr>)"
| Request: "rpc_task E H channel reply rq (cn_node cn) = nd' \<Longrightarrow>
    chan_step E C H cn (cn\<lparr>cn_node := with_queues (cn_queues cn) nd',
      cn_clients := cn_clients cn @ new_commands (cn_queues cn) (en_out (no_engine nd'))\<rparr>)"
| Client: "cn_clients cn = cmds @ cmd # rest \<Longrightarrow> within_bounds (priority_send cmd (cn_queues cn)) \<Longrightarrow>
    chan_step E C H cn (cn\<lparr>cn_node := with_queues (priority_send cmd (cn_queues cn)) (cn_node cn),
      cn_clients := cmds @ rest\<rparr>)"
| Prune: "chan_step E C H cn (cn\<lparr>cn_node := prune_task E (cn_node cn)\<rparr>)"

abbreviation chan_run :: "'db node_env \<Rightarrow> limited_codec \<Rightarrow> hex_codec \<Rightarrow> 'db chan_node \<Rightarrow> 'db chan_node \<Rightarrow> bool" where
  "chan_run E C H \<equiv> (chan_step E C H)\<^sup>*\<^sup>*"

section \<open>Gridlock\<close>

text \<open>
  The network service waits for the engine to empty a full channel, and the engine waits for the
  network service to take a command from a full queue.
\<close>

fun read_by_engine :: "node_message \<Rightarrow> bool" where
  "read_by_engine (ToMempool tx) \<longleftrightarrow> False"
| "read_by_engine m \<longleftrightarrow> True"

definition gridlocked :: "'db chan_node \<Rightarrow> bool" where
  "gridlocked cn \<longleftrightarrow>
     (case cn_service cn of None \<Rightarrow> False
      | Some m \<Rightarrow> read_by_engine m \<and> NODE_CHANNEL \<le> channel_load m (cn_node cn)) \<and>
     (case cn_waiting cn of [] \<Rightarrow> False
      | cmd # rest \<Rightarrow> \<not> within_bounds (priority_send cmd (cn_queues cn)))"

text \<open>What a gridlocked node still holds and will never work off.\<close>

definition same_backlog :: "'db chan_node \<Rightarrow> 'db chan_node \<Rightarrow> bool" where
  "same_backlog cn cn' \<longleftrightarrow>
     cn_service cn' = cn_service cn \<and> cn_waiting cn' = cn_waiting cn \<and>
     no_round (cn_node cn') = no_round (cn_node cn) \<and> no_block_rx (cn_node cn') = no_block_rx (cn_node cn) \<and>
     no_vote_rx (cn_node cn') = no_vote_rx (cn_node cn) \<and>
     no_sync_req_rx (cn_node cn') = no_sync_req_rx (cn_node cn) \<and>
     no_sync_res_rx (cn_node cn') = no_sync_res_rx (cn_node cn) \<and>
     (\<exists>hs ls. ps_high (cn_queues cn') = ps_high (cn_queues cn) @ hs \<and> ps_low (cn_queues cn') = ps_low (cn_queues cn) @ ls)"

lemma same_backlog_refl: "same_backlog cn cn"
  by (simp add: same_backlog_def)

lemma same_backlog_trans: "same_backlog a b \<Longrightarrow> same_backlog b c \<Longrightarrow> same_backlog a c"
  by (auto simp: same_backlog_def)

lemma gridlocked_backlog:
  assumes "gridlocked cn" "same_backlog cn cn'"
  shows "gridlocked cn'"
proof -
  have load: "channel_load m (cn_node cn') = channel_load m (cn_node cn)" if "read_by_engine m" for m
    using that assms(2) by (cases m) (auto simp: same_backlog_def)
  have room: "\<not> within_bounds (priority_send cmd (cn_queues cn'))"
    if "\<not> within_bounds (priority_send cmd (cn_queues cn))" for cmd
    using that assms(2) by (cases cmd) (auto simp: same_backlog_def within_bounds_def priority_send_def)
  show ?thesis
    using assms load room by (auto simp: gridlocked_def same_backlog_def split: option.splits list.splits)
qed

lemma rpc_task_node:
  "no_round (rpc_task E H channel reply rq nd) = no_round nd"
  "no_block_rx (rpc_task E H channel reply rq nd) = no_block_rx nd"
  "no_vote_rx (rpc_task E H channel reply rq nd) = no_vote_rx nd"
  "no_sync_req_rx (rpc_task E H channel reply rq nd) = no_sync_req_rx nd"
  "no_sync_res_rx (rpc_task E H channel reply rq nd) = no_sync_res_rx nd"
  by (simp_all add: rpc_task_def Let_def)

lemma gridlocked_step:
  assumes "gridlocked cn" "chan_step E C H cn cn'"
  shows "same_backlog cn cn'"
  using assms(2)
proof cases
  case (Pass m)
  then show ?thesis
    using assms(1) by (simp add: gridlocked_def)
next
  case Insert
  then show ?thesis
    by (auto simp: same_backlog_def mempool_task_def Let_def split: list.splits)
next
  case (Request channel reply rq nd')
  then show ?thesis
    using rpc_task_node by (auto simp: same_backlog_def)
next
  case (Client cmds cmd rest)
  then show ?thesis
    by (cases cmd) (simp_all add: same_backlog_def priority_send_def)
next
  case Prune
  then show ?thesis
    by (simp add: same_backlog_def prune_task_def Let_def)
qed (use assms(1) in \<open>simp_all add: gridlocked_def\<close>)

lemma gridlock_is_forever:
  assumes "chan_run E C H cn cn'" "gridlocked cn"
  shows "gridlocked cn' \<and> same_backlog cn cn'"
  using assms
proof induction
  case (step cn1 cn2)
  then show ?case
    using gridlocked_step gridlocked_backlog same_backlog_trans by blast
qed (simp add: same_backlog_refl)

section \<open>What the engine sends\<close>

definition sends_at_most_one :: "'db engine \<Rightarrow> 'db engine \<Rightarrow> bool" where
  "sends_at_most_one en en' \<longleftrightarrow> en_out en' = en_out en \<or> (\<exists>cmd. en_out en' = priority_send cmd (en_out en))"

lemma execute_out [simp]: "en_out (execute_and_apply_block E now b en) = en_out en"
  by (simp add: execute_and_apply_block_def record_slashing_event_def Let_def split: option.split block_rejection.split prod.split sum.split)

lemma synced_out [simp]: "en_out (apply_synced E now h bs en) = en_out en"
  unfolding apply_synced_def by (induction bs arbitrary: en) simp_all

lemma cast_vote_out: "sends_at_most_one (snd s) (snd (cast_vote E h k s))"
  by (auto simp: sends_at_most_one_def cast_vote_def send_command_def Let_def split: prod.split option.split)

lemma begin_height_out:
  "begin_height E now en = Some (rv, en') \<Longrightarrow> sends_at_most_one en en'"
  by (auto simp: sends_at_most_one_def begin_height_def propose_def send_command_def Let_def
      split: prod.splits if_splits option.splits)

text \<open>A block that starts a download is not voted for.\<close>

lemma handle_block_out: "sends_at_most_one en (snd (handle_block E p b (rv, en)))"
proof -
  obtain started sync' where peer: "handle_peer_height p (bh_height (blk_header b)) (sat_sub (rv_height rv) 1) (en_sync en) = (started, sync')"
    by fastforce
  show ?thesis
  proof (cases started)
    case None
    then show ?thesis
      using cast_vote_out [of "(rv', en\<lparr>en_sync := sync'\<rparr>)" for rv']
      by (simp add: handle_block_def peer sends_at_most_one_def Let_def)
  next
    case (Some req)
    then have "sm_is_syncing sync'"
      using peer by (auto simp: handle_peer_height_def start_sync_def Let_def split: if_splits)
    then show ?thesis
      by (auto simp: handle_block_def peer sends_at_most_one_def send_command_def Some Let_def split: option.split)
  qed
qed

lemma turn_out:
  assumes "engine_turn E now ev (rv, en) = Some (ctl, rv', en')"
  shows "sends_at_most_one en en' \<and> (ctl = Break \<longrightarrow> en_out en' = en_out en)"
proof (cases ev)
  case (BlockArrived p b)
  then show ?thesis
    using assms handle_block_out [of en E p b rv] by (auto simp: engine_turn_def)
next
  case (VoteArrived v)
  then have turn: "handle_vote E now v (rv, en) = (ctl, rv', en')"
    using assms by (simp add: engine_turn_def)
  show ?thesis
  proof (cases E now v rv en rule: handle_vote_cases)
    case (precommit s)
    then show ?thesis
      using turn cast_vote_out [of "(rv\<lparr>rv_bft := s\<rparr>, en)" E "vote_block_hash v" Precommit]
      by (cases "cast_vote E (vote_block_hash v) Precommit (rv\<lparr>rv_bft := s\<rparr>, en)") simp
  qed (use turn in \<open>auto simp: sends_at_most_one_def\<close>)
next
  case (SyncRequested p req ch)
  then show ?thesis
    using assms by (auto simp: engine_turn_def handle_sync_request_def send_command_def Let_def sends_at_most_one_def)
next
  case (SyncAnswered p res)
  then show ?thesis
    using assms
    by (auto simp: engine_turn_def handle_sync_response_def send_command_def Let_def sends_at_most_one_def
        split: prod.splits if_splits option.splits)
next
  case RoundTimeout
  then show ?thesis
    using assms by (auto simp: engine_turn_def handle_timeout_def Let_def record_slashing_event_def sends_at_most_one_def)
qed

text \<open>
  A turn of the engine leaves at most one command to send, so the waiting commands and their order
  are those of the code; together with them the queues are what theory Node makes of them.
\<close>

lemma engine_task_commands:
  assumes "engine_task E now arm nd = Some nd'"
  shows "\<exists>cmds. length cmds \<le> 1 \<and> new_commands (en_out (no_engine nd)) (en_out (no_engine nd')) = cmds \<and>
    en_out (no_engine nd') = fold priority_send cmds (en_out (no_engine nd))"
proof -
  obtain ev nd1 rv en where rcv: "receive arm nd = Some (ev, nd1)"
    and run: "engine_run_step E now ev (no_round nd1, no_engine nd1) = Some (rv, en)" and nd': "no_engine nd' = en"
    using assms by (auto simp: engine_task_def split: option.splits)
  obtain ctl rv1 en1 where turn: "engine_turn E now ev (no_round nd1, no_engine nd1) = Some (ctl, rv1, en1)"
    using run by (auto simp: engine_run_step_def split: option.splits)
  have "sends_at_most_one (no_engine nd1) en"
    using run turn turn_out [OF turn] begin_height_out [of E now en1 rv en]
    by (cases ctl) (auto simp: engine_run_step_def sends_at_most_one_def)
  then have "sends_at_most_one (no_engine nd) en"
    by (simp add: receive_engine [OF rcv])
  moreover have "new_commands q (priority_send cmd q) = [cmd]" for q cmd
    by (cases cmd) (simp_all add: new_commands_def priority_send_def)
  moreover have "new_commands q q = []" for q
    by (simp add: new_commands_def)
  ultimately show ?thesis
    unfolding sends_at_most_one_def nd' by (auto intro: exI [of _ "[]"] exI [of _ "[cmd]" for cmd])
qed

section \<open>Safety is not affected\<close>

abbreviation cn_spent :: "'db node_env \<Rightarrow> 'db chan_node \<Rightarrow> hash32 set" where
  "cn_spent E cn \<equiv> store_spent (nd_sled E) (en_store (no_engine (cn_node cn)))"

lemma chan_step_spent:
  assumes "sled_db (nd_sled E)" "chan_step E C H cn cn'"
  shows "cn_spent E cn \<subseteq> cn_spent E cn'"
  using assms(2)
proof cases
  case (Service events)
  then show ?thesis
    by (auto simp: service_turn_def split: service_turn.split prod.split)
next
  case (Pass m)
  then show ?thesis
    using deliver_engine [of "[m]" "cn_node cn"] by simp
next
  case (Turn now arm nd')
  then show ?thesis
    using node_step_spent [OF assms(1) node_step.Engine [OF Turn(3)]] by simp
next
  case (Insert nd')
  then show ?thesis
    using node_step_spent [OF assms(1) node_step.Insert [OF Insert(2)]] by simp
next
  case (Request channel reply rq nd')
  then show ?thesis
    using node_step_spent [OF assms(1) node_step.Request] by (auto simp: subset_iff)
next
  case Prune
  then show ?thesis
    using node_step_spent [OF assms(1) node_step.Prune] by simp
qed simp_all

lemma chan_run_spent:
  assumes "sled_db (nd_sled E)" "chan_run E C H cn cn'"
  shows "cn_spent E cn \<subseteq> cn_spent E cn'"
  using assms(2) by induction (use chan_step_spent [OF assms(1)] in blast)+

section \<open>How a node gets there\<close>

lemma take_message:
  assumes "cn_service cn = None" "ps_high (cn_queues cn) = []" "handle_swarm_event C ev = [m]"
  shows "chan_step E C H cn (cn\<lparr>cn_service := Some m\<rparr>)"
proof -
  have "service_turn C [ev] cn = cn\<lparr>cn_service := Some m\<rparr>"
    using assms(2,3) by (simp add: service_turn_def service_select_def)
  then show ?thesis
    using chan_step.Service [OF assms(1), of E C H "[ev]"] by simp
qed

lemma take_and_pass:
  assumes "cn_service cn = None" "ps_high (cn_queues cn) = []" "handle_swarm_event C ev = [m]"
    and "channel_load m (cn_node cn) < NODE_CHANNEL"
  shows "chan_run E C H cn (cn\<lparr>cn_node := deliver m (cn_node cn)\<rparr>)"
proof -
  have "chan_step E C H (cn\<lparr>cn_service := Some m\<rparr>) (cn\<lparr>cn_node := deliver m (cn_node cn)\<rparr>)"
    using chan_step.Pass [of "cn\<lparr>cn_service := Some m\<rparr>" m E C H] assms(1,4)
    by (cases cn) simp
  then show ?thesis
    using take_message [OF assms(1-3)] by (meson converse_rtranclp_into_rtranclp r_into_rtranclp)
qed

lemma votes_pile_up:
  assumes "cn_service cn = None" "ps_high (cn_queues cn) = []" "handle_swarm_event C ev = [ToVotes v]"
  shows "length (no_vote_rx (cn_node cn)) + k \<le> NODE_CHANNEL \<Longrightarrow>
    chan_run E C H cn (cn\<lparr>cn_node := (cn_node cn)\<lparr>no_vote_rx := no_vote_rx (cn_node cn) @ replicate k v\<rparr>\<rparr>)"
proof (induction k)
  case (Suc k)
  let ?cn = "cn\<lparr>cn_node := (cn_node cn)\<lparr>no_vote_rx := no_vote_rx (cn_node cn) @ replicate k v\<rparr>\<rparr>"
  have "chan_run E C H ?cn (?cn\<lparr>cn_node := deliver (ToVotes v) (cn_node ?cn)\<rparr>)"
    using assms Suc.prems by (intro take_and_pass) simp_all
  then show ?case
    using Suc by (simp add: replicate_append_same)
qed simp

definition status_request :: rpc_request where
  "status_request = \<lparr>rq_method = ''noirnet_getSyncStatus'', rq_params = []\<rparr>"

lemma status_task:
  "rpc_task E H ch None status_request nd = with_queues (priority_send (GetStatus ch) (en_out (no_engine nd))) nd"
  by (simp add: rpc_task_def Let_def rpc_dispatch_def status_request_def rpc_get_sync_status_def network_send_def rpc_start_def)

text \<open>Status requests of clients fill the queue of urgent commands.\<close>

lemma status_requests_pile_up:
  assumes "cn_clients cn = []" "length (ps_low (cn_queues cn)) \<le> LOW_CHANNEL"
  shows "length (ps_high (cn_queues cn)) + k \<le> HIGH_CHANNEL \<Longrightarrow>
    chan_run E C H cn (cn\<lparr>cn_node := with_queues
      ((cn_queues cn)\<lparr>ps_high := ps_high (cn_queues cn) @ replicate k (GetStatus ch)\<rparr>) (cn_node cn)\<rparr>)"
proof (induction k)
  case (Suc k)
  let ?q = "(cn_queues cn)\<lparr>ps_high := ps_high (cn_queues cn) @ replicate k (GetStatus ch)\<rparr>"
  let ?cn = "cn\<lparr>cn_node := with_queues ?q (cn_node cn)\<rparr>"
  let ?cn1 = "?cn\<lparr>cn_clients := [GetStatus ch]\<rparr>"
  let ?cn2 = "?cn\<lparr>cn_node := with_queues (priority_send (GetStatus ch) ?q) (cn_node cn)\<rparr>"
  have "chan_step E C H ?cn ?cn1"
    using chan_step.Request [OF status_task [of E H ch "cn_node ?cn"], where C = C] assms(1)
    by (simp add: new_commands_def priority_send_def)
  moreover have "chan_step E C H ?cn1 ?cn2"
    using chan_step.Client [of ?cn1 "[]" "GetStatus ch" "[]" E C H] Suc.prems assms
    by (cases cn) (simp add: within_bounds_def priority_send_def)
  moreover have "chan_run E C H cn ?cn"
    using Suc by simp
  ultimately have "chan_run E C H cn ?cn2"
    by (meson rtranclp.rtrancl_into_rtrancl)
  then show ?case
    by (simp add: priority_send_def replicate_append_same)
qed simp

lemma height_not_ahead:
  fixes h :: u64
  assumes "unat h < 2 ^ 64 - 5"
  shows "\<not> h > sat_sub h 1 + 5"
proof (cases "h = 0")
  case False
  then have "1 \<le> h"
    using unat_gt_0 [of h] by (simp add: word_le_nat_alt)
  then have "sat_sub h 1 + 5 = h + 4"
    by (simp add: sat_sub_def)
  moreover have "unat (h + 4) = unat h + 4"
    using assms by (subst unat_plus_if') simp
  ultimately have "unat (sat_sub h 1 + 5) = unat h + 4"
    by (simp only:)
  then show ?thesis
    by (simp add: word_less_nat_alt)
qed (simp add: sat_sub_def)

text \<open>A block of the current height makes a validator vote, which leaves one urgent command.\<close>

lemma block_turn:
  assumes "no_block_rx nd = b # bs" "en_secret_key (no_engine nd) = Some sk" "\<not> sm_is_syncing (en_sync (no_engine nd))"
    and "bh_height (blk_header b) = rv_height (no_round nd)" "unat (rv_height (no_round nd)) < 2 ^ 64 - 5"
  shows "\<exists>nd' vb. engine_task E now (BlockArm p) nd = Some nd' \<and>
    new_commands (en_out (no_engine nd)) (en_out (no_engine nd')) = [BroadcastVote vb] \<and> no_vote_rx nd' = no_vote_rx nd"
  using assms height_not_ahead [OF assms(5)]
  by (auto simp: engine_task_def engine_run_step_def engine_turn_def handle_block_def handle_peer_height_def
      cast_vote_def send_command_def priority_send_def new_commands_def Let_def)

text \<open>
  C11: a flooded node stops for good. Let a node that votes be idle, and let one gossip payload
  decode to a block of its height and another to a vote, whoever signed them. Then it can come to
  a state in which the network service waits for room in a full channel to the engine, and the
  engine for room in the full queue of urgent commands, which only the network service can make.
  From then on no step of any task changes this: no further message, vote, block or command is
  ever taken, and the round stays where it is.
\<close>

theorem flooded_node_gridlocks:
  assumes "cn_service cn = None" "cn_waiting cn = []" "cn_clients cn = []"
    and "ps_high (cn_queues cn) = []" "length (ps_low (cn_queues cn)) \<le> LOW_CHANNEL"
    and "no_block_rx (cn_node cn) = []" "no_vote_rx (cn_node cn) = []"
    and "en_secret_key (no_engine (cn_node cn)) = Some sk" "\<not> sm_is_syncing (en_sync (no_engine (cn_node cn)))"
    and "bh_height (blk_header b) = rv_height (no_round (cn_node cn))" "unat (rv_height (no_round (cn_node cn))) < 2 ^ 64 - 5"
    and "handle_swarm_event C (GossipMessage ''noirnet-blocks'' pb) = [ToConsensus b]"
    and "handle_swarm_event C (GossipMessage ''noirnet-votes'' pv) = [ToVotes v]"
  shows "\<exists>cn'. chan_run E C H cn cn' \<and> gridlocked cn' \<and>
    (\<forall>cn''. chan_run E C H cn' cn'' \<longrightarrow> gridlocked cn'' \<and> same_backlog cn' cn'')"
proof -
  let ?nd1 = "(cn_node cn)\<lparr>no_block_rx := [b]\<rparr>"
  let ?cn1 = "cn\<lparr>cn_node := ?nd1\<rparr>"
  let ?cn2 = "cn\<lparr>cn_node := ?nd1\<lparr>no_vote_rx := replicate NODE_CHANNEL v\<rparr>\<rparr>"
  let ?cn3 = "?cn2\<lparr>cn_service := Some (ToVotes v)\<rparr>"
  let ?q = "(cn_queues cn)\<lparr>ps_high := replicate HIGH_CHANNEL (GetStatus 0)\<rparr>"
  let ?cn4 = "?cn3\<lparr>cn_node := with_queues ?q (cn_node ?cn3)\<rparr>"
  have "chan_run E C H cn ?cn1"
    using take_and_pass [OF assms(1,4,12), of E H] assms(6) by (simp add: NODE_CHANNEL_def)
  moreover have "chan_run E C H ?cn1 ?cn2"
    using votes_pile_up [of ?cn1 C _ v NODE_CHANNEL E H, OF _ _ assms(13)] assms by simp
  moreover have "chan_step E C H ?cn2 ?cn3"
    by (rule take_message [OF _ _ assms(13)]) (simp_all add: assms)
  moreover have "chan_run E C H ?cn3 ?cn4"
    using status_requests_pile_up [of ?cn3 HIGH_CHANNEL E C H 0] assms(3-5) by simp
  ultimately have run4: "chan_run E C H cn ?cn4"
    by (meson rtranclp.rtrancl_into_rtrancl rtranclp_trans)
  obtain nd' vb where turn: "engine_task E 0 (BlockArm []) (cn_node ?cn4) = Some nd'"
      "new_commands (cn_queues ?cn4) (en_out (no_engine nd')) = [BroadcastVote vb]" "no_vote_rx nd' = replicate NODE_CHANNEL v"
    using block_turn [of "cn_node ?cn4" b "[]" sk E 0 "[]"] assms(8-11) by auto
  let ?cn5 = "?cn4\<lparr>cn_node := with_queues (cn_queues ?cn4) nd', cn_waiting := [BroadcastVote vb]\<rparr>"
  have "chan_step E C H ?cn4 ?cn5"
    using chan_step.Turn [OF _ turn(1), of C H] turn(2) assms(2) by simp
  then have run5: "chan_run E C H cn ?cn5"
    using run4 by (meson rtranclp.rtrancl_into_rtrancl)
  moreover have stuck: "gridlocked ?cn5"
    by (simp add: gridlocked_def turn(3) within_bounds_def priority_send_def)
  ultimately show ?thesis
    using gridlock_is_forever [OF _ stuck] by blast
qed

section \<open>A concrete run\<close>

definition flood_codec :: limited_codec where
  "flood_codec = sample_gossip_codec\<lparr>lc_block := (\<lambda>_. Some (sample_block 1 []))\<rparr>"

definition lone_node :: "mem_db chan_node" where
  "lone_node = \<lparr>cn_node = \<lparr>no_round = first_round, no_engine = sample_engine (fresh_store mem_empty) mempool_new (Some ([1], [2])),
     no_mempool_rx = [], no_block_rx = [], no_vote_rx = [], no_sync_req_rx = [], no_sync_res_rx = []\<rparr>,
     cn_service = None, cn_waiting = [], cn_clients = []\<rparr>"

theorem flooded_node_gridlocks_witness:
  "\<exists>cn. chan_run sample_node flood_codec plain_hex lone_node cn \<and> gridlocked cn"
proof -
  have "handle_swarm_event flood_codec (GossipMessage ''noirnet-blocks'' []) = [ToConsensus (sample_block 1 [])]"
    by (simp add: handle_swarm_event_def flood_codec_def)
  moreover obtain v where "handle_swarm_event flood_codec (GossipMessage ''noirnet-votes'' []) = [ToVotes v]"
    by (simp add: handle_swarm_event_def flood_codec_def sample_gossip_codec_def)
  moreover have "cn_service lone_node = None" "cn_waiting lone_node = []" "cn_clients lone_node = []"
      "cn_queues lone_node = \<lparr>ps_high = [], ps_low = []\<rparr>" "no_block_rx (cn_node lone_node) = []"
      "no_vote_rx (cn_node lone_node) = []" "en_secret_key (no_engine (cn_node lone_node)) = Some [2]"
      "\<not> sm_is_syncing (en_sync (no_engine (cn_node lone_node)))"
      "bh_height (blk_header (sample_block 1 [])) = rv_height (no_round (cn_node lone_node))"
      "unat (rv_height (no_round (cn_node lone_node))) < 2 ^ 64 - 5"
    by (simp_all add: lone_node_def sample_engine_def engine_new_def sync_manager_new_def first_round_def sample_block_lists)
  ultimately show ?thesis
    using flooded_node_gridlocks [of lone_node "[2]" "sample_block 1 []" flood_codec "[]" "[]" v sample_node plain_hex]
    by auto
qed

end
