(* ===== verification/Lost_Proposal.thy ===== *)
theory Lost_Proposal
  imports Node
begin

text \<open>
  A network of nodes without outsiders: what a node receives was sent by a node. The steps are
  those of theory Node at every node; commands a network service takes go into the air, and events
  come out of it, any number of times or never.
\<close>

section \<open>The network\<close>

type_synonym 'db net = "(nat \<Rightarrow> 'db node) \<times> network_command set"

text \<open>An event that a sent command causes at a peer, the topics in the order of subscription.\<close>

fun from_air :: "network_command set \<Rightarrow> swarm_event \<Rightarrow> bool" where
  "from_air air (GossipMessage topic payload) \<longleftrightarrow>
     topic = ''noirnet-txs'' \<and> BroadcastTx payload \<in> air \<or>
     topic = ''noirnet-blocks'' \<and> BroadcastBlock payload \<in> air \<or>
     topic = ''noirnet-votes'' \<and> BroadcastVote payload \<in> air"
| "from_air air (SyncRequestMessage peer req channel) \<longleftrightarrow> (\<exists>p. SendSyncRequest p req \<in> air)"
| "from_air air (SyncResponseMessage peer res) \<longleftrightarrow> (\<exists>channel. SendSyncResponse channel res \<in> air)"
| "from_air air ev \<longleftrightarrow> True"

inductive net_step :: "(nat \<Rightarrow> 'db node_env) \<Rightarrow> limited_codec \<Rightarrow> hex_codec \<Rightarrow> 'db net \<Rightarrow> 'db net \<Rightarrow> bool"
  for E C H
where
  Receive: "from_air air ev \<Longrightarrow>
    net_step E C H (nodes, air) (nodes(i := fold deliver (handle_swarm_event C ev) (nodes i)), air)"
| Publish: "service_select ([] :: swarm_event list) (en_out (no_engine (nodes i))) = (HandleCommand cmd, evs, q) \<Longrightarrow>
    net_step E C H (nodes, air) (nodes(i := (nodes i)\<lparr>no_engine := (no_engine (nodes i))\<lparr>en_out := q\<rparr>\<rparr>), insert cmd air)"
| Insert: "mempool_task (E i) (nodes i) = Some nd \<Longrightarrow> net_step E C H (nodes, air) (nodes(i := nd), air)"
| Request: "net_step E C H (nodes, air) (nodes(i := rpc_task (E i) H channel reply rq (nodes i)), air)"
| Prune: "net_step E C H (nodes, air) (nodes(i := prune_task (E i) (nodes i)), air)"
| Turn: "engine_task (E i) now arm (nodes i) = Some nd \<Longrightarrow> net_step E C H (nodes, air) (nodes(i := nd), air)"

abbreviation net_run :: "(nat \<Rightarrow> 'db node_env) \<Rightarrow> limited_codec \<Rightarrow> hex_codec \<Rightarrow> 'db net \<Rightarrow> 'db net \<Rightarrow> bool" where
  "net_run E C H \<equiv> (net_step E C H)\<^sup>*\<^sup>*"

section \<open>Silence\<close>

text \<open>Commands of clients, which no engine reacts to.\<close>

fun client_command :: "network_command \<Rightarrow> bool" where
  "client_command (BroadcastTx payload) \<longleftrightarrow> True"
| "client_command (GetStatus channel) \<longleftrightarrow> True"
| "client_command cmd \<longleftrightarrow> False"

definition calm :: "'db node \<Rightarrow> bool" where
  "calm nd \<longleftrightarrow> no_block_rx nd = [] \<and> no_vote_rx nd = [] \<and> no_sync_req_rx nd = [] \<and> no_sync_res_rx nd = [] \<and>
     list_all client_command (ps_high (en_out (no_engine nd)) @ ps_low (en_out (no_engine nd)))"

text \<open>At the height and round it has reached, a node waits for a block or a vote.\<close>

definition silent_at :: "(nat \<Rightarrow> u64) \<Rightarrow> 'db net \<Rightarrow> bool" where
  "silent_at heights = (\<lambda>(nodes, air). (\<forall>cmd \<in> air. client_command cmd) \<and>
     (\<forall>i. calm (nodes i) \<and> rv_height (no_round (nodes i)) = heights i))"

lemma silent_update:
  assumes "silent_at heights (nodes, air)" "calm nd" "rv_height (no_round nd) = heights i"
  shows "silent_at heights (nodes(i := nd), air)"
  using assms by (simp add: silent_at_def)

lemma calm_timeout:
  assumes "calm nd" "engine_task E now arm nd = Some nd'"
  shows "calm nd' \<and> rv_height (no_round nd') = rv_height (no_round nd)"
proof -
  have "arm = TimeoutArm"
    using assms by (cases arm) (auto simp: engine_task_def calm_def)
  then show ?thesis
    using assms
    by (auto simp: engine_task_def engine_run_step_def engine_turn_def handle_timeout_def calm_def Let_def
        record_slashing_event_def)
qed

lemma calm_deliver:
  assumes "calm nd" "from_air air ev" "\<forall>cmd \<in> air. client_command cmd"
  shows "calm (fold deliver (handle_swarm_event C ev) nd) \<and>
    no_round (fold deliver (handle_swarm_event C ev) nd) = no_round nd"
proof -
  have "BroadcastBlock p \<notin> air" "BroadcastVote p \<notin> air" "SendSyncRequest q req \<notin> air" "SendSyncResponse ch res \<notin> air"
    for p q req ch res
    using assms(3) by auto
  then show ?thesis
    using assms(1,2) by (cases ev) (auto simp: handle_swarm_event_def calm_def split: option.split)
qed

lemma calm_request:
  assumes "calm nd"
  shows "calm (rpc_task E H channel reply rq nd) \<and> no_round (rpc_task E H channel reply rq nd) = no_round nd"
  using assms
  by (auto simp: calm_def rpc_task_def Let_def rpc_dispatch_def rpc_start_def rpc_send_transaction_def rpc_get_sync_status_def
      network_send_def priority_send_def split: prod.splits sum.splits option.splits)

lemma calm_publish:
  assumes "calm nd" "service_select ([] :: swarm_event list) (en_out (no_engine nd)) = (HandleCommand cmd, evs, q)"
  shows "client_command cmd \<and> calm (nd\<lparr>no_engine := (no_engine nd)\<lparr>en_out := q\<rparr>\<rparr>)"
  using assms by (auto simp: calm_def service_select_def split: list.splits)

lemma silent_step:
  assumes "silent_at heights s" "net_step E C H s s'"
  shows "silent_at heights s'"
  using assms(2)
proof cases
  case (Receive air ev nodes i)
  then show ?thesis
    using assms(1) calm_deliver [of "nodes i" air ev C] by (auto simp: silent_at_def)
next
  case (Publish nodes i cmd evs q air)
  then show ?thesis
    using assms(1) calm_publish [of "nodes i"] by (auto simp: silent_at_def)
next
  case (Insert i nodes nd air)
  then show ?thesis
    using assms(1) by (auto simp: silent_at_def calm_def mempool_task_def Let_def split: list.splits)
next
  case (Request nodes air i channel reply rq)
  then show ?thesis
    using assms(1) calm_request [of "nodes i" "E i"] by (auto simp: silent_at_def)
next
  case (Prune nodes air i)
  then show ?thesis
    using assms(1) by (auto simp: silent_at_def calm_def prune_task_def Let_def)
next
  case (Turn i now arm nodes nd air)
  then show ?thesis
    using assms(1) calm_timeout [OF _ Turn(3)] by (auto simp: silent_at_def)
qed

text \<open>
  C12: a lost proposal stops the network. A block is proposed once, when its height begins; a
  timeout starts a new round and proposes nothing. So if at some moment no block, vote or download
  is queued at any node or under way, then none ever will be, whatever transactions clients submit
  and however many rounds time out: no node of the network leaves its height.
\<close>

theorem lost_proposal_stops_network:
  assumes "\<forall>i. calm (nodes i)" "\<forall>cmd \<in> air. client_command cmd" "net_run E C H (nodes, air) (nodes', air')"
  shows "calm (nodes' i) \<and> rv_height (no_round (nodes' i)) = rv_height (no_round (nodes i)) \<and>
    BroadcastBlock p \<notin> air' \<and> BroadcastVote p \<notin> air'"
proof -
  have "silent_at (\<lambda>i. rv_height (no_round (nodes i))) (nodes', air')"
    using assms(3)
  proof (induction rule: rtranclp_induct)
    case base
    then show ?case
      using assms(1,2) by (simp add: silent_at_def)
  qed (rule silent_step)
  then show ?thesis
    by (auto simp: silent_at_def)
qed

section \<open>A concrete network\<close>

definition waiting_node :: "mem_db node" where
  "waiting_node = \<lparr>no_round = first_round, no_engine = observer, no_mempool_rx = [], no_block_rx = [],
     no_vote_rx = [], no_sync_req_rx = [], no_sync_res_rx = []\<rparr>"

theorem lost_proposal_stops_network_witness:
  "\<exists>nodes air. net_run (\<lambda>i. sample_node) sample_gossip_codec plain_hex (\<lambda>i. waiting_node, {}) (nodes, air) \<and>
     rv_round (no_round (nodes 0)) = 1 \<and> rv_height (no_round (nodes 0)) = 1 \<and> BroadcastBlock [] \<notin> air"
proof -
  obtain nd where nd: "engine_task sample_node 0 TimeoutArm waiting_node = Some nd" "rv_round (no_round nd) = 1"
    by (simp add: engine_task_def engine_run_step_def engine_turn_def handle_timeout_def waiting_node_def first_round_def
        split_beta Let_def)
  then have run: "net_run (\<lambda>i. sample_node) sample_gossip_codec plain_hex (\<lambda>i. waiting_node, {})
      ((\<lambda>i. waiting_node)(0 := nd), {})"
    by (intro r_into_rtranclp net_step.Turn) simp
  have "calm waiting_node"
    by (simp add: calm_def waiting_node_def observer_def sample_engine_def engine_new_def)
  then show ?thesis
    using lost_proposal_stops_network [OF _ _ run, of 0 "[]"] run nd(2)
    by (intro exI [of _ "(\<lambda>i. waiting_node)(0 := nd)"] exI [of _ "{}"]) (simp add: waiting_node_def first_round_def)
qed

end
