(* ===== verification/Pool_Tests.thy ===== *)
theory Pool_Tests
  imports Mempool Fee_Market
begin

text \<open>
  The unit tests of crates/noirnet-mempool (pool.rs and fee_market.rs), as Boolean definitions over
  the model: a test holds if it runs to its end, so a failing \<open>assert\<close> and a panicking
  \<open>unwrap\<close> are both \<open>False\<close>. The database is the empty one of a fresh directory; the shuffle of
  the pool is a parameter.
\<close>

section \<open>The mempool\<close>

definition make_test_tx :: "u8 \<Rightarrow> u64 \<Rightarrow> u64 \<Rightarrow> transaction" where
  "make_test_tx nullifier_byte fee gas_limit =
     \<lparr>tx_version = 1, tx_chain_id = 1,
      tx_spends = [\<lparr>sd_anchor = Hash32_ZERO, sd_nullifier = replicate 32 nullifier_byte, sd_rk = replicate 32 0,
        sd_cv = replicate 32 0, sd_spend_auth_sig = replicate 64 0\<rparr>],
      tx_outputs = [\<lparr>od_note_commitment = replicate 32 (nullifier_byte + 100), od_ephemeral_key = replicate 32 0,
        od_enc_ciphertext = replicate 580 0, od_out_ciphertext = replicate 80 0, od_cv = replicate 32 0\<rparr>],
      tx_fee = fee, tx_gas_limit = gas_limit, tx_memo = None, tx_contract_call = None, tx_deploy_contract = None,
      tx_binding_sig = replicate 64 0, tx_timestamp = 1700000100, tx_aggregate_spend_proof = []\<rparr>"

text \<open>\<open>pool.insert(tx).unwrap();\<close> for one transaction after the other, \<open>None\<close> being the panic.\<close>

fun insert_unwrap :: "ext \<Rightarrow> 'db sled \<Rightarrow> 'db \<Rightarrow> transaction list \<Rightarrow> mempool \<Rightarrow> mempool option" where
  "insert_unwrap X S db [] p = Some p"
| "insert_unwrap X S db (tx # txs) p =
     (case mempool_insert X S db tx p of (Inl _, _) \<Rightarrow> None | (Inr _, p') \<Rightarrow> insert_unwrap X S db txs p')"

text \<open>\<open>setup_mempool\<close>: a store over the database just opened, and an empty pool over it.\<close>

definition setup_mempool :: "ext \<Rightarrow> 'db sled \<Rightarrow> 'db \<Rightarrow> ('db state_store \<times> mempool) option" where
  "setup_mempool X S db =
     (case state_open X S db of Inl _ \<Rightarrow> None | Inr state \<Rightarrow> Some (state, mempool_new))"

definition test_insert_valid_tx :: "ext \<Rightarrow> 'db sled \<Rightarrow> 'db \<Rightarrow> bool" where
  "test_insert_valid_tx X S db \<longleftrightarrow>
     (case setup_mempool X S db of
        None \<Rightarrow> False
      | Some (state, pool) \<Rightarrow>
          (case mempool_insert X S (ss_db state) (make_test_tx 1 1000 21000) pool of
             (r, pool) \<Rightarrow> r = Inr () \<and> mempool_len pool = 1))"

definition test_insert_duplicate_rejected :: "ext \<Rightarrow> 'db sled \<Rightarrow> 'db \<Rightarrow> bool" where
  "test_insert_duplicate_rejected X S db \<longleftrightarrow>
     (case setup_mempool X S db of
        None \<Rightarrow> False
      | Some (state, pool) \<Rightarrow>
          let tx = make_test_tx 1 1000 21000
          in case mempool_insert X S (ss_db state) tx pool of
               (r1, pool) \<Rightarrow> r1 = Inr () \<and> fst (mempool_insert X S (ss_db state) tx pool) = Inl AlreadyExists)"

definition test_insert_double_spend_in_mempool_rejected :: "ext \<Rightarrow> 'db sled \<Rightarrow> 'db \<Rightarrow> bool" where
  "test_insert_double_spend_in_mempool_rejected X S db \<longleftrightarrow>
     (case setup_mempool X S db of
        None \<Rightarrow> False
      | Some (state, pool) \<Rightarrow>
          let tx1 = make_test_tx 1 1000 21000; tx2 = make_test_tx 1 5000 21000
          in case mempool_insert X S (ss_db state) tx1 pool of
               (r1, pool) \<Rightarrow> r1 = Inr () \<and> fst (mempool_insert X S (ss_db state) tx2 pool) = Inl PoolDoubleSpend)"

text \<open>The pool after \<open>setup_mempool\<close> and the insertions of a list, each unwrapped.\<close>

definition pool_with :: "ext \<Rightarrow> 'db sled \<Rightarrow> 'db \<Rightarrow> transaction list \<Rightarrow> ('db state_store \<times> mempool) option" where
  "pool_with X S db txs =
     (case setup_mempool X S db of
        None \<Rightarrow> None
      | Some (state, pool) \<Rightarrow> map_option (Pair state) (insert_unwrap X S (ss_db state) txs pool))"

definition test_select_for_block_respects_gas_limit ::
  "ext \<Rightarrow> 'db sled \<Rightarrow> 'db \<Rightarrow> (transaction list \<Rightarrow> transaction list) \<Rightarrow> bool" where
  "test_select_for_block_respects_gas_limit X S db shuffle \<longleftrightarrow>
     (case pool_with X S db [make_test_tx 1 1000 50000, make_test_tx 2 5000 50000, make_test_tx 3 10000 50000] of
        None \<Rightarrow> False
      | Some (_, pool) \<Rightarrow> length (select_for_block X shuffle 10 120000 pool) = 2)"

definition test_select_for_block_respects_max_txs ::
  "ext \<Rightarrow> 'db sled \<Rightarrow> 'db \<Rightarrow> (transaction list \<Rightarrow> transaction list) \<Rightarrow> bool" where
  "test_select_for_block_respects_max_txs X S db shuffle \<longleftrightarrow>
     (case pool_with X S db (map (\<lambda>i. make_test_tx i 1000 21000) [1, 2, 3, 4, 5]) of
        None \<Rightarrow> False
      | Some (_, pool) \<Rightarrow> length (select_for_block X shuffle 3 10000000 pool) = 3)"

definition test_select_for_block_sorts_by_fee ::
  "ext \<Rightarrow> 'db sled \<Rightarrow> 'db \<Rightarrow> (transaction list \<Rightarrow> transaction list) \<Rightarrow> bool" where
  "test_select_for_block_sorts_by_fee X S db shuffle \<longleftrightarrow>
     (case pool_with X S db [make_test_tx 1 1000 21000, make_test_tx 2 10000 21000, make_test_tx 3 5000 21000] of
        None \<Rightarrow> False
      | Some (_, pool) \<Rightarrow> map tx_fee (select_for_block X shuffle 3 10000000 pool) = [10000, 5000, 1000])"

definition test_remove_mined :: "ext \<Rightarrow> 'db sled \<Rightarrow> 'db \<Rightarrow> bool" where
  "test_remove_mined X S db \<longleftrightarrow>
     (let tx1 = make_test_tx 1 1000 21000; tx2 = make_test_tx 2 1000 21000; tx3 = make_test_tx 1 5000 21000
      in case pool_with X S db [tx1, tx2] of
           None \<Rightarrow> False
         | Some (state, pool) \<Rightarrow>
             mempool_len pool = 2 \<and>
             (let pool' = remove_mined X [tx1] pool
              in mempool_len pool' = 1 \<and> fst (mempool_insert X S (ss_db state) tx3 pool') = Inr ()))"

lemma low_fee_refused:
  assumes "fee \<notin> set FEE_TIERS"
  shows "\<exists>e. mempool_insert X S db (make_test_tx n fee gas) p = (Inl e, p)"
proof -
  have "validate_format X (make_test_tx n fee gas) = Inl InvalidFeeTier"
    using assms by (simp add: validate_format_def make_test_tx_def MAX_SPENDS_PER_TX_def MAX_OUTPUTS_PER_TX_def)
  then show ?thesis
    by (simp add: mempool_insert_def Let_def)
qed

text \<open>
  All seven unit tests of the mempool fail. Each of them begins by pooling a transaction with
  a fee of 1000 and expects that to succeed; this fee is none of the tiers 10000, 100000 and
  1000000 of the format check the pool runs, so the first insertion is refused, whatever the
  database, the hash function and the shuffle.
\<close>

theorem pool_unit_tests_fail:
  "\<not> test_insert_valid_tx X S db \<and> \<not> test_insert_duplicate_rejected X S db \<and>
   \<not> test_insert_double_spend_in_mempool_rejected X S db \<and> \<not> test_remove_mined X S db \<and>
   \<not> test_select_for_block_respects_gas_limit X S db shuffle \<and>
   \<not> test_select_for_block_respects_max_txs X S db shuffle \<and>
   \<not> test_select_for_block_sorts_by_fee X S db shuffle"
proof -
  have refused: "\<exists>e. mempool_insert X S db (make_test_tx n 1000 gas) p = (Inl e, p)" for n gas db p
    by (rule low_fee_refused) (simp add: FEE_TIERS_def)
  then have "fst (mempool_insert X S db (make_test_tx n 1000 gas) p) \<noteq> Inr ()" for n gas db p
    by (metis fst_conv sum.distinct(1))
  moreover have "insert_unwrap X S db (make_test_tx n 1000 gas # txs) p = None" for n gas db txs p
    using refused [of db n gas p] by auto
  then have "pool_with X S db (make_test_tx n 1000 gas # txs) = None" for n gas txs
    by (simp add: pool_with_def split_beta del: insert_unwrap.simps split: option.split)
  ultimately show ?thesis
    by (auto simp: split_beta Let_def test_insert_valid_tx_def test_insert_duplicate_rejected_def
        test_insert_double_spend_in_mempool_rejected_def test_remove_mined_def
        test_select_for_block_respects_gas_limit_def test_select_for_block_respects_max_txs_def
        test_select_for_block_sorts_by_fee_def split: option.split)
qed

section \<open>The fee market\<close>

definition test_base_fee_increase_on_full_block :: bool where
  "test_base_fee_increase_on_full_block \<longleftrightarrow>
     (let target = 5000000; fm = (fee_market_new target)\<lparr>fm_base_fee := 10\<rparr>; initial = fm_base_fee fm;
          fm = adjust_base_fee (target * 2) fm
      in fm_base_fee fm > initial)"

definition test_base_fee_decrease_on_empty_block :: bool where
  "test_base_fee_decrease_on_empty_block \<longleftrightarrow>
     (let target = 5000000; fm = (fee_market_new target)\<lparr>fm_base_fee := 100\<rparr>; initial = fm_base_fee fm;
          fm = adjust_base_fee 0 fm
      in fm_base_fee fm < initial)"

definition test_base_fee_floor :: bool where
  "test_base_fee_floor \<longleftrightarrow>
     (let target = 5000000; fm = (adjust_base_fee 0 ^^ 100) (fee_market_new target);
          min_base_fee = MIN_FEE div BASE_TX_GAS
      in fm_base_fee fm \<ge> min_base_fee)"

definition test_split_fee_correct :: bool where
  "test_split_fee_correct \<longleftrightarrow>
     (let fm = \<lparr>fm_base_fee = 10, fm_target_block_gas = 5000000\<rparr>; (burn, tip) = split_fee fm 1000 50
      in burn = 500 \<and> tip = 500)"

definition test_split_fee_no_tip :: bool where
  "test_split_fee_no_tip \<longleftrightarrow>
     (let fm = \<lparr>fm_base_fee = 10, fm_target_block_gas = 5000000\<rparr>; (burn, tip) = split_fee fm 500 50
      in burn = 500 \<and> tip = 0)"

definition test_split_fee_underpay :: bool where
  "test_split_fee_underpay \<longleftrightarrow>
     (let fm = \<lparr>fm_base_fee = 10, fm_target_block_gas = 5000000\<rparr>; (burn, tip) = split_fee fm 100 50
      in burn = 100 \<and> tip = 0)"

text \<open>All of these hold, in the floating-point arithmetic of the code.\<close>

lemma rounded_nat: "n \<le> 2 ^ 53 \<Longrightarrow> rounded s (of_nat n) = F64_Fin s (of_nat n)"
  using f64_of_nat_small [of n] by (cases s) (simp_all add: f64_of_nat_def rounded_def Let_def split: if_splits)

lemma rounded_quarter: "k \<le> 2 ^ 50 \<Longrightarrow> rounded s (of_nat k / 4) = F64_Fin s (of_nat k / 4)"
proof -
  assume k: "k \<le> 2 ^ 50"
  have "representable (of_int (int k) * 2 powi (- 2))"
    using k by (intro representableI) simp_all
  moreover have "of_int (int k) * 2 powi (- 2) = (of_nat k / 4 :: rat)"
    by (simp add: power_int_def power2_eq_square)
  ultimately have "round_mag (of_nat k / 4) = of_nat k / 4"
    using round_mag_representable [of "of_nat k / 4"] by (simp only:)
  moreover have "(of_nat k :: rat) \<le> 2 ^ 50"
    using k by (metis of_nat_le_iff of_nat_numeral of_nat_power)
  ultimately show ?thesis
    by (simp add: rounded_def Let_def)
qed

lemma full_block_fee: "fm_base_fee (adjust_base_fee 10000000 \<lparr>fm_base_fee = 10, fm_target_block_gas = 5000000\<rparr>) = 11"
  using rounded_nat [of 5000000 False] rounded_nat [of 1 False] rounded_nat [of 10 False] rounded_quarter [of 5 False] floor_eq_iff [of "5 / 4 :: rat" 1]
  by (simp add: adjust_base_fee_def fee_adjustment_def f64_of_nat_small f64_sub_def Let_def)

lemma empty_block_fee: "fm_base_fee (adjust_base_fee 0 \<lparr>fm_base_fee = 100, fm_target_block_gas = 5000000\<rparr>) = 88"
  using rounded_nat [of 5000000 True] rounded_nat [of 1 True] rounded_nat [of 100 True] rounded_quarter [of 50 True] floor_eq_iff [of "25 / 2 :: rat" 12]
  by (simp add: adjust_base_fee_def fee_adjustment_def f64_of_nat_small f64_sub_def Let_def)

lemma fee_market_unit_tests_pass:
  "test_base_fee_increase_on_full_block" "test_base_fee_decrease_on_empty_block" "test_base_fee_floor"
  "test_split_fee_correct" "test_split_fee_no_tip" "test_split_fee_underpay"
proof -
  show test_base_fee_increase_on_full_block
    using full_block_fee by (simp add: test_base_fee_increase_on_full_block_def fee_market_new_def Let_def)
  show test_base_fee_decrease_on_empty_block
    using empty_block_fee by (simp add: test_base_fee_decrease_on_empty_block_def fee_market_new_def Let_def)
  have "(1 :: u64) \<le> fm_base_fee ((adjust_base_fee 0 ^^ Suc n) fm)" for n fm
    using base_fee_stays_positive [of 0] by (simp add: word_le_nat_alt)
  from this [of 99] show test_base_fee_floor
    by (simp add: test_base_fee_floor_def Let_def MIN_FEE_def BASE_TX_GAS_def word_div_def del: funpow.simps)
qed (simp_all add: test_split_fee_correct_def test_split_fee_no_tip_def test_split_fee_underpay_def split_fee_def Let_def)

end
