(* ===== verification/Node_Tests.thy ===== *)
theory Node_Tests
  imports Bft Leader Dandelion
begin

text \<open>
  The unit tests of crates/noirnet-consensus (bft.rs, epoch.rs, leader.rs, slashing.rs, sync.rs)
  and of the Dandelion router (crates/noirnet-network/src/dandelion.rs), as Boolean definitions over
  the model: a test holds if it runs to its end. What a test draws (peers, random numbers, readings
  of the clock) is an argument. Each group of lemmas shows that the tests hold.
\<close>

section \<open>Rounds\<close>

definition test_bft_quorum :: bool where
  "test_bft_quorum \<longleftrightarrow>
     (let state0 = bft_round_new 1 0 4;
          hash = Hash32_ZERO;
          prevote = (\<lambda>v. \<lparr>vote_height = 1, vote_round = 0, vote_block_hash = hash, vote_kind = Prevote,
            vote_validator_id = v, vote_signature = replicate 96 0\<rparr>);
          v1 = replicate 32 1; v2 = replicate 32 2; v3 = replicate 32 3;
          state1 = snd (add_vote (prevote v1) state0);
          state2 = snd (add_vote (prevote v2) state1);
          state3 = snd (add_vote (prevote v3) state2);
          (phase4, state4) = try_advance_phase hash state3;
          (phase5, state5) = try_advance_phase hash state4
      in \<not> has_quorum_prevote state1 hash \<and> \<not> has_quorum_prevote state2 hash \<and> has_quorum_prevote state3 hash \<and>
         phase4 = Some Bft_Prevote \<and> phase5 = Some Bft_Precommit)"

lemma bft_unit_test_passes: test_bft_quorum
  by (simp add: test_bft_quorum_def bft_round_new_def add_vote_def record_voter_def has_quorum_prevote_def
      try_advance_phase_def Let_def fcard_finsert_if fcard_fempty numeral_eq_Suc)

section \<open>Epochs\<close>

definition epoch_make_validator :: "validator_status \<Rightarrow> validator_state" where
  "epoch_make_validator status =
     \<lparr>vs_registration = \<lparr>vr_bls_pubkey = replicate 48 1, vr_network_pubkey = replicate 32 2, vr_stake = 10000,
        vr_commission_bps = 1000, vr_epoch = 0, vr_signature = replicate 64 0\<rparr>,
      vs_status = status, vs_own_stake = 10000, vs_delegated_stake = 0, vs_consecutive_misses = 0,
      vs_last_signed_height = 0, vs_pending_rewards = 0, vs_total_slashed = 0\<rparr>"

definition test_epoch_at_height :: bool where
  "test_epoch_at_height \<longleftrightarrow>
     (let sched = epoch_schedule_default
      in epoch_at_height sched 0 = 0 \<and> epoch_at_height sched 999 = 0 \<and> epoch_at_height sched 1000 = 1 \<and>
         epoch_at_height sched 2500 = 2)"

definition test_first_height :: bool where
  "test_first_height \<longleftrightarrow>
     (let sched = epoch_schedule_default
      in first_height sched 0 = 0 \<and> first_height sched 1 = 1000 \<and> first_height sched 5 = 5000)"

definition test_is_epoch_boundary :: bool where
  "test_is_epoch_boundary \<longleftrightarrow>
     (let sched = epoch_schedule_default
      in \<not> is_epoch_boundary sched 0 \<and> is_epoch_boundary sched 1000 \<and> is_epoch_boundary sched 2000 \<and>
         \<not> is_epoch_boundary sched 999)"

definition test_active_validators_filter :: bool where
  "test_active_validators_filter \<longleftrightarrow>
     (let validators = map epoch_make_validator [Active, Waiting, Active, Tombstoned]
      in length (active_validators validators) = 2)"

lemma epoch_unit_tests_pass:
  test_epoch_at_height test_first_height test_is_epoch_boundary test_active_validators_filter
  by (simp_all add: test_epoch_at_height_def test_first_height_def test_is_epoch_boundary_def
      test_active_validators_filter_def epoch_schedule_default_def DEFAULT_EPOCH_LENGTH_def epoch_at_height_def
      first_height_def is_epoch_boundary_def sat_mul_def active_validators_def vs_is_active_def
      epoch_make_validator_def Let_def word_div_def word_mod_def)

section \<open>The leader selector\<close>

definition leader_make_validator :: "u8 \<Rightarrow> u128 \<Rightarrow> validator_state" where
  "leader_make_validator i stake =
     \<lparr>vs_registration = \<lparr>vr_bls_pubkey = replicate 48 i, vr_network_pubkey = replicate 32 i, vr_stake = stake,
        vr_commission_bps = 1000, vr_epoch = 0, vr_signature = replicate 64 0\<rparr>,
      vs_status = Active, vs_own_stake = stake, vs_delegated_stake = 0, vs_consecutive_misses = 0,
      vs_last_signed_height = 0, vs_pending_rewards = 0, vs_total_slashed = 0\<rparr>"

definition test_select_leader_deterministic :: "ext \<Rightarrow> bool" where
  "test_select_leader_deterministic X \<longleftrightarrow>
     (let validators = [leader_make_validator 1 100, leader_make_validator 2 200, leader_make_validator 3 300];
          selector = leader_selector_new validators;
          entropy = replicate 32 42;
          l1 = select_leader X selector entropy 1;
          l2 = select_leader X selector entropy 1
      in l1 \<noteq> None \<and> l2 \<noteq> None \<and> l1 = l2)"

definition test_select_leader_changes_with_round :: "ext \<Rightarrow> bool" where
  "test_select_leader_changes_with_round X \<longleftrightarrow>
     (let validators = [leader_make_validator 1 100, leader_make_validator 2 200, leader_make_validator 3 300];
          selector = leader_selector_new validators;
          entropy = replicate 32 42;
          leaders = map (\<lambda>rnd. select_leader X selector entropy (of_nat rnd)) [0..<10]
      in None \<notin> set leaders \<and> card (set leaders) > 1)"

definition test_select_leader_fallback_zero_stake :: "ext \<Rightarrow> bool" where
  "test_select_leader_fallback_zero_stake X \<longleftrightarrow>
     (let validators = [leader_make_validator 1 0, leader_make_validator 2 0];
          selector = leader_selector_new validators;
          entropy = replicate 32 42
      in case select_leader X selector entropy 1 of
           None \<Rightarrow> False
         | Some l \<Rightarrow> l ! 0 = 1 \<or> l ! 0 = 2)"

lemma select_leader_Some:
  assumes "vs \<noteq> []"
  shows "\<exists>v \<in> set vs. select_leader X (leader_selector_new vs) entropy rnd = Some (vr_validator_id (vs_registration v))"
proof -
  let ?vs = "ls_active_validators (leader_selector_new vs)"
  have set: "set ?vs = set vs" and "?vs \<noteq> []"
    using assms by (simp_all add: leader_selector_new_def)
      (metis set_empty set_sort)
  then have "unat (u32_from_le (take 4 seed)) mod length ?vs < length ?vs" "last ?vs \<in> set ?vs" for seed
    by (simp, metis last_in_set)
  then show ?thesis
    using \<open>?vs \<noteq> []\<close> unfolding select_leader_def set [symmetric]
    by (auto simp: Let_def split: option.split dest: selection.draw_member intro: nth_mem)
qed

text \<open>The leaders of two rounds differ or not as BLAKE3 decides, the rest holds for every hash function.\<close>

lemma leader_unit_tests_pass:
  "test_select_leader_deterministic X" "test_select_leader_fallback_zero_stake X"
proof -
  let ?vs = "[leader_make_validator 1 100, leader_make_validator 2 200, leader_make_validator 3 300]"
  show "test_select_leader_deterministic X"
    using select_leader_Some [of ?vs X "replicate 32 42" 1]
    by (auto simp: test_select_leader_deterministic_def Let_def)
  show "test_select_leader_fallback_zero_stake X"
    using select_leader_Some [of "[leader_make_validator 1 0, leader_make_validator 2 0]" X "replicate 32 42" 1]
    by (auto simp: test_select_leader_fallback_zero_stake_def Let_def leader_make_validator_def vr_validator_id_def)
qed

lemma leader_changes_unit_test:
  assumes "i < 10" "j < 10"
    and "select_leader X (leader_selector_new [leader_make_validator 1 100, leader_make_validator 2 200,
        leader_make_validator 3 300]) (replicate 32 42) (of_nat i) \<noteq>
      select_leader X (leader_selector_new [leader_make_validator 1 100, leader_make_validator 2 200,
        leader_make_validator 3 300]) (replicate 32 42) (of_nat j)"
  shows "test_select_leader_changes_with_round X"
proof -
  let ?vs = "[leader_make_validator 1 100, leader_make_validator 2 200, leader_make_validator 3 300]"
  let ?l = "\<lambda>rnd. select_leader X (leader_selector_new ?vs) (replicate 32 42) (of_nat rnd)"
  have "?l rnd \<noteq> None" for rnd
    using select_leader_Some [of ?vs X "replicate 32 42" "of_nat rnd"] by auto
  then have "None \<notin> ?l ` {0..<10}"
    by (metis (no_types, lifting) imageE)
  moreover have "card {?l i, ?l j} \<le> card (?l ` {0..<10})"
    using assms(1,2) by (intro card_mono) auto
  ultimately show ?thesis
    using assms(3) by (simp add: test_select_leader_changes_with_round_def Let_def)
qed

section \<open>Slashing\<close>

definition make_validator_state :: validator_state where
  "make_validator_state =
     \<lparr>vs_registration = \<lparr>vr_bls_pubkey = replicate 48 1, vr_network_pubkey = replicate 32 2,
        vr_stake = 10000000000000, vr_commission_bps = 1000, vr_epoch = 0, vr_signature = replicate 64 0\<rparr>,
      vs_status = Active, vs_own_stake = 10000000000000, vs_delegated_stake = 5000000000000,
      vs_consecutive_misses = 0, vs_last_signed_height = 100, vs_pending_rewards = 0, vs_total_slashed = 0\<rparr>"

definition test_calculate_slash_5_percent :: bool where
  "test_calculate_slash_5_percent \<longleftrightarrow> calculate_slash 10000 500 = 500"

definition test_calculate_slash_zero_stake :: bool where
  "test_calculate_slash_zero_stake \<longleftrightarrow> calculate_slash 0 500 = 0"

definition test_apply_double_sign :: bool where
  "test_apply_double_sign \<longleftrightarrow>
     (let v = make_validator_state;
          evidence = \<lparr>dse_validator_id = vr_validator_id (vs_registration v), dse_height = 100,
            dse_block_hash_1 = replicate 32 1, dse_block_hash_2 = replicate 32 2,
            dse_sig_1 = replicate 64 0, dse_sig_2 = replicate 64 0\<rparr>
      in case apply_double_sign_evidence evidence slash_params_default v of
           (Inl _, _) \<Rightarrow> False
         | (Inr outcome, v) \<Rightarrow>
             so_tombstoned outcome \<and> so_amount outcome > 0 \<and> vs_status v = Tombstoned \<and>
             vs_total_slashed v = so_amount outcome)"

definition test_apply_double_sign_same_hashes_rejected :: bool where
  "test_apply_double_sign_same_hashes_rejected \<longleftrightarrow>
     (let v = make_validator_state;
          evidence = \<lparr>dse_validator_id = vr_validator_id (vs_registration v), dse_height = 100,
            dse_block_hash_1 = replicate 32 1, dse_block_hash_2 = replicate 32 1, dse_sig_1 = [], dse_sig_2 = []\<rparr>
      in isl (fst (apply_double_sign_evidence evidence slash_params_default v)))"

definition test_apply_double_sign_wrong_validator :: bool where
  "test_apply_double_sign_wrong_validator \<longleftrightarrow>
     (let v = make_validator_state;
          evidence = \<lparr>dse_validator_id = replicate 48 99, dse_height = 100,
            dse_block_hash_1 = replicate 32 1, dse_block_hash_2 = replicate 32 2, dse_sig_1 = [], dse_sig_2 = []\<rparr>
      in isl (fst (apply_double_sign_evidence evidence slash_params_default v)))"

lemma slashing_unit_tests_pass:
  test_calculate_slash_5_percent test_calculate_slash_zero_stake test_apply_double_sign
  test_apply_double_sign_same_hashes_rejected test_apply_double_sign_wrong_validator
  by (simp_all add: test_calculate_slash_5_percent_def test_calculate_slash_zero_stake_def
      test_apply_double_sign_def test_apply_double_sign_same_hashes_rejected_def
      test_apply_double_sign_wrong_validator_def calculate_slash_def sat_mul_def sat_add_def
      apply_double_sign_evidence_def slash_params_default_def make_validator_state_def vs_total_stake_def
      vr_validator_id_def Let_def word_div_def)

section \<open>The sync manager\<close>

definition test_sync_manager_logic :: "peer_id \<Rightarrow> bool" where
  "test_sync_manager_logic peer \<longleftrightarrow>
     (let manager0 = sync_manager_new;
          (req1, manager1) = handle_peer_height peer 12 10 manager0;
          (req2, manager2) = handle_peer_height peer 20 10 manager1;
          (still, manager3) = check_sync_status 15 manager2;
          (reached, manager4) = check_sync_status 20 manager3
      in req1 = None \<and> \<not> sm_is_syncing manager1 \<and>
         sm_is_syncing manager2 \<and> sm_target_height manager2 = 20 \<and>
         (case req2 of None \<Rightarrow> False | Some req \<Rightarrow> sreq_start_height req = 11 \<and> sreq_limit req = 50) \<and>
         still \<and> \<not> reached \<and> \<not> sm_is_syncing manager4 \<and> sm_current_request manager4 = None)"

lemma sync_unit_test_passes: "test_sync_manager_logic peer"
  by (simp add: test_sync_manager_logic_def sync_manager_new_def handle_peer_height_def start_sync_def
      check_sync_status_def Let_def)

section \<open>The Dandelion router\<close>

text \<open>\<open>u1\<close>, \<open>u2\<close> are the draws for the durations, \<open>draw1\<close>, \<open>draw2\<close> those against the fluff probability.\<close>

definition test_route_tx_drop_duplicate ::
  "(f64 \<Rightarrow> f64) \<Rightarrow> instant \<Rightarrow> instant \<Rightarrow> f64 \<Rightarrow> f64 \<Rightarrow> f64 \<Rightarrow> f64 \<Rightarrow> peer_id \<Rightarrow> bool" where
  "test_route_tx_drop_duplicate log_e now1 now2 draw1 draw2 u1 u2 peer \<longleftrightarrow>
     (let router = dandelion_new (F64_Fin False 1); txid = replicate 32 1
      in case route_tx log_e now1 draw1 u1 txid peer router of
           None \<Rightarrow> False
         | Some (_, router) \<Rightarrow>
             (case route_tx log_e now2 draw2 u2 txid peer router of
                None \<Rightarrow> False
              | Some (d2, _) \<Rightarrow> d2 = Drop))"

definition test_fluff_phase_broadcasts :: "(f64 \<Rightarrow> f64) \<Rightarrow> instant \<Rightarrow> f64 \<Rightarrow> f64 \<Rightarrow> peer_id \<Rightarrow> bool" where
  "test_fluff_phase_broadcasts log_e now draw u peer \<longleftrightarrow>
     (let router = (dandelion_new (F64_Fin False (1 / 2)))\<lparr>dr_phase := Fluff\<rparr>; txid = replicate 32 2
      in case route_tx log_e now draw u txid peer router of
           None \<Rightarrow> False
         | Some (d, _) \<Rightarrow> d = Broadcast)"

definition test_rotate_successor_empty :: "nat \<Rightarrow> bool" where
  "test_rotate_successor_empty idx \<longleftrightarrow>
     dr_stem_successor (rotate_successor idx [] (dandelion_new (F64_Fin False (1 / 2)))) = None"

definition test_rotate_successor_with_peers :: "nat \<Rightarrow> peer_id \<Rightarrow> peer_id \<Rightarrow> bool" where
  "test_rotate_successor_with_peers idx peer1 peer2 \<longleftrightarrow>
     dr_stem_successor (rotate_successor idx [peer1, peer2] (dandelion_new (F64_Fin False (1 / 2)))) \<noteq> None"

definition test_stem_duration_within_bounds :: "(f64 \<Rightarrow> f64) \<Rightarrow> (nat \<Rightarrow> f64) \<Rightarrow> bool" where
  "test_stem_duration_within_bounds log_e u \<longleftrightarrow>
     (let router = dandelion_new (rounded False (1 / 10))
      in list_all (\<lambda>i. case sample_stem_duration log_e (u i) router of
           None \<Rightarrow> False
         | Some dur \<Rightarrow> 2 * 10 ^ 9 \<le> dur \<and> dur \<le> 30 * 10 ^ 9) [0..<100])"

definition test_flush_expired_stems ::
  "(f64 \<Rightarrow> f64) \<Rightarrow> instant \<Rightarrow> instant \<Rightarrow> instant \<Rightarrow> f64 \<Rightarrow> f64 \<Rightarrow> nat \<Rightarrow> peer_id \<Rightarrow> peer_id \<Rightarrow> peer_id \<Rightarrow> bool" where
  "test_flush_expired_stems log_e now1 now2 now3 draw u idx peer1 peer2 peer \<longleftrightarrow>
     (let router = rotate_successor idx [peer1, peer2] (dandelion_new (F64_Fin False 0)); txid = replicate 32 3
      in case route_tx log_e now1 draw u txid peer router of
           None \<Rightarrow> False
         | Some (_, router) \<Rightarrow>
             let router = (case map_of (dr_tx_states router) txid of
                   Some state \<Rightarrow> router\<lparr>dr_tx_states := AList.update txid
                     (state\<lparr>ts_stem_deadline := now2 - 10 ^ 9\<rparr>) (dr_tx_states router)\<rparr>
                 | None \<Rightarrow> router);
                 (expired, router) = flush_expired_stems now3 router
             in txid \<in> set expired \<and>
                (case map_of (dr_tx_states router) txid of None \<Rightarrow> False | Some state \<Rightarrow> ts_phase state = Fluff))"

text \<open>
  The tests hold when the logarithm of each draw is a number, the draws against the probability lie in
  the interval from 0 up to 1, the index is below the number of peers, the clock does not go back, has run for a second,
  and the sender is not one of the two peers.
\<close>

lemma dandelion_unit_tests_pass:
  assumes "\<And>x. log_e x \<noteq> F64_NaN"
  shows "f64_less draw1 (F64_Fin False 1) \<Longrightarrow> test_route_tx_drop_duplicate log_e now1 now2 draw1 draw2 u1 u2 peer"
    and "test_fluff_phase_broadcasts log_e now draw u peer"
    and "test_rotate_successor_empty idx"
    and "test_rotate_successor_with_peers idx peer1 peer2"
    and "test_stem_duration_within_bounds log_e us"
proof -
  have sampled: "\<exists>d. sample_stem_duration log_e u r = Some d \<and> 2 * 10 ^ 9 \<le> d \<and> d \<le> 30 * 10 ^ 9"
    if "dr_mean_stem_duration_secs r = F64_Fin False 8" for u r
    using stem_duration_range [of log_e u r] assms that by blast
  have new: "\<exists>d. sample_stem_duration log_e u ((dandelion_new p)\<lparr>dr_phase := ph\<rparr>) = Some d" for u p ph
    using sampled [of "(dandelion_new p)\<lparr>dr_phase := ph\<rparr>" u] by (auto simp: dandelion_new_def)
  show "test_route_tx_drop_duplicate log_e now1 now2 draw1 draw2 u1 u2 peer" if "f64_less draw1 (F64_Fin False 1)"
    using that new [where u = u1 and p = "F64_Fin False 1" and ph = Stem]
    by (auto simp: test_route_tx_drop_duplicate_def route_tx_def dandelion_new_def Let_def)
  show "test_fluff_phase_broadcasts log_e now draw u peer"
    using new [where u = u and p = "F64_Fin False (1 / 2)" and ph = Fluff]
    by (auto simp: test_fluff_phase_broadcasts_def route_tx_def Let_def) (auto simp: dandelion_new_def)
  show "test_stem_duration_within_bounds log_e us"
    using sampled [of "dandelion_new (rounded False (1 / 10))"]
    unfolding test_stem_duration_within_bounds_def Let_def list_all_iff
    by (metis (no_types, lifting) dandelion_new_def dandelion_router.select_convs(5) option.simps(5))
qed (simp_all add: test_rotate_successor_empty_def test_rotate_successor_with_peers_def rotate_successor_def)

lemma flush_unit_test_passes:
  assumes "log_e u \<noteq> F64_NaN" "\<not> f64_less draw (F64_Fin False 0)" "idx < 2" "peer \<notin> {peer1, peer2}"
    and "10 ^ 9 \<le> now2" "now2 \<le> now3"
  shows "test_flush_expired_stems log_e now1 now2 now3 draw u idx peer1 peer2 peer"
proof -
  let ?r = "rotate_successor idx [peer1, peer2] (dandelion_new (F64_Fin False 0))"
  have r: "dr_phase ?r = Stem" "dr_tx_states ?r = []" "dr_fluff_probability ?r = F64_Fin False 0"
    "dr_mean_stem_duration_secs ?r = F64_Fin False 8"
    by (simp_all add: rotate_successor_def dandelion_new_def)
  obtain successor where s: "dr_stem_successor ?r = Some successor" "successor \<noteq> peer"
    using assms(3,4) by (auto simp: rotate_successor_def less_2_cases_iff)
  obtain d where "sample_stem_duration log_e u ?r = Some d"
    using stem_duration_range [of log_e u ?r] assms(1) r(4) by blast
  moreover have "now2 - 1000000000 < now3"
    using assms(5,6) by simp
  ultimately show ?thesis
    using r s assms(2)
    by (force simp: test_flush_expired_stems_def route_tx_def Let_def flush_expired_stems_def stem_expired_def)
qed

end
