(* ===== verification/Types_Tests.thy ===== *)
theory Types_Tests
  imports Notes Rpc
begin

text \<open>
  The unit tests of crates/noirnet-types (hash.rs, note.rs, address.rs, transaction.rs, validator.rs)
  as Boolean definitions over the model. Tests that compare hashes hold when BLAKE3 does not collide
  on the inputs they hash, which the lemmas name.
\<close>

section \<open>Hashes\<close>

definition test_hash32_blake3_deterministic :: "ext \<Rightarrow> bool" where
  "test_hash32_blake3_deterministic X \<longleftrightarrow>
     (let data = ascii ''NoirNet test data''; h1 = blake3 X data; h2 = blake3 X data
      in h1 = h2 \<and> h1 \<noteq> Hash32_ZERO)"

definition test_hash32_blake3_different_data :: "ext \<Rightarrow> bool" where
  "test_hash32_blake3_different_data X \<longleftrightarrow>
     (let h1 = blake3 X (ascii ''data1''); h2 = blake3 X (ascii ''data2'') in h1 \<noteq> h2)"

definition is_ascii_hexdigit :: "char \<Rightarrow> bool" where
  "is_ascii_hexdigit c \<longleftrightarrow> c \<in> set ''0123456789abcdefABCDEF''"

definition test_hash32_display_hex :: "hex_codec \<Rightarrow> bool" where
  "test_hash32_display_hex H \<longleftrightarrow>
     (let h = replicate 32 0xAB; s = hash32_to_string H h
      in length s = 64 \<and> list_all is_ascii_hexdigit s)"

lemma hash_unit_tests_pass:
  "blake3 X (ascii ''NoirNet test data'') \<noteq> Hash32_ZERO \<Longrightarrow> test_hash32_blake3_deterministic X"
  "inj_on (blake3 X) {ascii ''data1'', ascii ''data2''} \<Longrightarrow> test_hash32_blake3_different_data X"
  "test_hash32_display_hex plain_hex"
proof -
  have "ascii ''data1'' \<noteq> ascii ''data2''"
    by code_simp
  then show "inj_on (blake3 X) {ascii ''data1'', ascii ''data2''} \<Longrightarrow> test_hash32_blake3_different_data X"
    by (simp add: test_hash32_blake3_different_data_def)
  show "test_hash32_display_hex plain_hex"
    by code_simp
qed (simp add: test_hash32_blake3_deterministic_def)

section \<open>Notes\<close>

definition make_note :: "u64 \<Rightarrow> shielded_note" where
  "make_note v = \<lparr>note_value = v, note_rcm = replicate 32 1, note_rho = replicate 32 2,
     note_pk_d = replicate 32 3, note_diversifier = replicate 11 4\<rparr>"

definition test_note_commitment_deterministic :: "ext \<Rightarrow> bool" where
  "test_note_commitment_deterministic X \<longleftrightarrow>
     (let n1 = make_note 1000; n2 = make_note 1000 in note_commitment_of X n1 = note_commitment_of X n2)"

definition test_note_commitment_unique_per_value :: "ext \<Rightarrow> bool" where
  "test_note_commitment_unique_per_value X \<longleftrightarrow>
     (let n1 = make_note 1000; n2 = make_note 2000 in note_commitment_of X n1 \<noteq> note_commitment_of X n2)"

definition test_note_commitment_unique_per_rcm :: "ext \<Rightarrow> bool" where
  "test_note_commitment_unique_per_rcm X \<longleftrightarrow>
     (let n1 = \<lparr>note_value = 1000, note_rcm = replicate 32 1, note_rho = replicate 32 2,
            note_pk_d = replicate 32 3, note_diversifier = replicate 11 4\<rparr>;
          n2 = \<lparr>note_value = 1000, note_rcm = replicate 32 9, note_rho = replicate 32 2,
            note_pk_d = replicate 32 3, note_diversifier = replicate 11 4\<rparr>
      in note_commitment_of X n1 \<noteq> note_commitment_of X n2)"

definition test_note_plaintext_roundtrip :: bool where
  "test_note_plaintext_roundtrip \<longleftrightarrow>
     (let n = make_note 5000000000; plaintext = to_plaintext n
      in case from_plaintext plaintext (note_pk_d n) of
           None \<Rightarrow> False
         | Some recovered \<Rightarrow>
             note_value recovered = note_value n \<and> note_rcm recovered = note_rcm n \<and>
             note_rho recovered = note_rho n \<and> note_diversifier recovered = note_diversifier n)"

definition test_note_from_plaintext_too_short :: bool where
  "test_note_from_plaintext_too_short \<longleftrightarrow>
     (let short = replicate 10 0 in from_plaintext short (replicate 32 0) = None)"

definition test_encrypted_memo_valid :: bool where
  "test_encrypted_memo_valid \<longleftrightarrow> encrypted_memo_new (replicate 100 0) \<noteq> None"

definition test_encrypted_memo_max_size :: bool where
  "test_encrypted_memo_max_size \<longleftrightarrow> encrypted_memo_new (replicate (MAX_MEMO_SIZE + 1) 0) = None"

definition test_encrypted_memo_exact_max :: bool where
  "test_encrypted_memo_exact_max \<longleftrightarrow> encrypted_memo_new (replicate MAX_MEMO_SIZE 0) \<noteq> None"

text \<open>What the commitment of a note hashes.\<close>

definition note_preimage :: "shielded_note \<Rightarrow> bytes" where
  "note_preimage n = ascii ''NoirNet_note_cm_v1'' @ u64_to_le (note_value n) @ note_rcm n @ note_rho n @
     note_pk_d n @ note_diversifier n"

lemma commitment_separates:
  assumes "inj_on (blake3 X) {note_preimage n, note_preimage n'}"
    and "note_value n \<noteq> note_value n' \<or> note_rcm n \<noteq> note_rcm n'" "wf_note n" "wf_note n'"
  shows "note_commitment_of X n \<noteq> note_commitment_of X n'"
proof -
  have "note_preimage n \<noteq> note_preimage n'"
    using assms(2-4) by (auto simp: note_preimage_def wf_note_def)
  then show ?thesis
    using assms(1) by (simp add: note_commitment_of_def note_preimage_def)
qed

lemma note_unit_tests_pass:
  "test_note_commitment_deterministic X"
  "inj_on (blake3 X) {note_preimage (make_note 1000), note_preimage (make_note 2000)} \<Longrightarrow>
     test_note_commitment_unique_per_value X"
  "inj_on (blake3 X) {note_preimage (make_note 1000), note_preimage ((make_note 1000)\<lparr>note_rcm := replicate 32 9\<rparr>)} \<Longrightarrow>
     test_note_commitment_unique_per_rcm X"
  test_note_plaintext_roundtrip test_note_from_plaintext_too_short
  test_encrypted_memo_valid test_encrypted_memo_max_size test_encrypted_memo_exact_max
proof -
  show "test_note_commitment_unique_per_value X"
    if "inj_on (blake3 X) {note_preimage (make_note 1000), note_preimage (make_note 2000)}"
    using commitment_separates [OF that]
    by (simp add: test_note_commitment_unique_per_value_def make_note_def wf_note_def)
  show "test_note_commitment_unique_per_rcm X"
    if "inj_on (blake3 X) {note_preimage (make_note 1000), note_preimage ((make_note 1000)\<lparr>note_rcm := replicate 32 9\<rparr>)}"
    using commitment_separates [OF that]
    by (simp add: test_note_commitment_unique_per_rcm_def make_note_def wf_note_def)
qed (simp_all add: test_note_commitment_deterministic_def test_note_plaintext_roundtrip_def from_plaintext_def
    to_plaintext_def make_note_def test_note_from_plaintext_too_short_def test_encrypted_memo_valid_def
    test_encrypted_memo_max_size_def test_encrypted_memo_exact_max_def encrypted_memo_new_def MAX_MEMO_SIZE_def Let_def)

section \<open>Keys and addresses\<close>

definition test_spending_key_from_seed_deterministic :: "ext \<Rightarrow> bool" where
  "test_spending_key_from_seed_deterministic X \<longleftrightarrow>
     (let sk1 = spending_key_from_seed X (ascii ''test seed 1234567890123456'');
          sk2 = spending_key_from_seed X (ascii ''test seed 1234567890123456'')
      in sk1 = sk2)"

definition test_spending_key_different_seeds :: "ext \<Rightarrow> bool" where
  "test_spending_key_different_seeds X \<longleftrightarrow>
     (let sk1 = spending_key_from_seed X (ascii ''seed_a''); sk2 = spending_key_from_seed X (ascii ''seed_b'')
      in sk1 \<noteq> sk2)"

definition test_fvk_derivation_deterministic :: "ext \<Rightarrow> bool" where
  "test_fvk_derivation_deterministic X \<longleftrightarrow>
     (let sk = spending_key_from_seed X (ascii ''deterministic seed''); fvk1 = to_fvk X sk; fvk2 = to_fvk X sk
      in fvk_ak fvk1 = fvk_ak fvk2 \<and> fvk_nk fvk1 = fvk_nk fvk2 \<and> fvk_ovk fvk1 = fvk_ovk fvk2)"

definition test_fvk_keys_are_distinct :: "ext \<Rightarrow> bool" where
  "test_fvk_keys_are_distinct X \<longleftrightarrow>
     (let sk = spending_key_from_seed X (ascii ''key distinction test''); fvk = to_fvk X sk
      in fvk_ak fvk \<noteq> fvk_nk fvk \<and> fvk_nk fvk \<noteq> fvk_ovk fvk \<and> fvk_ak fvk \<noteq> fvk_ovk fvk)"

definition test_ivk_from_fvk :: "ext \<Rightarrow> bool" where
  "test_ivk_from_fvk X \<longleftrightarrow>
     (let sk = spending_key_from_seed X (ascii ''ivk test seed!!!''); fvk = to_fvk X sk;
          ivk1 = ivk_from_fvk X fvk; ivk2 = ivk_from_fvk X fvk
      in ivk1 = ivk2 \<and> ivk1 \<noteq> replicate 32 0)"

definition test_payment_address_derivation :: "ext \<Rightarrow> bool" where
  "test_payment_address_derivation X \<longleftrightarrow>
     (let sk = spending_key_from_seed X (ascii ''payment address test''); fvk = to_fvk X sk;
          ivk = ivk_from_fvk X fvk; addr0 = payment_address_of X ivk 0; addr1 = payment_address_of X ivk 1
      in pa_pk_d addr0 \<noteq> pa_pk_d addr1 \<and> pa_diversifier addr0 \<noteq> pa_diversifier addr1)"

definition test_payment_address_to_string :: "ext \<Rightarrow> (bytes \<Rightarrow> string) \<Rightarrow> bool" where
  "test_payment_address_to_string X bs58_encode \<longleftrightarrow>
     (let sk = spending_key_from_seed X (ascii ''address encoding test!''); fvk = to_fvk X sk;
          ivk = ivk_from_fvk X fvk; addr = payment_address_of X ivk 0; s = to_base58_string X bs58_encode addr
      in s \<noteq> [] \<and> length s > 20)"

text \<open>
  The three derived keys of one spending key differ because their tags do; the addresses of two
  indices differ in the diversifier whatever the hash, and in the key if it does not collide.
\<close>

lemma derived_keys_differ:
  assumes "inj_on (blake3 X) ((\<lambda>tag. ascii ''NoirNet_prf_v1'' @ sk @ ascii tag) ` {''ak'', ''nk'', ''ovk''})"
  shows "fvk_ak (to_fvk X sk) \<noteq> fvk_nk (to_fvk X sk)" "fvk_nk (to_fvk X sk) \<noteq> fvk_ovk (to_fvk X sk)"
    "fvk_ak (to_fvk X sk) \<noteq> fvk_ovk (to_fvk X sk)"
proof -
  have "ascii ''ak'' \<noteq> ascii ''nk''" "ascii ''nk'' \<noteq> ascii ''ovk''" "ascii ''ak'' \<noteq> ascii ''ovk''"
    by (code_simp, code_simp, code_simp)
  then show "fvk_ak (to_fvk X sk) \<noteq> fvk_nk (to_fvk X sk)" "fvk_nk (to_fvk X sk) \<noteq> fvk_ovk (to_fvk X sk)"
    "fvk_ak (to_fvk X sk) \<noteq> fvk_ovk (to_fvk X sk)"
    using assms by (auto simp: to_fvk_def key_prf_def)
qed

lemma addresses_differ:
  assumes "inj_on (blake3 X) ((\<lambda>i. ascii ''NoirNet_pkd_v1'' @ ivk @ u64_to_le i @ replicate 3 0) ` {i, j})" "i \<noteq> j"
  shows "pa_pk_d (payment_address_of X ivk i) \<noteq> pa_pk_d (payment_address_of X ivk j)"
    "pa_diversifier (payment_address_of X ivk i) \<noteq> pa_diversifier (payment_address_of X ivk j)"
  using assms by (simp_all add: payment_address_of_def Let_def)

lemma address_unit_tests_pass:
  "test_spending_key_from_seed_deterministic X"
  "inj_on (blake3 X) {ascii ''NoirNet_sk_v1seed_a'', ascii ''NoirNet_sk_v1seed_b''} \<Longrightarrow>
     test_spending_key_different_seeds X"
  "test_fvk_derivation_deterministic X"
  "inj_on (blake3 X) ((\<lambda>tag. ascii ''NoirNet_prf_v1'' @ spending_key_from_seed X (ascii ''key distinction test'') @
     ascii tag) ` {''ak'', ''nk'', ''ovk''}) \<Longrightarrow> test_fvk_keys_are_distinct X"
  "(\<And>bs. blake3 X bs \<noteq> replicate 32 0) \<Longrightarrow> test_ivk_from_fvk X"
  "inj_on (blake3 X) ((\<lambda>i. ascii ''NoirNet_pkd_v1'' @ ivk_from_fvk X (to_fvk X (spending_key_from_seed X
     (ascii ''payment address test''))) @ u64_to_le i @ replicate 3 0) ` {0, 1}) \<Longrightarrow> test_payment_address_derivation X"
  "(\<And>bs. length (blake3 X bs) = 32) \<Longrightarrow> (\<And>bs. length bs \<le> length (bs58_encode bs)) \<Longrightarrow>
     test_payment_address_to_string X bs58_encode"
proof -
  have "ascii ''NoirNet_sk_v1seed_a'' \<noteq> ascii ''NoirNet_sk_v1seed_b''"
    by code_simp
  moreover have "ascii s @ ascii t = ascii (s @ t)" for s t
    by (simp add: ascii_def)
  ultimately show "test_spending_key_different_seeds X"
    if "inj_on (blake3 X) {ascii ''NoirNet_sk_v1seed_a'', ascii ''NoirNet_sk_v1seed_b''}"
    using that by (simp add: test_spending_key_different_seeds_def spending_key_from_seed_def)
  show "test_fvk_keys_are_distinct X" if "inj_on (blake3 X) ((\<lambda>tag. ascii ''NoirNet_prf_v1'' @
      spending_key_from_seed X (ascii ''key distinction test'') @ ascii tag) ` {''ak'', ''nk'', ''ovk''})"
    using derived_keys_differ [OF that] by (simp add: test_fvk_keys_are_distinct_def Let_def)
  show "test_payment_address_derivation X" if "inj_on (blake3 X) ((\<lambda>i. ascii ''NoirNet_pkd_v1'' @ ivk_from_fvk X
      (to_fvk X (spending_key_from_seed X (ascii ''payment address test''))) @ u64_to_le i @ replicate 3 0) ` {0, 1})"
    using addresses_differ [OF that] by (simp add: test_payment_address_derivation_def Let_def)
  show "test_payment_address_to_string X bs58_encode"
    if hash: "\<And>bs. length (blake3 X bs) = 32" and encoded: "\<And>bs. length bs \<le> length (bs58_encode bs)"
  proof -
    let ?addr = "payment_address_of X (ivk_from_fvk X (to_fvk X (spending_key_from_seed X
      (ascii ''address encoding test!'')))) 0"
    let ?data = "[0x21, 0x89] @ pa_diversifier ?addr @ pa_pk_d ?addr"
    have "length (?data @ take 4 (blake3 X ?data)) = 49"
      by (simp add: payment_address_of_def Let_def hash)
    then have "49 \<le> length (to_base58_string X bs58_encode ?addr)"
      using encoded [of "?data @ take 4 (blake3 X ?data)"]
      by (simp add: to_base58_string_def bs58_encode_check_def Let_def)
    then show ?thesis
      by (auto simp: test_payment_address_to_string_def Let_def)
  qed
qed (simp_all add: test_spending_key_from_seed_deterministic_def test_fvk_derivation_deterministic_def
    test_ivk_from_fvk_def ivk_from_fvk_def Let_def)

section \<open>Transactions\<close>

definition make_valid_tx :: transaction where
  "make_valid_tx =
     \<lparr>tx_version = 1, tx_chain_id = 1,
      tx_spends = [\<lparr>sd_anchor = Hash32_ZERO, sd_nullifier = replicate 32 1, sd_rk = replicate 32 0,
        sd_cv = replicate 32 0, sd_spend_auth_sig = replicate 64 0\<rparr>],
      tx_outputs = [\<lparr>od_note_commitment = replicate 32 2, od_ephemeral_key = replicate 32 0,
        od_enc_ciphertext = replicate 580 0, od_out_ciphertext = replicate 80 0, od_cv = replicate 32 0\<rparr>],
      tx_fee = MIN_FEE, tx_gas_limit = 21000, tx_memo = None, tx_contract_call = None, tx_deploy_contract = None,
      tx_binding_sig = replicate 64 0, tx_timestamp = 1700000100, tx_aggregate_spend_proof = []\<rparr>"

definition test_tx_id_deterministic :: "ext \<Rightarrow> bool" where
  "test_tx_id_deterministic X \<longleftrightarrow>
     (let tx1 = make_valid_tx; tx2 = make_valid_tx
      in tx_id_of X tx1 = tx_id_of X tx2 \<and> tx_id_of X tx1 \<noteq> Hash32_ZERO)"

definition test_validate_format_valid :: "ext \<Rightarrow> bool" where
  "test_validate_format_valid X \<longleftrightarrow> validate_format X make_valid_tx = Inr ()"

definition test_validate_format_unsupported_version :: "ext \<Rightarrow> bool" where
  "test_validate_format_unsupported_version X \<longleftrightarrow>
     (let tx = make_valid_tx\<lparr>tx_version := 2\<rparr> in validate_format X tx = Inl (UnsupportedVersion 2))"

definition test_validate_format_no_inputs :: "ext \<Rightarrow> bool" where
  "test_validate_format_no_inputs X \<longleftrightarrow>
     (let tx = make_valid_tx\<lparr>tx_spends := [], tx_contract_call := None, tx_deploy_contract := None\<rparr>
      in validate_format X tx = Inl NoInputs)"

definition test_validate_format_no_outputs :: "ext \<Rightarrow> bool" where
  "test_validate_format_no_outputs X \<longleftrightarrow>
     (let tx = make_valid_tx\<lparr>tx_outputs := [], tx_contract_call := None, tx_deploy_contract := None\<rparr>
      in validate_format X tx = Inl NoOutputs)"

definition test_validate_format_invalid_fee :: "ext \<Rightarrow> bool" where
  "test_validate_format_invalid_fee X \<longleftrightarrow>
     (let tx = make_valid_tx\<lparr>tx_fee := 500\<rparr> in validate_format X tx = Inl InvalidFeeTier)"

definition test_validate_format_gas_limit_too_high :: "ext \<Rightarrow> bool" where
  "test_validate_format_gas_limit_too_high X \<longleftrightarrow>
     (let tx = make_valid_tx\<lparr>tx_gas_limit := MAX_TX_GAS + 1\<rparr> in validate_format X tx = Inl GasLimitTooHigh)"

definition test_signing_bytes_deterministic :: bool where
  "test_signing_bytes_deterministic \<longleftrightarrow>
     (let tx = make_valid_tx in signing_bytes tx = signing_bytes tx)"

definition test_signing_bytes_different_for_different_tx :: bool where
  "test_signing_bytes_different_for_different_tx \<longleftrightarrow>
     (let tx1 = make_valid_tx; tx2 = make_valid_tx\<lparr>tx_fee := 9999\<rparr>
      in signing_bytes tx1 \<noteq> signing_bytes tx2)"

lemma transaction_unit_tests_pass:
  "blake3 X (bincode_tx X make_valid_tx) \<noteq> Hash32_ZERO \<Longrightarrow> test_tx_id_deterministic X"
  "bincode_tx_size X make_valid_tx = Some n \<Longrightarrow> n \<le> MAX_P2P_MESSAGE_SIZE \<Longrightarrow> test_validate_format_valid X"
  "test_validate_format_unsupported_version X" "test_validate_format_no_inputs X" "test_validate_format_no_outputs X"
  "test_validate_format_invalid_fee X" "test_validate_format_gas_limit_too_high X"
  test_signing_bytes_deterministic test_signing_bytes_different_for_different_tx
proof -
  show "test_validate_format_valid X" if "bincode_tx_size X make_valid_tx = Some n" "n \<le> MAX_P2P_MESSAGE_SIZE"
    unfolding test_validate_format_valid_def validate_format_def that(1) using that(2)
    by (simp add: make_valid_tx_def MAX_SPENDS_PER_TX_def MAX_OUTPUTS_PER_TX_def FEE_TIERS_def MIN_FEE_def
        MAX_TX_GAS_def not_less)
qed (simp_all add: test_tx_id_deterministic_def tx_id_of_def test_validate_format_unsupported_version_def
    test_validate_format_no_inputs_def test_validate_format_no_outputs_def test_validate_format_invalid_fee_def
    test_validate_format_gas_limit_too_high_def test_signing_bytes_deterministic_def
    test_signing_bytes_different_for_different_tx_def validate_format_def signing_bytes_def make_valid_tx_def
    MAX_SPENDS_PER_TX_def MAX_OUTPUTS_PER_TX_def FEE_TIERS_def MIN_FEE_def MAX_TX_GAS_def Let_def)

section \<open>Validators\<close>

definition make_registration :: validator_registration where
  "make_registration = \<lparr>vr_bls_pubkey = replicate 48 1, vr_network_pubkey = replicate 32 2,
     vr_stake = 10000000000000, vr_commission_bps = 1000, vr_epoch = 0, vr_signature = replicate 64 0\<rparr>"

definition make_validator :: "validator_status \<Rightarrow> u128 \<Rightarrow> u128 \<Rightarrow> validator_state" where
  "make_validator status own delegated =
     \<lparr>vs_registration = make_registration, vs_status = status, vs_own_stake = own, vs_delegated_stake = delegated,
      vs_consecutive_misses = 0, vs_last_signed_height = 0, vs_pending_rewards = 0, vs_total_slashed = 0\<rparr>"

definition test_total_stake :: bool where
  "test_total_stake \<longleftrightarrow> vs_total_stake (make_validator Active 1000 500) = 1500"

definition test_is_active :: bool where
  "test_is_active \<longleftrightarrow>
     vs_is_active (make_validator Active 100 0) \<and> \<not> vs_is_active (make_validator Waiting 100 0) \<and>
     \<not> vs_is_active (make_validator Tombstoned 100 0) \<and> \<not> vs_is_active (make_validator (Jailed 10) 100 0)"

definition test_slash_params_default :: bool where
  "test_slash_params_default \<longleftrightarrow>
     (let p = slash_params_default
      in sp_double_sign_bps p = 500 \<and> sp_downtime_bps p = 50 \<and> sp_invalid_proof_bps p = 200)"

definition test_validator_id_from_registration :: bool where
  "test_validator_id_from_registration \<longleftrightarrow> vr_validator_id make_registration = replicate 48 1"

lemma validator_unit_tests_pass:
  test_total_stake test_is_active test_slash_params_default test_validator_id_from_registration
  by (simp_all add: test_total_stake_def test_is_active_def test_slash_params_default_def slash_params_default_def
      test_validator_id_from_registration_def vr_validator_id_def make_registration_def make_validator_def
      vs_total_stake_def vs_is_active_def Let_def)

end
