(* ===== verification/Crypto_Tests.thy ===== *)
theory Crypto_Tests
  imports Bls_Keys Wallet Zk
begin

text \<open>
  The unit tests of crates/noirnet-crypto (nullifier.rs, commitment.rs, encryption.rs, keys.rs,
  vrf.rs, stealth.rs, bls.rs), crates/noirnet-wallet (keys.rs) and crates/noirnet-zk (proof.rs) as
  Boolean definitions over the model. Random bytes are arguments. The lemmas name the law of the
  primitive each test relies on; the two tests of the key store fail under the law of the cipher.
\<close>

section \<open>Nullifiers and commitments\<close>

definition test_nullifier_deterministic :: "ext \<Rightarrow> bool" where
  "test_nullifier_deterministic X \<longleftrightarrow>
     (let nk = replicate 32 1; rho = replicate 32 2; cm = replicate 32 3;
          nf1 = compute_nullifier X nk rho cm; nf2 = compute_nullifier X nk rho cm
      in nf1 = nf2)"

definition test_nullifier_unique_per_note :: "ext \<Rightarrow> bool" where
  "test_nullifier_unique_per_note X \<longleftrightarrow>
     (let nk = replicate 32 1; rho1 = replicate 32 2; rho2 = replicate 32 3; cm = replicate 32 4;
          nf1 = compute_nullifier X nk rho1 cm; nf2 = compute_nullifier X nk rho2 cm
      in nf1 \<noteq> nf2)"

definition test_value_balance :: bool where
  "test_value_balance \<longleftrightarrow>
     (let spend_cvs = [replicate 32 0]; out_cvs = [replicate 32 0]
      in check_value_balance spend_cvs out_cvs 1000 [10000] [9000] \<and>
         \<not> check_value_balance spend_cvs out_cvs 1000 [10000] [10000])"

lemma nullifiers_differ:
  assumes "inj_on (blake3 X) ((\<lambda>rho. ascii ''NoirNet_Nullifier_v1'' @ nk @ rho @ cm) ` {rho, rho'})"
    and "length rho = length rho'" "rho \<noteq> rho'"
  shows "compute_nullifier X nk rho cm \<noteq> compute_nullifier X nk rho' cm"
  using assms by (simp add: compute_nullifier_def)

lemma commitment_unit_tests_pass:
  "test_nullifier_deterministic X"
  "inj_on (blake3 X) ((\<lambda>rho. ascii ''NoirNet_Nullifier_v1'' @ replicate 32 1 @ rho @ replicate 32 4) `
     {replicate 32 2, replicate 32 3}) \<Longrightarrow> test_nullifier_unique_per_note X"
  test_value_balance
proof -
  show "test_nullifier_unique_per_note X" if "inj_on (blake3 X) ((\<lambda>rho. ascii ''NoirNet_Nullifier_v1'' @
      replicate 32 1 @ rho @ replicate 32 4) ` {replicate 32 2, replicate 32 3})"
    using nullifiers_differ [OF that] by (simp add: test_nullifier_unique_per_note_def Let_def)
qed (simp_all add: test_nullifier_deterministic_def test_value_balance_def check_value_balance_def)

section \<open>Memos\<close>

definition test_memo_encrypt_decrypt_roundtrip :: "crypto_ext \<Rightarrow> bytes \<Rightarrow> bool" where
  "test_memo_encrypt_decrypt_roundtrip K nonce \<longleftrightarrow>
     (let key = replicate 32 42; memo = ascii ''Hello NoirNet!''
      in case encrypt_memo K nonce key memo of
           None \<Rightarrow> False
         | Some encrypted \<Rightarrow>
             (case decrypt_memo K key encrypted of None \<Rightarrow> False | Some decrypted \<Rightarrow> decrypted = memo))"

definition test_memo_wrong_key_fails :: "crypto_ext \<Rightarrow> bytes \<Rightarrow> bool" where
  "test_memo_wrong_key_fails K nonce \<longleftrightarrow>
     (let key = replicate 32 42; wrong_key = replicate 32 99; memo = ascii ''secret message''
      in case encrypt_memo K nonce key memo of
           None \<Rightarrow> False
         | Some encrypted \<Rightarrow> decrypt_memo K wrong_key encrypted = None)"

definition test_memo_max_size_rejection :: "crypto_ext \<Rightarrow> bytes \<Rightarrow> bool" where
  "test_memo_max_size_rejection K nonce \<longleftrightarrow>
     (let key = replicate 32 42; oversized = replicate (MAX_MEMO_SIZE + 1) 0
      in encrypt_memo K nonce key oversized = None)"

definition test_kdf_deterministic :: "ext \<Rightarrow> crypto_ext \<Rightarrow> bool" where
  "test_kdf_deterministic X K \<longleftrightarrow>
     (let out1 = kdf X K (ascii ''input key material'') (ascii ''info'') 32;
          out2 = kdf X K (ascii ''input key material'') (ascii ''info'') 32
      in out1 = out2)"

definition test_kdf_different_info :: "ext \<Rightarrow> crypto_ext \<Rightarrow> bool" where
  "test_kdf_different_info X K \<longleftrightarrow>
     (let out1 = kdf X K (ascii ''same ikm'') (ascii ''info1'') 32;
          out2 = kdf X K (ascii ''same ikm'') (ascii ''info2'') 32
      in out1 \<noteq> out2)"

definition test_ct_eq_equal :: bool where
  "test_ct_eq_equal \<longleftrightarrow> ct_eq (ascii ''hello'') (ascii ''hello'')"

definition test_ct_eq_not_equal :: bool where
  "test_ct_eq_not_equal \<longleftrightarrow> \<not> ct_eq (ascii ''hello'') (ascii ''world'')"

definition test_ct_eq_different_length :: bool where
  "test_ct_eq_different_length \<longleftrightarrow> \<not> ct_eq (ascii ''short'') (ascii ''longer string'')"

text \<open>
  The cipher decrypts what it encrypted under the same key and refuses it under another; the keyed
  hash does not collide on the two labels.
\<close>

lemma encryption_unit_tests_pass:
  assumes encrypts: "\<And>key nonce msg. aead_encrypt K key nonce msg \<noteq> None"
    and decrypts: "\<And>key nonce msg c. aead_encrypt K key nonce msg = Some c \<Longrightarrow> aead_decrypt K key nonce c = Some msg"
    and refuses: "\<And>nonce msg c. aead_encrypt K (replicate 32 42) nonce msg = Some c \<Longrightarrow>
      aead_decrypt K (replicate 32 99) nonce c = None"
    and labels: "inj_on (\<lambda>info. blake3_keyed_xof K (blake3 X (ascii ''same ikm'')) info 32) {ascii ''info1'', ascii ''info2''}"
    and "length nonce = 12"
  shows "test_memo_encrypt_decrypt_roundtrip K nonce" "test_memo_wrong_key_fails K nonce"
    "test_memo_max_size_rejection K nonce" "test_kdf_deterministic X K" "test_kdf_different_info X K"
    test_ct_eq_equal test_ct_eq_not_equal test_ct_eq_different_length
proof -
  obtain c where "aead_encrypt K (replicate 32 42) nonce (ascii ''Hello NoirNet!'') = Some c"
    using encrypts by blast
  then show "test_memo_encrypt_decrypt_roundtrip K nonce"
    using decrypts assms(5)
    by (simp add: test_memo_encrypt_decrypt_roundtrip_def encrypt_memo_def decrypt_memo_def MAX_MEMO_SIZE_def Let_def)
  obtain d where "aead_encrypt K (replicate 32 42) nonce (ascii ''secret message'') = Some d"
    using encrypts by blast
  then show "test_memo_wrong_key_fails K nonce"
    using refuses assms(5)
    by (simp add: test_memo_wrong_key_fails_def encrypt_memo_def decrypt_memo_def MAX_MEMO_SIZE_def Let_def)
  have distinct: "ascii ''info1'' \<noteq> ascii ''info2''" "ascii ''hello'' \<noteq> ascii ''world''"
    by (code_simp, code_simp)
  then show "test_kdf_different_info X K" test_ct_eq_not_equal
    using labels by (simp_all add: test_kdf_different_info_def kdf_def test_ct_eq_not_equal_def ct_eq_def)
  show test_ct_eq_different_length
    by (simp add: test_ct_eq_different_length_def ct_eq_def)
qed (simp_all add: test_memo_max_size_rejection_def encrypt_memo_def test_kdf_deterministic_def test_ct_eq_equal_def ct_eq_def)

section \<open>Signatures\<close>

definition test_ed25519_sign_verify :: "crypto_ext \<Rightarrow> bytes \<Rightarrow> bool" where
  "test_ed25519_sign_verify K entropy \<longleftrightarrow>
     (let kp = keypair_generate K entropy; msg = ascii ''test message for signing''; sig = keypair_sign K kp msg
      in keypair_verify K kp msg sig \<and> \<not> keypair_verify K kp (ascii ''wrong message'') sig)"

definition test_spending_key_derivation :: "ext \<Rightarrow> bytes \<Rightarrow> bool" where
  "test_spending_key_derivation X entropy \<longleftrightarrow>
     (let sk = generate_spending_key X entropy; fvk = to_fvk X sk; ivk = ivk_from_fvk X fvk
      in ivk \<noteq> replicate 32 0)"

definition test_binding_sig_roundtrip :: "ext \<Rightarrow> crypto_ext \<Rightarrow> bool" where
  "test_binding_sig_roundtrip X K \<longleftrightarrow>
     (let sk = replicate 32 77; spend_cvs = [replicate 32 1]; output_cvs = [replicate 32 2];
          tx_bytes = ascii ''test tx data'';
          sig = create_binding_sig X K spend_cvs output_cvs sk tx_bytes;
          vk = public_key_bytes (keypair_from_seed K sk)
      in verify_binding_sig X K spend_cvs output_cvs sig vk tx_bytes)"

definition test_binding_sig_wrong_key_fails :: "ext \<Rightarrow> crypto_ext \<Rightarrow> bool" where
  "test_binding_sig_wrong_key_fails X K \<longleftrightarrow>
     (let sk = replicate 32 77; spend_cvs = [replicate 32 1]; output_cvs = [replicate 32 2];
          tx_bytes = ascii ''test tx data'';
          sig = create_binding_sig X K spend_cvs output_cvs sk tx_bytes;
          wrong_vk = public_key_bytes (keypair_from_seed K (replicate 32 88))
      in \<not> verify_binding_sig X K spend_cvs output_cvs sig wrong_vk tx_bytes)"

definition test_vrf_prove_verify :: "ext \<Rightarrow> crypto_ext \<Rightarrow> bool" where
  "test_vrf_prove_verify X K \<longleftrightarrow>
     (let sk = replicate 32 42; vk = ed_public K sk; input = ascii ''block_height_12345'';
          out = vrf_prove X K sk input
      in vrf_verify X K vk input out \<and> \<not> vrf_verify X K vk (ascii ''wrong_input'') out)"

text \<open>
  A signature verifies under no other key and, for the messages at hand, for no other message.
\<close>

lemma ed25519_unit_tests_pass:
  assumes "ed25519 K"
    and message: "\<And>sk msg msg'. msg \<noteq> msg' \<Longrightarrow> length msg < 100 \<Longrightarrow> length msg' < 100 \<Longrightarrow>
      \<not> ed_verify K (ed_public K sk) msg' (ed_sign K sk msg)"
    and key: "\<And>sk msg. sk \<noteq> replicate 32 88 \<Longrightarrow> \<not> ed_verify K (ed_public K (replicate 32 88)) msg (ed_sign K sk msg)"
  shows "test_ed25519_sign_verify K entropy" "test_binding_sig_roundtrip X K" "test_binding_sig_wrong_key_fails X K"
    "test_vrf_prove_verify X K"
proof -
  have "ascii ''test message for signing'' \<noteq> ascii ''wrong message''"
    "vrf_message (ascii ''block_height_12345'') \<noteq> vrf_message (ascii ''wrong_input'')"
    by (code_simp, code_simp)
  then show "test_ed25519_sign_verify K entropy" "test_vrf_prove_verify X K"
    using message ed25519.ed_verify_sign [OF assms(1)] ed25519.vrf_ok [OF assms(1)]
    by (simp_all add: test_ed25519_sign_verify_def keypair_generate_def keypair_sign_def keypair_verify_def
        test_vrf_prove_verify_def Let_def) (simp add: vrf_verify_def vrf_prove_def vrf_message_def Let_def)
  show "test_binding_sig_roundtrip X K"
    using ed25519.binding_ok [OF assms(1)]
    by (simp add: test_binding_sig_roundtrip_def public_key_bytes_def keypair_from_seed_def Let_def)
  have "\<not> ed_verify K (ed_public K (replicate 32 88)) msg (ed_sign K (replicate 32 77) msg)" for msg
    by (rule key) simp
  then show "test_binding_sig_wrong_key_fails X K"
    by (simp add: test_binding_sig_wrong_key_fails_def public_key_bytes_def keypair_from_seed_def
        verify_binding_sig_def create_binding_sig_def Let_def)
qed

lemma spending_key_unit_test_passes:
  "(\<And>bs. blake3 X bs \<noteq> replicate 32 0) \<Longrightarrow> test_spending_key_derivation X entropy"
  by (simp add: test_spending_key_derivation_def ivk_from_fvk_def Let_def)

section \<open>BLS signatures\<close>

definition test_bls_sign_verify :: "crypto_ext \<Rightarrow> (bytes \<Rightarrow> bytes option) \<Rightarrow> bytes \<Rightarrow> bool" where
  "test_bls_sign_verify K key_gen ikm \<longleftrightarrow>
     (case bls_generate key_gen ikm of
        None \<Rightarrow> False
      | Some sk \<Rightarrow>
          let pk = bls_public_key K sk; msg = ascii ''NoirNet block 123''; sig = bls_sign K sk msg
          in bls_verify K sig msg pk)"

definition test_bls_aggregation :: "crypto_ext \<Rightarrow> (bytes \<Rightarrow> bytes option) \<Rightarrow> (nat \<Rightarrow> bytes) \<Rightarrow> bool" where
  "test_bls_aggregation K key_gen ikm \<longleftrightarrow>
     (let msg = ascii ''Common message''; generated = map (\<lambda>i. bls_generate key_gen (ikm i)) [0..<5]
      in if None \<in> set generated then False
         else let sks = map the generated;
                  pks = map (bls_public_key K) sks;
                  sigs = map (\<lambda>sk. bls_sign K sk msg) sks
              in case bls_aggregate K sigs of
                   Inl _ \<Rightarrow> False
                 | Inr agg_sig \<Rightarrow> bls_verify_batch K agg_sig msg pks)"

text \<open>
  FastAggregateVerify as documented: signatures of one message add up, and the sum verifies under
  the keys of the signers.
\<close>

locale bls_aggregation = bls_scheme +
  assumes aggregates: "sks \<noteq> [] \<Longrightarrow>
    \<exists>agg. bls_aggregate_raw K (map (\<lambda>sk. bls_sign K sk msg) sks) = Some agg \<and>
      bls_fast_aggregate_verify K agg msg bls_dst (map (bls_public_key K) sks)"
begin

lemma batch_verifies:
  assumes "sks \<noteq> []"
  obtains agg where "bls_aggregate K (map (\<lambda>sk. bls_sign K sk msg) sks) = Inr agg"
    "bls_verify_batch K agg msg (map (bls_public_key K) sks)"
  using aggregates [OF assms, of msg] assms by (auto simp: bls_aggregate_def bls_verify_batch_def)

lemma sign_verify_unit_test_passes: "key_gen ikm \<noteq> None \<Longrightarrow> test_bls_sign_verify K key_gen ikm"
  using verifies by (auto simp: test_bls_sign_verify_def bls_generate_def Let_def)

lemma aggregation_unit_test_passes:
  assumes "\<And>ikm. key_gen ikm \<noteq> None"
  shows "test_bls_aggregation K key_gen ikm"
proof -
  let ?sks = "map (\<lambda>i. the (key_gen (ikm i))) [0..<5]"
  obtain agg where "bls_aggregate K (map (\<lambda>sk. bls_sign K sk (ascii ''Common message'')) ?sks) = Inr agg"
    "bls_verify_batch K agg (ascii ''Common message'') (map (bls_public_key K) ?sks)"
    by (rule batch_verifies [of ?sks]) simp_all
  moreover have "None \<notin> set (map (\<lambda>i. bls_generate key_gen (ikm i)) [0..<5])"
    using assms by (metis (no_types, lifting) bls_generate_def imageE set_map)
  ultimately show ?thesis
    by (simp add: test_bls_aggregation_def bls_generate_def Let_def comp_def del: upt_conv_Cons)
qed

end

interpretation sample_aggregation: bls_aggregation sample_crypto
  by unfold_locales (simp add: sample_crypto_def bls_sign_def bls_public_key_def comp_def)

section \<open>Note encryption\<close>

definition test_encrypt_decrypt_roundtrip :: "ext \<Rightarrow> crypto_ext \<Rightarrow> bytes \<Rightarrow> bool" where
  "test_encrypt_decrypt_roundtrip X K esk \<longleftrightarrow>
     (let ivk = replicate 32 0xAB; pk_d = derive_pkd_from_ivk K ivk; ovk = replicate 32 0xCD;
          n = \<lparr>note_value = 1000000000, note_rcm = replicate 32 11, note_rho = replicate 32 22,
            note_pk_d = pk_d, note_diversifier = replicate 11 44\<rparr>
      in case encrypt_note X K esk n pk_d ovk of
           None \<Rightarrow> False
         | Some encrypted \<Rightarrow>
             let cm = note_commitment_of X n
             in case try_decrypt_output X K (eo_enc_ciphertext encrypted) (eo_ephemeral_key encrypted) cm ivk of
                  None \<Rightarrow> False
                | Some d \<Rightarrow> note_value d = note_value n)"

lemma stealth_unit_test_passes:
  assumes "\<And>key nonce msg. aead_encrypt K key nonce msg \<noteq> None"
    and "\<And>key nonce msg c. aead_encrypt K key nonce msg = Some c \<Longrightarrow> aead_decrypt K key nonce c = Some msg"
    and "\<And>a b. x25519_dh K a (x25519_public K b) = x25519_dh K b (x25519_public K a)"
    and "\<And>sk. length (x25519_public K sk) = 32"
  shows "test_encrypt_decrypt_roundtrip X K esk"
proof -
  let ?ivk = "replicate 32 (0xAB :: u8)"
  let ?n = "sample_note (derive_pkd_from_ivk K ?ivk)"
  have wf: "wf_note ?n" "note_pk_d ?n = derive_pkd_from_ivk K ?ivk"
    by (simp_all add: sample_note_def wf_note_def derive_pkd_from_ivk_def assms(4))
  obtain out where out: "encrypt_note X K esk ?n (note_pk_d ?n) (replicate 32 0xCD) = Some out"
    using assms(1) unfolding encrypt_note_def chacha20_encrypt_def Let_def
    by (metis (no_types, lifting) option.case_eq_if)
  then show ?thesis
    using encrypt_note_decrypts [OF wf assms(3) assms(2) out] wf(2)
    by (simp add: test_encrypt_decrypt_roundtrip_def sample_note_def Let_def)
qed

section \<open>The key store of the wallet\<close>

definition test_key_encryption_decryption ::
  "(bytes \<Rightarrow> bytes \<Rightarrow> bytes option) \<Rightarrow> crypto_ext \<Rightarrow> bytes \<Rightarrow> bytes \<Rightarrow> bool" where
  "test_key_encryption_decryption argon2 K salt seed \<longleftrightarrow>
     (case keystore_new argon2 K salt seed (ascii ''secure_password_123'') of
        None \<Rightarrow> False
      | Some keystore \<Rightarrow>
          (case derive_spend_key argon2 K keystore (ascii ''secure_password_123'') of
             Some (Inr derived) \<Rightarrow> seed = derived
           | _ \<Rightarrow> False))"

definition test_wrong_password_fails ::
  "(bytes \<Rightarrow> bytes \<Rightarrow> bytes option) \<Rightarrow> crypto_ext \<Rightarrow> bytes \<Rightarrow> bytes \<Rightarrow> bool" where
  "test_wrong_password_fails argon2 K salt seed \<longleftrightarrow>
     (case keystore_new argon2 K salt seed (ascii ''correct_password'') of
        None \<Rightarrow> False
      | Some keystore \<Rightarrow>
          (case derive_spend_key argon2 K keystore (ascii ''wrong_password'') of
             Some (Inl _) \<Rightarrow> True
           | _ \<Rightarrow> False))"

lemma keystore_unit_tests_fail:
  assumes "\<And>key nonce msg c. aead_encrypt K key nonce msg = Some c \<Longrightarrow> length c = length msg + 16"
    and "length seed = 32"
  shows "\<not> test_key_encryption_decryption argon2 K salt seed" "\<not> test_wrong_password_fails argon2 K salt seed"
  using keystore_new_panics [OF assms]
  by (simp_all add: test_key_encryption_decryption_def test_wrong_password_fails_def)

section \<open>Spend proofs\<close>

definition test_spend_proof_nova_roundtrip :: "('f, 'pp, 'p) nova \<Rightarrow> bool" where
  "test_spend_proof_nova_roundtrip N \<longleftrightarrow>
     (case setup_nova N of
        Inl _ \<Rightarrow> False
      | Inr pp \<Rightarrow>
          let values = [100, 200]; sks = [5, 6]; nullifiers = [500, 1200]
          in case generate_multi_spend_proof N pp values sks nullifiers of
               Inl _ \<Rightarrow> False
             | Inr bs \<Rightarrow> verify_spend_proof N pp bs 2 = Inr True)"

lemma spend_proof_unit_test_passes:
  assumes "setup_nova N = Inr pp" "nova_snark N pp" "\<And>w. nv_scalar N w = of_nat (unat w)"
    and "generate_multi_spend_proof N pp [100, 200] [5, 6] [500, 1200] = Inr bs"
  shows "test_spend_proof_nova_roundtrip N"
  using nova_snark.generated_proof_verdict [OF assms(2,4), of 2] assms
  by (simp add: test_spend_proof_nova_roundtrip_def step_satisfied_iff)

end
