(* ===== verification/Spec2Isabelle.thy ===== *)
theory Spec2Isabelle
  imports Node_Threads Sync_Serving Round_Progress Honest_Round Contract_Blocks Voting_Power Fee_Market Pool_Threads
    Dandelion Cli_Session Crash Channels Lost_Proposal Pool_Tests Node_Tests
    Types_Tests Crypto_Tests
begin

text \<open>
  A verification development of the NoirNet node, a privacy blockchain written in Rust.

  \<^bold>\<open>The program.\<close> A node receives gossip and sync messages (noirnet-network), pools transactions
  (noirnet-mempool), agrees on blocks in BFT rounds (noirnet-consensus), executes contracts
  (noirnet-vm) and applies blocks to a store over one sled database with an incremental Merkle
  tree of note commitments (noirnet-storage). The data is in noirnet-types, cryptography in
  noirnet-crypto and noirnet-zk, clients are noirnet-rpc, noirnet-wallet and the command line.

  \<^bold>\<open>Theories and the code they model.\<close>
  \<^item> \<open>Rust_Prelude\<close>: machine integers as words, byte strings, little- and big-endian conversions,
    fallible operations on a state (\<open>andThen\<close>, \<open>forEach\<close>) and the lemma collections.
  \<^item> \<open>Chain_Constants\<close>, \<open>Chain_Types\<close>, \<open>Tx_Format\<close>: noirnet-types constants.rs, note.rs,
    transaction.rs, block.rs, validator.rs: data, format check, signed bytes, hashes, rewards.
  \<^item> \<open>Externals\<close>: BLAKE3, bincode and sled as parameters, with the locale \<open>sled_db\<close> for sled's
    documented behaviour and an in-memory store that satisfies it.
  \<^item> \<open>Db\<close>, \<open>Incremental_Merkle\<close>, \<open>Merkle\<close>, \<open>State_Store\<close>: noirnet-storage db.rs,
    nullifier_store.rs, block_store.rs, merkle.rs, state.rs, operation by operation.
  \<^item> \<open>Ledger\<close>, \<open>Chain_History\<close>: the abstract ledger, the refinement of \<open>apply_block\<close> to it, chains of
    blocks, read-back, contract state, anchors, pruning.
  \<^item> \<open>Validators\<close>, \<open>Weighted_Choice\<close>, \<open>Leader\<close>: validator.rs, leader.rs, epoch.rs, slashing.rs.
  \<^item> \<open>Ieee_Double\<close>: the language's f64 (binary64 with rounding to even) on exact rationals; over it
    \<open>Fee_Market\<close> (fee_market.rs), \<open>Voting_Power\<close> (voting_power of validator.rs) and \<open>Dandelion\<close>
    (dandelion.rs).
  \<^item> \<open>Mempool\<close>: pool.rs, each method a step; \<open>Pool_Threads\<close>: the steps inside insert and remove_mined
    and their interleaving by the threads of the runtime. \<open>Bft\<close>: bft.rs as a transition system on votes.
    \<open>Round_Progress\<close>: the order of its phases and the bound on the effects of one round.
  \<^item> \<open>Vm_Host\<close>, \<open>Token_Contract\<close>: runtime.rs and host.rs over the wasmtime parameter, and the token
    contract of src/contracts/token on the host functions.
  \<^item> \<open>Crypto\<close>, \<open>Notes\<close>, \<open>Zk\<close>: noirnet-crypto, key derivation and note encryption, the step circuits
    and the Nova wrappers, over parameters with the locales \<open>signature_scheme\<close>, \<open>ed25519\<close> and
    \<open>nova_snark\<close>.
    \<open>Bls_Keys\<close>: the laws of BLS (\<open>bls_scheme\<close>) and the serde form of its keys and signatures, over
    the locale \<open>byte_format\<close>.
  \<^item> \<open>Network\<close>: p2p.rs and the sync manager (sync.rs).
  \<^item> \<open>Block_Builder\<close>, \<open>Engine\<close>: block_builder.rs and engine.rs, every arm of the event loop;
    \<open>Engine_Blocks\<close> (blocks), \<open>Engine_Rounds\<close> (rounds), \<open>Engine_Forks\<close> (what successive rounds and
    several proposals can do), \<open>Honest_Round\<close> (several engines that exchange their votes),
    \<open>Contract_Blocks\<close> (contracts in blocks), \<open>Sync_Serving\<close> (answers to peers) and
    \<open>Growth\<close> (what the engine never undoes, over the locale \<open>watched_keys\<close>) prove about it.
  \<^item> \<open>Wallet\<close>, \<open>Rpc\<close>, \<open>Cli\<close>: the transaction builders, the scan, the key store, the RPC handlers and
    the commands; \<open>Cli_Session\<close>: whole sessions of the command line over the locale \<open>json_rpc\<close>.
    \<open>Node\<close>: the tasks of the node program and their interleaving, an insertion into the mempool
    being one step; \<open>Node_Threads\<close>: the same with every mempool call taken apart as in
    \<open>Pool_Threads\<close>. \<open>Startup\<close>: its start and the set-up of the network service. \<open>Validator_Void\<close>: where a node's validators come from. \<open>Channels\<close>:
    the node with the bounds of its channels and queues. \<open>Lost_Proposal\<close>: a network of nodes.
    \<open>Crash\<close>: a database that dies after a number of writes, and what a node finds after it.
  \<^item> \<open>Pool_Tests\<close>, \<open>Node_Tests\<close>, \<open>Types_Tests\<close>, \<open>Crypto_Tests\<close>: the repository's unit tests as Boolean
    definitions over the model. They hold, under the laws of the primitives they name, except
    those of the pool and of the key store.

  \<^bold>\<open>Conventions.\<close> A struct is a record, an enum a datatype. Integers have their width and wrap, as in
  the release build the Dockerfile ships; lengths are natural numbers. A method that changes
  state and may fail returns a sum and the state afterwards, on the error branch too. A panic is
  \<open>None\<close> or an extra error constructor; one in the virtual machine (\<open>VmPanic\<close>) aborts the process
  of the release build, and the engine is described for executions without it. Clock readings, random draws and map iteration orders
  are arguments. Loops are structural recursions, folds, or (\<open>append_loop\<close>) a recursion with a
  measure, so there is no fuel; wasmtime's fuel is the gas of the program itself.

  \<^bold>\<open>What is shown.\<close> Storage: accepted chains are characterised, application refines the ledger, the
  tree's root is the Merkle root of its leaves, blocks read back, pruning keeps recent ones.
  Pool: reservations match pooled transactions, selection respects gas; the steps of one call run
  alone are the atomic operation, and under any interleaving what is pooled stays valid and the
  pool exceeds its limit by fewer than the number of threads. Consensus: agreement on a hash per
  round, validity of the round variables in every reachable state, the only way out of a height,
  votes that suffice to commit, that a round among honest validators commits at each of them, and
  that executing a block refines the ledger. Floating point: the base fee stays positive and moves
  by at most an eighth for up to twice the target gas, voting power is within a relative error of
  2^-51 of the exact share. Composition: whatever the tasks of a node do in any
  order, spent nullifiers stay spent and are refused by the pool and by the store; with the
  mempool calls interleaved too the pool stays valid and within its capacity plus the number of
  threads. A restarted node resumes from its database with an empty pool and sends nothing but its
  proposal. The virtual machine: what an execution writes and emits is paid for at the host
  prices and stays within the gas limit. Proofs: the verifier accepts what the prover's loop folded
  for the same number of spends, from a law about Nova's own steps (\<open>folded\<close>). Routing: a
  transaction is routed once, and a stem is released at most once.
  Bounding the channels changes nothing in what is never undone, but lets tasks wait for each
  other. Clients: a command line session ends in what the node did with the transaction; downloads
  are served from the chain.
  Several properties state defects as theorems: a chain cannot start from an empty store, built
  blocks are not accepted, wallet transactions are never mined, light wallets find nothing,
  prevotes can be replayed as precommits, no lock binds the rounds of a height, an honest
  validator signs double-sign evidence against itself, no validator is ever registered, a flooded
  node stops for good, a lost proposal stops the network, two overlapping insertions can both be
  accepted for one nullifier, token transfers of one block collapse into one, deploying the token
  again mints, a new fee market never reacts, a crash while a block is applied shuts the node out. The manifest's findings list them.

  \<^bold>\<open>Hypotheses.\<close> Properties name what they use of the parameters: \<open>sled_db\<close> (no I/O error),
  decoders that invert encoders, signature and cipher laws (\<open>ed25519\<close>, \<open>bls_scheme\<close>), \<open>json_rpc\<close> (a
  request is answered by its handler), \<open>byte_format\<close>, \<open>token_code\<close> (the code run is the compiled
  token contract), a logarithm that returns a number for a positive draw, no hash collision on the
  inputs named. Each has a witness that instantiates them with concrete functions. Capacity
  conditions (fewer than 2^32 leaves, no overflow of a height) are premises where the code needs
  them.

  \<^bold>\<open>Not modelled.\<close> The inside of libp2p and its glue behaviour.rs (the swarm is built from a record
  of settings), jsonrpsee's server, HTTP, argument parsing by clap, the format of log lines: calls
  into third-party code with no logic of their own. The layout of terminal output and the text of
  error messages, with the enum \<open>NoirNetError\<close> that nothing returns. The key store behind the feature
  hsm, which is not compiled. Data races below one operation of a DashMap or of sled, which these
  crates exclude. Re-export crates and the unused noirnet-p2p structs have no operations.
\<close>

end
